(* ===== verification/Prelude.thy ===== *)
theory Prelude
  imports Main "HOL-Library.Word" "HOL-Library.List_Lexorder" "HOL-Library.AList"
    "HOL-Library.Multiset" "HOL-Library.Log_Nat"
begin

text \<open>
  Shared vocabulary of the development: JavaScript strings as lists of UTF-16 code units,
  JavaScript values as they reach a function whose parameter has type \<open>unknown\<close>, the
  error values that stand for thrown exceptions, and insertion-ordered records.
  Nothing here models a file of the repository; it models the parts of the language the
  repository's files use.
\<close>

section \<open>Strings\<close>

text \<open>
  A JavaScript string is a sequence of 16-bit code units. \<open>js\<close> embeds an ASCII literal.
  The order on strings (\<open><\<close> and the default \<open>Array.sort\<close>) is lexicographic on code
  units, which is the order \<open>List_Lexorder\<close> gives to lists of words.
\<close>

type_synonym jsunit = "16 word"
type_synonym jstring = "jsunit list"

definition unit_of :: "char \<Rightarrow> jsunit" where
  "unit_of c = word_of_nat (of_char c)"

definition js :: "string \<Rightarrow> jstring" where
  "js s = map unit_of s"

named_theorems res_simps \<open>inversion of the result monad and of the record readers\<close>

lemma unat_unit_of: "unat (unit_of c) = of_char c"
proof -
  have "(of_char c :: nat) < 256" by simp
  also have "(256 :: nat) \<le> 2 ^ LENGTH(16)" by simp
  finally have "(of_char c :: nat) < 2 ^ LENGTH(16)" .
  then show ?thesis by (simp add: unit_of_def unat_of_nat take_bit_nat_eq_self)
qed

lemma unit_of_inject [simp]: "unit_of a = unit_of b \<longleftrightarrow> a = b"
  by (metis unat_unit_of of_char_eq_iff)

lemma js_inject [simp]: "js a = js b \<longleftrightarrow> a = b"
  unfolding js_def by (rule inj_map_eq_map) (auto intro: injI)

lemma length_js [simp]: "length (js s) = length s"
  by (simp add: js_def)

lemma js_eq_Nil [simp]: "js s = [] \<longleftrightarrow> s = []" "[] = js s \<longleftrightarrow> s = []"
  by (auto simp: js_def)

lemma js_Nil [simp]: "js [] = []"
  by simp

lemma js_append: "js (a @ b) = js a @ js b"
  by (simp add: js_def)

text \<open>\<open>Array.prototype.join\<close>.\<close>

fun join :: "jstring \<Rightarrow> jstring list \<Rightarrow> jstring" where
  "join sep [] = []"
| "join sep [x] = x"
| "join sep (x # y # ys) = x @ sep @ join sep (y # ys)"

text \<open>\<open>String.prototype.startsWith\<close>, \<open>endsWith\<close> and \<open>includes\<close>.\<close>

definition starts_with :: "jstring \<Rightarrow> jstring \<Rightarrow> bool" where
  "starts_with p s \<longleftrightarrow> take (length p) s = p"

definition ends_with :: "jstring \<Rightarrow> jstring \<Rightarrow> bool" where
  "ends_with p s \<longleftrightarrow> length p \<le> length s \<and> drop (length s - length p) s = p"

fun js_includes :: "jstring \<Rightarrow> jstring \<Rightarrow> bool" where
  "js_includes p [] = (p = [])"
| "js_includes p (u # us) = (starts_with p (u # us) \<or> js_includes p us)"

text \<open>Decimal digits of a number, as \<open>String(n)\<close> prints a safe integer.\<close>

definition digit :: "int \<Rightarrow> jsunit" where
  "digit d = word_of_int (48 + d)"

fun digits :: "int \<Rightarrow> jstring" where
  "digits n = (if n < 10 then [digit n] else digits (n div 10) @ [digit (n mod 10)])"

declare digits.simps [simp del]

definition dec :: "int \<Rightarrow> jstring" where
  "dec n = (if n < 0 then unit_of (CHR ''-'') # digits (- n) else digits n)"

text \<open>\<open>padStart(width, '0')\<close>.\<close>

definition pad_zero :: "nat \<Rightarrow> jstring \<Rightarrow> jstring" where
  "pad_zero w s = replicate (w - length s) (digit 0) @ s"

text \<open>The patterns \<open>/^[0-9a-f]{64}$/\<close> and \<open>/^sha256:[0-9a-f]{64}$/\<close>.\<close>

definition is_dec_digit :: "jsunit \<Rightarrow> bool" where
  "is_dec_digit u \<longleftrightarrow> 48 \<le> u \<and> u \<le> 57"

definition is_lower_hex :: "jsunit \<Rightarrow> bool" where
  "is_lower_hex u \<longleftrightarrow> is_dec_digit u \<or> (97 \<le> u \<and> u \<le> 102)"

definition hex64 :: "jstring \<Rightarrow> bool" where
  "hex64 s \<longleftrightarrow> length s = 64 \<and> list_all is_lower_hex s"

definition sha256_value :: "jstring \<Rightarrow> bool" where
  "sha256_value s \<longleftrightarrow> starts_with (js ''sha256:'') s \<and> hex64 (drop 7 s)"

text \<open>
  An executable stand-in for the platform's SHA-256, used only to evaluate the model on
  concrete inputs: 64 hexadecimal digits that depend on the length of the text.
\<close>

definition sample_sha :: "jstring \<Rightarrow> jstring" where
  "sample_sha t = replicate 63 (digit 0) @ [digit (int (length t) mod 10)]"

section \<open>Values\<close>

text \<open>
  The values a parameter of type \<open>unknown\<close> can hold. Integral numbers other than \<open>-0\<close>
  are \<open>JNum\<close>; the other numbers are told apart only as far as the code tells them apart.
  Objects keep their own enumerable string keys in insertion order (integer-like keys,
  which the language moves to the front, are only ever read back through a sort).
  \<open>JOther\<close> stands for functions, symbols and bigints.
\<close>

datatype badnum = NegZero | Fractional | NonFinite

datatype jsval =
    JUndef
  | JNull
  | JBool bool
  | JNum int
  | JBad badnum
  | JStr jstring
  | JArr "jsval list"
  | JObj "(jstring \<times> jsval) list"
  | JOther

type_synonym fields = "(jstring \<times> jsval) list"

definition max_safe :: int where
  "max_safe = 9007199254740991"

definition safe_int :: "int \<Rightarrow> bool" where
  "safe_int n \<longleftrightarrow> - max_safe \<le> n \<and> n \<le> max_safe"

text \<open>\<open>typeof v === 'number' && Number.isSafeInteger(v)\<close>; \<open>-0\<close> passes both.\<close>

fun is_safe_number :: "jsval \<Rightarrow> bool" where
  "is_safe_number (JNum n) = safe_int n"
| "is_safe_number (JBad NegZero) = True"
| "is_safe_number _ = False"

text \<open>The arithmetic value of a number that passed \<open>is_safe_number\<close>.\<close>

fun num_of :: "jsval \<Rightarrow> int" where
  "num_of (JNum n) = n"
| "num_of _ = 0"

fun str_of :: "jsval \<Rightarrow> jstring" where
  "str_of (JStr s) = s"
| "str_of _ = []"

fun arr_of :: "jsval \<Rightarrow> jsval list" where
  "arr_of (JArr xs) = xs"
| "arr_of _ = []"

fun obj_of :: "jsval \<Rightarrow> fields" where
  "obj_of (JObj kvs) = kvs"
| "obj_of _ = []"

fun is_str :: "jsval \<Rightarrow> bool" where
  "is_str (JStr _) = True"
| "is_str _ = False"

fun is_nonempty_str :: "jsval \<Rightarrow> bool" where
  "is_nonempty_str (JStr s) = (s \<noteq> [])"
| "is_nonempty_str _ = False"

fun is_arr :: "jsval \<Rightarrow> bool" where
  "is_arr (JArr _) = True"
| "is_arr _ = False"

text \<open>\<open>typeof v === 'object' && v !== null\<close>: arrays are objects.\<close>

fun is_object :: "jsval \<Rightarrow> bool" where
  "is_object (JObj _) = True"
| "is_object (JArr _) = True"
| "is_object _ = False"

text \<open>\<open>typeof v === 'object' && v !== null && !Array.isArray(v)\<close>.\<close>

fun is_plain_object :: "jsval \<Rightarrow> bool" where
  "is_plain_object (JObj _) = True"
| "is_plain_object _ = False"

text \<open>\<open>v === n\<close> for a number literal: \<open>-0 === 0\<close> holds.\<close>

definition eq_num :: "jsval \<Rightarrow> int \<Rightarrow> bool" where
  "eq_num v n \<longleftrightarrow> v = JNum n \<or> (n = 0 \<and> v = JBad NegZero)"

text \<open>Property reads of an object (a missing property reads as \<open>undefined\<close>).\<close>

definition fget :: "fields \<Rightarrow> jstring \<Rightarrow> jsval" where
  "fget fs k = (case map_of fs k of None \<Rightarrow> JUndef | Some v \<Rightarrow> v)"

text \<open>\<open>Object.keys(r).sort().join(',')\<close>, the shape test used by every validator.\<close>

definition field_set :: "fields \<Rightarrow> jstring" where
  "field_set fs = join (js '','') (sort (map fst fs))"

lemma fget_Nil [simp]: "fget [] k = JUndef"
  by (simp add: fget_def)

lemma fget_Cons [simp]: "fget ((a, v) # fs) k = (if a = k then v else fget fs k)"
  by (simp add: fget_def)

lemma is_nonempty_strE: "is_nonempty_str v \<Longrightarrow> \<exists>s. v = JStr s \<and> s \<noteq> []"
  by (cases v) auto

lemma is_strE: "is_str v \<Longrightarrow> \<exists>s. v = JStr s"
  by (cases v) auto

section \<open>Errors\<close>

text \<open>
  A thrown exception is a value: the class of the exception and the fixed part of its
  message. Interpolated values (offsets, identifiers) are left out of the message.
\<close>

datatype err_class =
    CanonicalJsonError
  | BudgetError
  | JournalError
  | ReducerError
  | ObjectStoreError
  | ExecutionError
  | PlainError
  | Unmodelled

type_synonym jserror = "err_class \<times> string"

type_synonym 'a res = "jserror + 'a"

definition bindR :: "'a res \<Rightarrow> ('a \<Rightarrow> 'b res) \<Rightarrow> 'b res" where
  "bindR m f = (case m of Inl e \<Rightarrow> Inl e | Inr a \<Rightarrow> f a)"

text \<open>\<open>if (!c) throw e\<close>, then the rest.\<close>

definition ensure :: "bool \<Rightarrow> jserror \<Rightarrow> 'a res \<Rightarrow> 'a res" where
  "ensure c e k = (if c then k else Inl e)"

fun seqR :: "'a res list \<Rightarrow> 'a list res" where
  "seqR [] = Inr []"
| "seqR (m # ms) = bindR m (\<lambda>x. bindR (seqR ms) (\<lambda>xs. Inr (x # xs)))"

text \<open>A loop that stops at the first exception.\<close>

fun foldR :: "('s \<Rightarrow> 'a \<Rightarrow> 's res) \<Rightarrow> 's \<Rightarrow> 'a list \<Rightarrow> 's res" where
  "foldR f s [] = Inr s"
| "foldR f s (x # xs) = bindR (f s x) (\<lambda>s'. foldR f s' xs)"

definition eachR :: "('a \<Rightarrow> unit res) \<Rightarrow> 'a list \<Rightarrow> unit res" where
  "eachR f xs = foldR (\<lambda>_ x. f x) () xs"

text \<open>
  Evaluation unfolds the two combinators, so that \<open>code_simp\<close> meets a \<open>case\<close> and does
  not rewrite a continuation before its argument is known.
\<close>

declare bindR_def [code_unfold] ensure_def [code_unfold]

lemma bindR_cong: "m = m' \<Longrightarrow> bindR m f = bindR m' f"
  by simp

lemma bindR_simps [simp]: "bindR (Inl e) f = Inl e" "bindR (Inr a) f = f a"
  by (simp_all add: bindR_def)

lemma bindR_Inr_iff [res_simps]: "bindR m f = Inr b \<longleftrightarrow> (\<exists>a. m = Inr a \<and> f a = Inr b)"
  by (cases m) auto

lemma bindR_Inl_iff: "bindR m f = Inl e \<longleftrightarrow> m = Inl e \<or> (\<exists>a. m = Inr a \<and> f a = Inl e)"
  by (cases m) auto

lemma bindR_assoc: "bindR (bindR m f) g = bindR m (\<lambda>x. bindR (f x) g)"
  by (cases m) auto

lemma not_isl_Inr: "\<not> isl m \<Longrightarrow> m = Inr (projr m)"
  by (cases m) auto

lemma ensure_simps [simp]: "ensure True e k = k" "ensure False e k = Inl e"
  by (simp_all add: ensure_def)

lemma ensure_Inr_iff [res_simps]: "ensure c e k = Inr a \<longleftrightarrow> c \<and> k = Inr a"
  by (simp add: ensure_def)

lemma seqR_Inr_iff: "seqR ms = Inr xs \<longleftrightarrow> ms = map Inr xs"
  by (induction ms arbitrary: xs) (auto simp: bindR_Inr_iff Cons_eq_map_conv)

lemma foldR_append: "foldR f s (xs @ ys) = bindR (foldR f s xs) (\<lambda>s'. foldR f s' ys)"
  by (induction xs arbitrary: s) (auto simp: bindR_assoc)

lemma bindR_Inr_right [simp]: "bindR m Inr = m"
  by (cases m) auto

lemma foldR_snoc: "foldR f s (xs @ [x]) = bindR (foldR f s xs) (\<lambda>s'. f s' x)"
  by (simp add: foldR_append)

lemma foldR_invariant:
  assumes "foldR f s xs = Inr s'" "P s"
    and "\<And>s x s'. P s \<Longrightarrow> x \<in> set xs \<Longrightarrow> f s x = Inr s' \<Longrightarrow> P s'"
  shows "P s'"
  using assms
proof (induction xs arbitrary: s)
  case Nil
  then show ?case by simp
next
  case (Cons x xs)
  from Cons.prems(1) obtain t where "f s x = Inr t" "foldR f t xs = Inr s'"
    by (auto simp: bindR_Inr_iff)
  with Cons.prems(2,3) show ?case
    by (intro Cons.IH [of t]) (auto intro: Cons.prems(3))
qed

lemma eachR_Inr_iff [res_simps]: "eachR f xs = Inr u \<longleftrightarrow> (\<forall>x\<in>set xs. f x = Inr ())"
  unfolding eachR_def by (induction xs) (auto simp: bindR_Inr_iff)

lemma eachR_simps [simp]:
  "eachR f [] = Inr ()" "eachR f (x # xs) = bindR (f x) (\<lambda>_. eachR f xs)"
  by (simp_all add: eachR_def)

section \<open>Records keyed by data\<close>

text \<open>
  An object literal used as a dictionary (\<open>Record<string, T>\<close>) or a \<open>Map\<close> is an
  association list in insertion order; \<open>AList.update\<close> overwrites in place or appends,
  as both do. Reading a dictionary object also finds the properties of
  \<open>Object.prototype\<close>: \<open>rget\<close> tells an own property from an inherited one.
\<close>

type_synonym 'v dict = "(jstring \<times> 'v) list"

definition proto_names :: "jstring list" where
  "proto_names = map js
     [''constructor'', ''__defineGetter__'', ''__defineSetter__'', ''hasOwnProperty'',
      ''__lookupGetter__'', ''__lookupSetter__'', ''isPrototypeOf'', ''propertyIsEnumerable'',
      ''toString'', ''valueOf'', ''__proto__'', ''toLocaleString'']"

datatype 'v found = Absent | Inherited | Own 'v

definition rget :: "'v dict \<Rightarrow> jstring \<Rightarrow> 'v found" where
  "rget m k =
     (case map_of m k of
        Some v \<Rightarrow> Own v
      | None \<Rightarrow> if k \<in> set proto_names then Inherited else Absent)"

lemma rget_Own_iff: "rget m k = Own v \<longleftrightarrow> map_of m k = Some v"
  by (auto simp: rget_def split: option.splits)

lemma rget_Absent_iff: "rget m k = Absent \<longleftrightarrow> map_of m k = None \<and> k \<notin> set proto_names"
  by (auto simp: rget_def split: option.splits)

lemma rget_Inherited_iff: "rget m k = Inherited \<longleftrightarrow> map_of m k = None \<and> k \<in> set proto_names"
  by (auto simp: rget_def split: option.splits)

lemma map_of_update [simp]: "map_of (AList.update k v m) = (map_of m)(k \<mapsto> v)"
  by (simp add: update_conv')

lemma rget_update: "rget (AList.update k v m) j = (if j = k then Own v else rget m j)"
  by (simp add: rget_def)

text \<open>
  \<open>Object.keys(v)\<close>: the indices of a string or an array, nothing for the other primitives,
  a \<open>TypeError\<close> for \<open>null\<close> and \<open>undefined\<close>.
\<close>

fun index_names :: "int \<Rightarrow> 'a list \<Rightarrow> jstring list" where
  "index_names i [] = []"
| "index_names i (x # xs) = dec i # index_names (i + 1) xs"

fun object_keys :: "jsval \<Rightarrow> jstring list res" where
  "object_keys (JObj kvs) = Inr (map fst kvs)"
| "object_keys (JArr xs) = Inr (index_names 0 xs)"
| "object_keys (JStr s) = Inr (index_names 0 s)"
| "object_keys JNull = Inl (PlainError, ''TypeError'')"
| "object_keys JUndef = Inl (PlainError, ''TypeError'')"
| "object_keys _ = Inr []"

text \<open>\<open>Object.keys(v).sort().join(',')\<close> for an unknown value.\<close>

definition shape_of :: "jsval \<Rightarrow> jstring res" where
  "shape_of v = bindR (object_keys v) (\<lambda>ks. Inr (join (js '','') (sort ks)))"

text \<open>\<open>s.split(sep)\<close> for a separator of one code unit; the result is never empty.\<close>

fun split_on :: "jsunit \<Rightarrow> jstring \<Rightarrow> jstring list" where
  "split_on c [] = [[]]"
| "split_on c (u # us) =
     (if u = c then [] # split_on c us
      else case split_on c us of l # ls \<Rightarrow> (u # l) # ls | [] \<Rightarrow> [[u]])"

lemma split_on_neq_Nil [simp]: "split_on c s \<noteq> []"
  by (cases s) (auto split: list.splits)

lemma split_on_append:
  "c \<notin> set l \<Longrightarrow> split_on c (l @ c # s) = l # split_on c s"
  by (induction l) auto

lemma split_on_concat: "split_on c (a @ c # b) = split_on c a @ split_on c b"
  by (induction a) (auto split: list.splits)

lemma split_on_none: "c \<notin> set l \<Longrightarrow> split_on c l = [l]"
  by (induction l) auto

text \<open>
  \<open>String(v)\<close>: an array becomes its elements joined by commas, with nothing for \<open>null\<close> and
  \<open>undefined\<close>, so a list of one string becomes that string. What it makes of other numbers and of
  functions is never one of the names it is compared with.
\<close>

fun to_string :: "jsval \<Rightarrow> jstring" where
  "to_string (JStr s) = s"
| "to_string (JNum n) = dec n"
| "to_string (JBad b) = (if b = NegZero then js ''0'' else js ''NaN'')"
| "to_string (JBool b) = (if b then js ''true'' else js ''false'')"
| "to_string JNull = js ''null''"
| "to_string JUndef = js ''undefined''"
| "to_string (JArr vs) = join (js '','') (map (\<lambda>v. if v = JNull \<or> v = JUndef then [] else to_string v) vs)"
| "to_string (JObj _) = js ''[object Object]''"
| "to_string JOther = js ''function''"

section \<open>Arithmetic on numbers\<close>

text \<open>
  \<open>a + b\<close> on integral doubles: exact up to \<open>2 ^ 53\<close>, rounded to the nearest multiple of the
  spacing (ties to even) above it.
\<close>

definition round53 :: "int \<Rightarrow> int" where
  "round53 n =
     (if \<bar>n\<bar> \<le> 9007199254740992 then n
      else let h = 2 ^ nat (bitlen \<bar>n\<bar> - 53); q = \<bar>n\<bar> div h; r = \<bar>n\<bar> mod h
           in sgn n * (h * (if 2 * r > h \<or> (2 * r = h \<and> odd q) then q + 1 else q)))"

definition js_add :: "int \<Rightarrow> int \<Rightarrow> int" where
  "js_add a b = round53 (a + b)"

text \<open>\<open>a * b\<close>, rounded the same way.\<close>

definition js_mul :: "int \<Rightarrow> int \<Rightarrow> int" where
  "js_mul a b = round53 (a * b)"

lemma js_mul_exact: "\<bar>a * b\<bar> \<le> max_safe \<Longrightarrow> js_mul a b = a * b"
  by (simp add: js_mul_def round53_def max_safe_def)

lemma js_add_exact: "\<bar>a + b\<bar> \<le> max_safe \<Longrightarrow> js_add a b = a + b"
  by (simp add: js_add_def round53_def max_safe_def)

lemma round53_big:
  assumes "max_safe < n"
  shows "max_safe < round53 n"
proof (cases "n \<le> 9007199254740992")
  case True
  with assms show ?thesis by (simp add: round53_def max_safe_def)
next
  case False
  define e where "e = nat (bitlen n - 53)"
  have n: "0 < n" using False by simp
  have len: "2 ^ nat (bitlen n - 1) \<le> n"
    using bitlen_bounds [OF n] by simp
  have "53 < bitlen n"
  proof (rule ccontr)
    assume "\<not> 53 < bitlen n"
    then have "(2::int) ^ nat (bitlen n) \<le> 2 ^ 53"
      by (intro power_increasing) auto
    moreover have "n < 2 ^ nat (bitlen n)" using bitlen_bounds [OF n] by simp
    ultimately show False using False by simp
  qed
  then have e: "nat (bitlen n - 1) = 52 + e" "1 \<le> e" by (auto simp: e_def)
  have "2 ^ 52 * 2 ^ e \<le> n" using len by (simp add: e(1) power_add)
  then have "2 ^ 52 * 2 ^ e div 2 ^ e \<le> n div 2 ^ e" by (rule zdiv_mono1) simp
  then have "2 ^ 52 \<le> n div 2 ^ e" by simp
  then have q: "2 ^ 52 \<le> (if P then n div 2 ^ e + 1 else n div 2 ^ e)" for P by simp
  have h: "(2::int) \<le> 2 ^ e" using power_increasing [OF e(2), of "2::int"] by simp
  have "max_safe < 2 ^ e * (if P then n div 2 ^ e + 1 else n div 2 ^ e)" for P
    using mult_mono [OF h q [of P]] by (simp add: max_safe_def del: mult_le_cancel_left_pos)
  then show ?thesis using False n by (simp add: round53_def Let_def e_def [symmetric])
qed

lemma js_add_safe:
  assumes "0 \<le> a" "0 \<le> b" "js_add a b \<le> max_safe"
  shows "js_add a b = a + b" "a + b \<le> max_safe"
proof -
  show "a + b \<le> max_safe"
    using assms(3) round53_big [of "a + b"] by (force simp: js_add_def)
  with assms(1,2) show "js_add a b = a + b" by (intro js_add_exact) simp
qed

lemma js_add_nonneg: "0 \<le> a \<Longrightarrow> 0 \<le> b \<Longrightarrow> 0 \<le> js_add a b"
  using round53_big [of "a + b"]
  by (cases "a + b \<le> max_safe") (auto simp: js_add_def js_add_exact [unfolded js_add_def] max_safe_def)

lemma js_add_zero [simp]: "0 \<le> a \<Longrightarrow> a \<le> max_safe \<Longrightarrow> js_add a 0 = a"
  by (simp add: js_add_exact)

lemma js_mul_safe:
  assumes "0 \<le> a" "0 \<le> b" "js_mul a b \<le> max_safe"
  shows "js_mul a b = a * b" "a * b \<le> max_safe"
proof -
  show "a * b \<le> max_safe"
    using assms(3) round53_big [of "a * b"] by (force simp: js_mul_def)
  with assms(1,2) show "js_mul a b = a * b" by (intro js_mul_exact) simp
qed

lemma js_mul_nonneg: "0 \<le> a \<Longrightarrow> 0 \<le> b \<Longrightarrow> 0 \<le> js_mul a b"
  using round53_big [of "a * b"]
  by (cases "a * b \<le> max_safe") (auto simp: js_mul_exact js_mul_def [of a b, symmetric] max_safe_def)

text \<open>\<open>indexOf\<close>: the first position of an element, \<open>-1\<close> when there is none.\<close>

fun index_of :: "'a \<Rightarrow> 'a list \<Rightarrow> int" where
  "index_of x [] = -1"
| "index_of x (y # ys) = (if x = y then 0 else if x \<in> set ys then index_of x ys + 1 else -1)"

lemma index_of_append: "x \<in> set xs \<Longrightarrow> index_of x (xs @ ys) = index_of x xs"
  by (induction xs) auto

lemma index_of_last: "x \<notin> set xs \<Longrightarrow> index_of x (xs @ [x]) = int (length xs)"
  by (induction xs) auto

lemma index_of_bounds: "x \<in> set xs \<Longrightarrow> 0 \<le> index_of x xs \<and> index_of x xs < int (length xs)"
  by (induction xs) auto

text \<open>\<open>xs.slice(start, end)\<close>: negative positions count from the end.\<close>

definition slice_pos :: "'a list \<Rightarrow> int \<Rightarrow> nat" where
  "slice_pos xs p = nat (if p < 0 then max 0 (int (length xs) + p) else min p (int (length xs)))"

definition js_slice :: "'a list \<Rightarrow> int \<Rightarrow> int \<Rightarrow> 'a list" where
  "js_slice xs start stop = take (slice_pos xs stop - slice_pos xs start) (drop (slice_pos xs start) xs)"

lemma js_slice_take: "0 \<le> b \<Longrightarrow> js_slice xs 0 b = take (nat b) xs"
  by (simp add: js_slice_def slice_pos_def min_def)

lemma js_slice_nonneg: "0 \<le> a \<Longrightarrow> 0 \<le> b \<Longrightarrow> js_slice xs a (a + b) = take (nat b) (drop (nat a) xs)"
  by (simp add: js_slice_def slice_pos_def min_def nat_add_distrib)

lemma slices_cover:
  assumes "0 \<le> a" "0 \<le> b" "a + b \<le> int (length xs)"
  shows "js_slice xs 0 a = take (nat a) xs" "js_slice xs a (a + b) = take (nat b) (drop (nat a) xs)"
    and "js_slice xs (a + b) (int (length xs)) = drop (nat (a + b)) xs"
  using assms by (simp_all add: js_slice_def slice_pos_def min_def nat_add_distrib)

end
