(* ===== verification/CanonicalJson.thy ===== *)
theory CanonicalJson
  imports Prelude
begin

text \<open>
  Model of \<^verbatim>\<open>packages/dsh-evolve-le/src/state/canonical.ts\<close>: the serializer every durable
  record is written and hashed with, and the scanner and parser every durable record is
  read back with. The scanner's position is the remaining text. Parsing recurses on a
  fuel argument; \<open>parseCanonicalJson\<close> passes twice the length of the text plus one, which is
  always enough: of two nested calls at least one has consumed a character. The hash primitive
  of the platform is the argument \<open>sha\<close> of \<open>canonicalHash\<close>. The length of a text in
  UTF-8 bytes is \<open>utf8_length\<close>.
\<close>

section \<open>Serializer\<close>

definition cj_err :: "string \<Rightarrow> 'a res" where
  "cj_err m = Inl (CanonicalJsonError, m)"

definition hex_digit :: "int \<Rightarrow> jsunit" where
  "hex_digit d = (if d < 10 then word_of_int (48 + d) else word_of_int (87 + d))"

text \<open>\<open>\uXXXX\<close> with lower-case digits.\<close>

definition escape_u :: "jsunit \<Rightarrow> jstring" where
  "escape_u u =
     unit_of (CHR 0x5C) # unit_of (CHR ''u'') #
     [hex_digit (uint u div 4096), hex_digit (uint u div 256 mod 16),
      hex_digit (uint u div 16 mod 16), hex_digit (uint u mod 16)]"

definition is_high :: "jsunit \<Rightarrow> bool" where
  "is_high u \<longleftrightarrow> 0xD800 \<le> u \<and> u \<le> 0xDBFF"

definition is_low :: "jsunit \<Rightarrow> bool" where
  "is_low u \<longleftrightarrow> 0xDC00 \<le> u \<and> u \<le> 0xDFFF"

text \<open>The two-character escapes of \<open>JSON.stringify\<close>, unit and letter.\<close>

definition short_escapes :: "(jsunit \<times> jsunit) list" where
  "short_escapes =
     [(unit_of (CHR 0x22), unit_of (CHR 0x22)), (unit_of (CHR 0x5C), unit_of (CHR 0x5C)),
      (8, unit_of (CHR ''b'')), (12, unit_of (CHR ''f'')), (10, unit_of (CHR ''n'')),
      (13, unit_of (CHR ''r'')), (9, unit_of (CHR ''t''))]"

text \<open>The body of \<open>JSON.stringify(s)\<close>: lone surrogates are escaped, pairs are not.\<close>

definition quote_unit :: "jsunit \<Rightarrow> jstring" where
  "quote_unit u =
     (case map_of short_escapes u of
        Some c \<Rightarrow> [unit_of (CHR 0x5C), c]
      | None \<Rightarrow> if u < 32 \<or> is_high u \<or> is_low u then escape_u u else [u])"

fun quote_units :: "jstring \<Rightarrow> jstring" where
  "quote_units [] = []"
| "quote_units [u] = quote_unit u"
| "quote_units (u # v # us) =
     (if is_high u \<and> is_low v then u # v # quote_units us
      else quote_unit u @ quote_units (v # us))"

definition json_string :: "jstring \<Rightarrow> jstring" where
  "json_string s = unit_of (CHR 0x22) # quote_units s @ [unit_of (CHR 0x22)]"

lemma size_member: "(k, v) \<in> set kvs \<Longrightarrow> size v < size (JObj kvs)"
  by (induction kvs) auto

function (sequential) serialize :: "jsval \<Rightarrow> jstring res" where
  "serialize JNull = Inr (js ''null'')"
| "serialize (JBool b) = Inr (if b then js ''true'' else js ''false'')"
| "serialize (JNum n) =
     (if \<not> safe_int n then cj_err ''is not a safe integer'' else Inr (dec n))"
| "serialize (JBad NegZero) = cj_err ''-0 is not canonical''"
| "serialize (JBad _) = cj_err ''is not a safe integer''"
| "serialize (JStr s) = Inr (json_string s)"
| "serialize (JArr xs) =
     bindR (seqR (map serialize xs)) (\<lambda>ts.
       Inr (js ''['' @ join (js '','') ts @ js '']''))"
| "serialize (JObj kvs) =
     bindR (seqR (map snd (sort_key fst
              (map (\<lambda>(k, v). (k, bindR (serialize v) (\<lambda>t. Inr (json_string k @ js '':'' @ t)))) kvs))))
       (\<lambda>ts. Inr (js ''{'' @ join (js '','') ts @ js ''}''))"
| "serialize _ = cj_err ''value is not representable''"
  by pat_completeness auto
termination
  by (relation "measure size") (auto simp: size_member less_Suc_eq_le size_list_estimation')

definition canonicalJson :: "jsval \<Rightarrow> jstring res" where
  "canonicalJson v = serialize v"

definition canonicalHash :: "(jstring \<Rightarrow> jstring) \<Rightarrow> jsval \<Rightarrow> jstring res" where
  "canonicalHash sha v = bindR (canonicalJson v) (\<lambda>t. Inr (sha t))"

section \<open>Scanner\<close>

definition peek :: "jstring \<Rightarrow> jsunit option" where
  "peek s = (case s of [] \<Rightarrow> None | u # _ \<Rightarrow> Some u)"

definition consume :: "char \<Rightarrow> jstring \<Rightarrow> jstring res" where
  "consume c s =
     (case s of
        u # us \<Rightarrow> if u = unit_of c then Inr us else cj_err ''expected''
      | [] \<Rightarrow> cj_err ''expected'')"

text \<open>\<open>tryConsume\<close>: the text after the character, or \<open>None\<close> when it is not there.\<close>

definition tryConsume :: "char \<Rightarrow> jstring \<Rightarrow> jstring option" where
  "tryConsume c s =
     (case s of u # us \<Rightarrow> if u = unit_of c then Some us else None | [] \<Rightarrow> None)"

definition readLiteral :: "string \<Rightarrow> jstring \<Rightarrow> jstring res" where
  "readLiteral l s =
     (if starts_with (js l) s then Inr (drop (length l) s) else cj_err ''invalid literal'')"

definition hex_value :: "jsunit \<Rightarrow> int option" where
  "hex_value u =
     (let n = uint u in
      if 48 \<le> n \<and> n \<le> 57 then Some (n - 48)
      else if 97 \<le> n \<and> n \<le> 102 then Some (n - 87)
      else if 65 \<le> n \<and> n \<le> 70 then Some (n - 55)
      else None)"

text \<open>The escapes \<open>\\["\\/bfnrt]\<close> of the string token and the units they denote.\<close>

definition unescape :: "jsunit \<Rightarrow> jsunit option" where
  "unescape e =
     (if e = unit_of (CHR ''/'') then Some e
      else map_of (map (\<lambda>(u, c). (c, u)) short_escapes) e)"

text \<open>
  \<open>STRING_TOKEN\<close> after its opening quote, together with \<open>JSON.parse\<close> of the token: the
  decoded units and the text after the closing quote, or \<open>None\<close> where the pattern does
  not match.
\<close>

function (sequential) scan_string :: "jstring \<Rightarrow> (jstring \<times> jstring) option" where
  "scan_string [] = None"
| "scan_string (u # us) =
     (if u = unit_of (CHR 0x22) then Some ([], us)
      else if u = unit_of (CHR 0x5C) then
        (case us of
           [] \<Rightarrow> None
         | e # r \<Rightarrow>
             (case unescape e of
                Some c \<Rightarrow> map_option (\<lambda>(s, t). (c # s, t)) (scan_string r)
              | None \<Rightarrow>
                  if e = unit_of (CHR ''u'') then
                    (case r of
                       a # b # c # d # r' \<Rightarrow>
                         (case (hex_value a, hex_value b, hex_value c, hex_value d) of
                            (Some p, Some q, Some x, Some y) \<Rightarrow>
                              map_option
                                (\<lambda>(s, t). (word_of_int (4096 * p + 256 * q + 16 * x + y) # s, t))
                                (scan_string r')
                          | _ \<Rightarrow> None)
                     | _ \<Rightarrow> None)
                  else None))
      else if u < 32 then None
      else map_option (\<lambda>(s, t). (u # s, t)) (scan_string us))"
  by pat_completeness auto
termination
  by (relation "measure length") auto

definition readString :: "jstring \<Rightarrow> (jstring \<times> jstring) res" where
  "readString s =
     (case s of
        [] \<Rightarrow> cj_err ''unterminated string''
      | u # us \<Rightarrow>
          if u = unit_of (CHR 0x22) then
            (case scan_string us of
               None \<Rightarrow> cj_err ''unterminated string''
             | Some r \<Rightarrow> Inr r)
          else cj_err ''unterminated string'')"

definition digit_value :: "jsunit \<Rightarrow> int" where
  "digit_value u = uint u - 48"

fun value_of_digits :: "int \<Rightarrow> jstring \<Rightarrow> int" where
  "value_of_digits n [] = n"
| "value_of_digits n (u # us) = value_of_digits (10 * n + digit_value u) us"

text \<open>\<open>INTEGER_TOKEN\<close>: sign, digits of the token, and the text after the token.\<close>

definition integer_token :: "jstring \<Rightarrow> (bool \<times> jstring \<times> jstring) option" where
  "integer_token s =
     (let neg = starts_with (js ''-'') s;
          r = (if neg then tl s else s)
      in case r of
           [] \<Rightarrow> None
         | u # us \<Rightarrow>
             if u = digit 0 then Some (neg, [u], us)
             else if is_dec_digit u then Some (neg, takeWhile is_dec_digit r, dropWhile is_dec_digit r)
             else None)"

definition number_tail :: "jstring \<Rightarrow> bool" where
  "number_tail r =
     (case r of
        [] \<Rightarrow> False
      | u # _ \<Rightarrow> u = unit_of (CHR ''.'') \<or> u = unit_of (CHR ''e'') \<or> u = unit_of (CHR ''E'')
                \<or> is_dec_digit u)"

definition readNumber :: "jstring \<Rightarrow> (int \<times> jstring) res" where
  "readNumber s =
     (case integer_token s of
        None \<Rightarrow> cj_err ''invalid number''
      | Some (neg, ds, r) \<Rightarrow>
          (let n = value_of_digits 0 ds; v = (if neg then - n else n) in
           if number_tail r then cj_err ''non-canonical number''
           else if \<not> safe_int v then cj_err ''is not a safe integer''
           else if neg \<and> n = 0 then cj_err ''-0 is not canonical''
           else Inr (v, r)))"

section \<open>Parser\<close>

text \<open>
  \<open>value[key] = v\<close> on a fresh object: the key \<open>__proto__\<close> names the accessor of
  \<open>Object.prototype\<close>, so the assignment creates no own property.
\<close>

definition put_member :: "fields \<Rightarrow> jstring \<Rightarrow> jsval \<Rightarrow> fields" where
  "put_member acc k v = (if k = js ''__proto__'' then acc else acc @ [(k, v)])"

text \<open>
  \<open>parseObject\<close> and \<open>parseArray\<close> up to their loops, which are passed in; the branches of
  \<open>parseValue\<close> that do not recurse are \<open>parseScalar\<close>.
\<close>

definition parseObject ::
  "(jstring \<Rightarrow> (jsval \<times> jstring) res) \<Rightarrow> jstring \<Rightarrow> (jsval \<times> jstring) res" where
  "parseObject members s =
     bindR (consume (CHR ''{'') s) (\<lambda>s1.
       case tryConsume (CHR ''}'') s1 of
         Some r \<Rightarrow> Inr (JObj [], r)
       | None \<Rightarrow> members s1)"

definition parseArray ::
  "(jstring \<Rightarrow> (jsval \<times> jstring) res) \<Rightarrow> jstring \<Rightarrow> (jsval \<times> jstring) res" where
  "parseArray elements s =
     bindR (consume (CHR ''['') s) (\<lambda>s1.
       case tryConsume (CHR '']'') s1 of
         Some r \<Rightarrow> Inr (JArr [], r)
       | None \<Rightarrow> elements s1)"

definition parseScalar :: "jsunit \<Rightarrow> jstring \<Rightarrow> (jsval \<times> jstring) res" where
  "parseScalar u s =
     (if u = unit_of (CHR 0x22) then bindR (readString s) (\<lambda>(x, r). Inr (JStr x, r))
      else if u = unit_of (CHR ''t'') then bindR (readLiteral ''true'' s) (\<lambda>r. Inr (JBool True, r))
      else if u = unit_of (CHR ''f'') then bindR (readLiteral ''false'' s) (\<lambda>r. Inr (JBool False, r))
      else if u = unit_of (CHR ''n'') then bindR (readLiteral ''null'' s) (\<lambda>r. Inr (JNull, r))
      else if u = unit_of (CHR ''-'') \<or> is_dec_digit u
        then bindR (readNumber s) (\<lambda>(x, r). Inr (JNum x, r))
      else cj_err ''unexpected character'')"

function (sequential) parseValue :: "nat \<Rightarrow> jstring \<Rightarrow> (jsval \<times> jstring) res"
  and parseMembers :: "nat \<Rightarrow> fields \<Rightarrow> jstring \<Rightarrow> (jsval \<times> jstring) res"
  and parseElements :: "nat \<Rightarrow> jsval list \<Rightarrow> jstring \<Rightarrow> (jsval \<times> jstring) res"
where
  "parseValue 0 s = Inl (Unmodelled, ''fuel'')"
| "parseValue (Suc n) s =
     (case peek s of
        None \<Rightarrow> cj_err ''unexpected character''
      | Some u \<Rightarrow>
          if u = unit_of (CHR ''{'') then parseObject (parseMembers n []) s
          else if u = unit_of (CHR ''['') then parseArray (parseElements n []) s
          else parseScalar u s)"
| "parseMembers 0 acc s = Inl (Unmodelled, ''fuel'')"
| "parseMembers (Suc n) acc s =
     bindR (readString s) (\<lambda>(k, s1).
       if k \<in> set (map fst acc) then cj_err ''duplicate key''
       else bindR (consume (CHR '':'') s1) (\<lambda>s2.
         bindR (parseValue n s2) (\<lambda>(v, s3).
           case tryConsume (CHR '','') s3 of
             Some s4 \<Rightarrow> parseMembers n (put_member acc k v) s4
           | None \<Rightarrow> bindR (consume (CHR ''}'') s3) (\<lambda>s4. Inr (JObj (put_member acc k v), s4)))))"
| "parseElements 0 acc s = Inl (Unmodelled, ''fuel'')"
| "parseElements (Suc n) acc s =
     bindR (parseValue n s) (\<lambda>(v, s1).
       case tryConsume (CHR '','') s1 of
         Some s2 \<Rightarrow> parseElements n (acc @ [v]) s2
       | None \<Rightarrow> bindR (consume (CHR '']'') s1) (\<lambda>s2. Inr (JArr (acc @ [v]), s2)))"
  by pat_completeness auto
termination
  by (relation "measure (\<lambda>x. case x of Inl (n, _) \<Rightarrow> n | Inr (Inl (n, _, _)) \<Rightarrow> n
                            | Inr (Inr (n, _, _)) \<Rightarrow> n)") auto

definition parseCanonicalJson :: "jstring \<Rightarrow> jsval res" where
  "parseCanonicalJson text =
     bindR (parseValue (Suc (2 * length text)) text) (\<lambda>(v, r).
       if r \<noteq> [] then cj_err ''trailing content after value''
       else bindR (canonicalJson v) (\<lambda>t.
         if t \<noteq> text then cj_err ''record is not in canonical form'' else Inr v))"

section \<open>Timestamps and sizes\<close>

fun number_at :: "jstring \<Rightarrow> nat \<Rightarrow> nat \<Rightarrow> int" where
  "number_at s i w = value_of_digits 0 (take w (drop i s))"

text \<open>
  \<open>/^\d{4}-\d{2}-\d{2}T\d{2}:\d{2}:\d{2}\.\d{3}Z$/\<close>: \<open>D\<close> in the template stands for a digit.
\<close>

definition timestamp_template :: string where
  "timestamp_template = ''DDDD-DD-DDTDD:DD:DD.DDDZ''"

definition timestamp_shape :: "jstring \<Rightarrow> bool" where
  "timestamp_shape s \<longleftrightarrow>
     list_all2 (\<lambda>c u. if c = CHR ''D'' then is_dec_digit u else u = unit_of c) timestamp_template s"

definition leap_year :: "int \<Rightarrow> bool" where
  "leap_year y \<longleftrightarrow> y mod 4 = 0 \<and> (y mod 100 \<noteq> 0 \<or> y mod 400 = 0)"

definition days_in_month :: "int \<Rightarrow> int \<Rightarrow> int" where
  "days_in_month y m =
     (if m = 2 then (if leap_year y then 29 else 28)
      else if m = 4 \<or> m = 6 \<or> m = 9 \<or> m = 11 then 30 else 31)"

text \<open>
  \<open>new Date(s).toISOString() === s\<close> for a text of that shape: the parts name an instant of
  the Gregorian calendar and need no carry (\<open>24:00:00\<close> and 30 February are accepted by the
  parser of \<open>Date\<close> and printed as the next day).
\<close>

definition isValidCanonicalTimestamp :: "jstring \<Rightarrow> bool" where
  "isValidCanonicalTimestamp s \<longleftrightarrow>
     timestamp_shape s
     \<and> (let y = number_at s 0 4; m = number_at s 5 2; d = number_at s 8 2 in
          1 \<le> m \<and> m \<le> 12 \<and> 1 \<le> d \<and> d \<le> days_in_month y m
          \<and> number_at s 11 2 < 24 \<and> number_at s 14 2 < 60 \<and> number_at s 17 2 < 60)"

text \<open>\<open>Buffer.byteLength(s, 'utf8')\<close>: a lone surrogate is written as U+FFFD.\<close>

fun utf8_length :: "jstring \<Rightarrow> int" where
  "utf8_length [] = 0"
| "utf8_length [u] = (if u < 0x80 then 1 else if u < 0x800 then 2 else 3)"
| "utf8_length (u # v # us) =
     (if is_high u \<and> is_low v then 4 + utf8_length us
      else (if u < 0x80 then 1 else if u < 0x800 then 2 else 3) + utf8_length (v # us))"


section \<open>Round trip\<close>

lemma is_dec_digit_unit_of [simp]:
  "is_dec_digit (unit_of c) \<longleftrightarrow> 48 \<le> (of_char c :: nat) \<and> (of_char c :: nat) \<le> 57"
  by (simp add: is_dec_digit_def word_le_nat_alt unat_unit_of)

lemma uint_small: "0 \<le> x \<Longrightarrow> x < 65536 \<Longrightarrow> uint (word_of_int x :: jsunit) = x"
  by (simp add: uint_word_of_int)

lemma uint_digit: "0 \<le> d \<Longrightarrow> d < 10 \<Longrightarrow> uint (digit d) = 48 + d"
  unfolding digit_def by (rule uint_small) auto

lemma is_dec_digit_digit [simp]: "0 \<le> d \<Longrightarrow> d < 10 \<Longrightarrow> is_dec_digit (digit d)"
  by (simp add: is_dec_digit_def word_le_def uint_digit)

lemma digit_value_digit [simp]: "0 \<le> d \<Longrightarrow> d < 10 \<Longrightarrow> digit_value (digit d) = d"
  by (simp add: digit_value_def uint_digit)

lemma digit_neq_unit_of [simp]:
  "0 \<le> d \<Longrightarrow> d < 10 \<Longrightarrow> \<not> is_dec_digit (unit_of c) \<Longrightarrow> digit d \<noteq> unit_of c"
  by (metis is_dec_digit_digit)

lemma digit_inject: "0 \<le> a \<Longrightarrow> a < 10 \<Longrightarrow> 0 \<le> b \<Longrightarrow> b < 10 \<Longrightarrow> digit a = digit b \<longleftrightarrow> a = b"
  by (metis digit_value_digit)

lemma digits_neq_Nil [simp]: "digits n \<noteq> []"
  by (subst digits.simps) auto

lemma list_all_digits: "0 \<le> n \<Longrightarrow> list_all is_dec_digit (digits n)"
proof (induction n rule: digits.induct)
  case (1 n)
  then show ?case by (cases "n < 10") (auto simp: digits.simps [of n])
qed

lemma value_of_digits_snoc:
  "value_of_digits a (us @ [u]) = 10 * value_of_digits a us + digit_value u"
  by (induction us arbitrary: a) auto

lemma value_of_digits_digits: "0 \<le> n \<Longrightarrow> value_of_digits 0 (digits n) = n"
proof (induction n rule: digits.induct)
  case (1 n)
  then show ?case
    by (cases "n < 10") (auto simp: digits.simps [of n] value_of_digits_snoc)
qed

lemma dec_inject: "0 \<le> a \<Longrightarrow> 0 \<le> b \<Longrightarrow> dec a = dec b \<Longrightarrow> a = b"
  by (metis dec_def value_of_digits_digits not_less)

lemma set_dec: "0 \<le> n \<Longrightarrow> u \<in> set (dec n) \<Longrightarrow> is_dec_digit u"
  using list_all_digits [of n] by (simp add: dec_def list_all_iff)

lemma hd_digits: "0 < n \<Longrightarrow> hd (digits n) \<noteq> digit 0"
proof (induction n rule: digits.induct)
  case (1 n)
  then show ?case
    by (cases "n < 10") (auto simp: digits.simps [of n] digit_inject)
qed

lemma digits_0 [simp]: "digits 0 = [digit 0]"
  by (simp add: digits.simps)

lemma number_tail_not_digit: "\<not> number_tail r \<Longrightarrow> takeWhile is_dec_digit r = [] \<and> dropWhile is_dec_digit r = r"
  by (cases r) (auto simp: number_tail_def)

lemma takeWhile_digits:
  assumes "0 \<le> n" "\<not> number_tail r"
  shows "takeWhile is_dec_digit (digits n @ r) = digits n" "dropWhile is_dec_digit (digits n @ r) = r"
proof -
  have *: "\<And>u. u \<in> set (digits n) \<Longrightarrow> is_dec_digit u"
    using list_all_digits [OF assms(1)] by (simp add: list_all_iff)
  show "takeWhile is_dec_digit (digits n @ r) = digits n" "dropWhile is_dec_digit (digits n @ r) = r"
    using * number_tail_not_digit [OF assms(2)] by simp_all
qed

lemma integer_token_dec:
  assumes "\<not> number_tail r"
  shows "integer_token (dec n @ r) = Some (n < 0, digits (abs n), r)"
proof -
  obtain u us where d: "digits (abs n) = u # us" by (cases "digits (abs n)") auto
  have dig: "is_dec_digit u" using list_all_digits [of "abs n"] d by simp
  have nm: "u \<noteq> unit_of (CHR ''-'')" using dig by auto
  have zero: "u = digit 0 \<longleftrightarrow> n = 0"
    using hd_digits [of "abs n"] d by (cases "n = 0") auto
  have us: "n = 0 \<Longrightarrow> us = []" using d by simp
  have t: "takeWhile is_dec_digit (u # us @ r) = u # us" "dropWhile is_dec_digit (u # us @ r) = r"
    using takeWhile_digits [OF _ assms, of "abs n"] d by simp_all
  show ?thesis
    using d dig nm zero us t
    by (cases "n < 0") (auto simp: integer_token_def dec_def starts_with_def js_def abs_if Let_def)
qed

lemma readNumber_dec:
  assumes "safe_int n" "\<not> number_tail r"
  shows "readNumber (dec n @ r) = Inr (n, r)"
  using assms by (auto simp: readNumber_def integer_token_dec value_of_digits_digits Let_def abs_if)

lemma hex_value_hex_digit: "0 \<le> d \<Longrightarrow> d < 16 \<Longrightarrow> hex_value (hex_digit d) = Some d"
proof -
  assume d: "0 \<le> d" "d < 16"
  have "uint (hex_digit d) = (if d < 10 then 48 + d else 87 + d)"
    using d uint_small [of "48 + d"] uint_small [of "87 + d"] unfolding hex_digit_def by simp
  then show ?thesis using d by (simp add: hex_value_def Let_def)
qed

lemma nibble_step: "16 * (y div 16 :: int) + y mod 16 = y"
  by (rule mult_div_mod_eq)

lemma hex_decomp:
  "word_of_int (4096 * (uint u div 4096) + 256 * (uint u div 256 mod 16)
     + 16 * (uint u div 16 mod 16) + uint u mod 16) = (u :: jsunit)"
proof -
  define x where "x = uint u"
  define a b c where "a = x div 16" and "b = x div 256" and "c = x div 4096"
  have "b = a div 16" "c = b div 16"
    by (simp_all add: a_def b_def c_def zdiv_zmult2_eq [symmetric])
  then have eqs: "16 * a + x mod 16 = x" "16 * b + a mod 16 = a" "16 * c + b mod 16 = b"
    by (simp_all only: nibble_step a_def)
  { fix p q r :: int
    assume "16 * a + r = x" "16 * b + q = a" "16 * c + p = b"
    then have "4096 * c + 256 * p + 16 * q + r = x" by simp
  } note * = this
  from * [OF eqs] show ?thesis by (simp add: x_def a_def b_def c_def)
qed

lemma scan_escape_u:
  "scan_string (escape_u u @ r) = map_option (\<lambda>(s, t). (u # s, t)) (scan_string r)"
proof -
  have lt: "uint u < 65536" using uint_lt2p [of u] by simp
  have b: "hex_value (hex_digit (uint u div 4096)) = Some (uint u div 4096)"
    "hex_value (hex_digit (uint u div 256 mod 16)) = Some (uint u div 256 mod 16)"
    "hex_value (hex_digit (uint u div 16 mod 16)) = Some (uint u div 16 mod 16)"
    "hex_value (hex_digit (uint u mod 16)) = Some (uint u mod 16)"
    using lt by (auto intro!: hex_value_hex_digit simp: pos_imp_zdiv_nonneg_iff)
  have e: "unescape (unit_of (CHR ''u'')) = None" by code_simp
  show ?thesis
    by (simp add: escape_u_def b e hex_decomp del: of_int_add of_int_mult)
qed

lemma scan_plain:
  "u \<noteq> unit_of (CHR 0x22) \<Longrightarrow> u \<noteq> unit_of (CHR 0x5C) \<Longrightarrow> \<not> u < 32 \<Longrightarrow>
   scan_string (u # r) = map_option (\<lambda>(s, t). (u # s, t)) (scan_string r)"
  by simp

lemma short_escape_scan:
  "map_of short_escapes u = Some c \<Longrightarrow>
   scan_string (unit_of (CHR 0x5C) # c # r) = map_option (\<lambda>(s, t). (u # s, t)) (scan_string r)"
proof -
  assume "map_of short_escapes u = Some c"
  then have "(u, c) \<in> set short_escapes" by (rule map_of_SomeD)
  moreover have "list_all (\<lambda>(u, c). unescape c = Some u) short_escapes" by code_simp
  ultimately have "unescape c = Some u" by (auto simp: list_all_iff)
  then show ?thesis by simp
qed

lemma scan_quote_unit:
  "scan_string (quote_unit u @ r) = map_option (\<lambda>(s, t). (u # s, t)) (scan_string r)"
proof (cases "map_of short_escapes u")
  case (Some c)
  then show ?thesis by (simp add: quote_unit_def short_escape_scan del: scan_string.simps)
next
  case None
  then have "u \<noteq> unit_of (CHR 0x22)" "u \<noteq> unit_of (CHR 0x5C)"
    by (auto simp: short_escapes_def split: if_splits)
  with None show ?thesis
    by (simp add: quote_unit_def scan_escape_u scan_plain del: scan_string.simps)
qed

lemma high_not_special:
  "is_high u \<or> is_low u \<Longrightarrow> u \<noteq> unit_of (CHR 0x22) \<and> u \<noteq> unit_of (CHR 0x5C) \<and> \<not> u < 32"
  by (auto simp: is_high_def is_low_def word_le_nat_alt word_less_nat_alt unat_unit_of)

lemma scan_quote_units:
  "scan_string (quote_units s @ unit_of (CHR 0x22) # r) = Some (s, r)"
proof (induction s rule: quote_units.induct)
  case 1
  then show ?case by simp
next
  case (2 u)
  then show ?case by (simp add: scan_quote_unit del: scan_string.simps(2)) simp
next
  case (3 u v us)
  then show ?case
    using high_not_special [of u] high_not_special [of v]
    by (auto simp: scan_quote_unit scan_plain simp del: scan_string.simps(2))
qed

lemma readString_json_string: "readString (json_string s @ r) = Inr (s, r)"
  by (simp add: readString_def json_string_def scan_quote_units)

lemma insort_key_map_value:
  "insort_key fst (k, g k v) (map (\<lambda>(k, v). (k, g k v)) kvs)
     = map (\<lambda>(k, v). (k, g k v)) (insort_key fst (k, v) kvs)"
  by (induction kvs) auto

lemma sort_key_map_value:
  "sort_key fst (map (\<lambda>(k, v). (k, g k v)) kvs) = map (\<lambda>(k, v). (k, g k v)) (sort_key fst kvs)"
  by (induction kvs) (auto simp: insort_key_map_value)

text \<open>The value with the members of every object in key order.\<close>

function (sequential) canon :: "jsval \<Rightarrow> jsval" where
  "canon (JArr xs) = JArr (map canon xs)"
| "canon (JObj kvs) = JObj (sort_key fst (map (\<lambda>(k, v). (k, canon v)) kvs))"
| "canon v = v"
  by pat_completeness auto
termination
  by (relation "measure size") (auto simp: size_member less_Suc_eq_le size_list_estimation')

text \<open>
  Values whose objects have distinct keys (every object has) and no own key
  \<open>__proto__\<close>.
\<close>

function (sequential) plain_keys :: "jsval \<Rightarrow> bool" where
  "plain_keys (JArr xs) = list_all plain_keys xs"
| "plain_keys (JObj kvs) =
     (distinct (map fst kvs) \<and> js ''__proto__'' \<notin> set (map fst kvs)
      \<and> list_all (\<lambda>(k, v). plain_keys v) kvs)"
| "plain_keys _ = True"
  by pat_completeness auto
termination
  by (relation "measure size") (auto simp: size_member less_Suc_eq_le size_list_estimation')

definition member_text :: "jstring \<Rightarrow> jsval \<Rightarrow> jstring res" where
  "member_text k v = bindR (serialize v) (\<lambda>t. Inr (json_string k @ js '':'' @ t))"

lemma serialize_JObj:
  "serialize (JObj kvs) =
     bindR (seqR (map (\<lambda>(k, v). member_text k v) (sort_key fst kvs)))
       (\<lambda>ts. Inr (js ''{'' @ join (js '','') ts @ js ''}''))"
proof -
  have "map snd (sort_key fst
          (map (\<lambda>(k, v). (k, bindR (serialize v) (\<lambda>t. Inr (json_string k @ js '':'' @ t)))) kvs))
        = map (\<lambda>(k, v). member_text k v) (sort_key fst kvs)"
    using sort_key_map_value [where g = "\<lambda>k v. member_text k v" and kvs = kvs]
    by (simp add: member_text_def case_prod_beta' comp_def)
  then show ?thesis by simp
qed

definition reads_back :: "jsval \<Rightarrow> bool" where
  "reads_back v \<longleftrightarrow>
     (\<forall>t r n. serialize v = Inr t \<longrightarrow> \<not> number_tail r \<longrightarrow> 2 * length (t @ r) < n \<longrightarrow>
              parseValue n (t @ r) = Inr (canon v, r))"

lemma reads_backD:
  "reads_back v \<Longrightarrow> serialize v = Inr t \<Longrightarrow> \<not> number_tail r \<Longrightarrow> 2 * length (t @ r) < n \<Longrightarrow>
   parseValue n (t @ r) = Inr (canon v, r)"
  by (auto simp: reads_back_def)

lemma js_single: "js [c] = [unit_of c]"
  by (simp add: js_def)

lemma number_tail_unit [simp]:
  "number_tail (unit_of c # r) \<longleftrightarrow>
     c = CHR ''.'' \<or> c = CHR ''e'' \<or> c = CHR ''E'' \<or> is_dec_digit (unit_of c)"
  by (simp add: number_tail_def)

lemma parseElements_join:
  assumes "\<forall>x\<in>set (v # vs). reads_back x" "map serialize (v # vs) = map Inr (t # ts)"
    and "Suc (2 * length (join (js '','') (t # ts) @ unit_of (CHR '']'') # r)) < n"
  shows "parseElements n acc (join (js '','') (t # ts) @ unit_of (CHR '']'') # r)
           = Inr (JArr (acc @ map canon (v # vs)), r)"
  using assms
proof (induction vs arbitrary: v t ts n acc)
  case Nil
  then obtain m where n: "n = Suc m" by (cases n) auto
  have "parseValue m (t @ unit_of (CHR '']'') # r) = Inr (canon v, unit_of (CHR '']'') # r)"
    by (rule reads_backD) (use Nil n in auto)
  with Nil n show ?case by (simp add: tryConsume_def consume_def)
next
  case (Cons w ws)
  then obtain m u us where n: "n = Suc m" and ts: "ts = u # us" by (cases n; cases ts) auto
  let ?rest = "join (js '','') (u # us) @ unit_of (CHR '']'') # r"
  have "parseValue m (t @ unit_of (CHR '','') # ?rest) = Inr (canon v, unit_of (CHR '','') # ?rest)"
    by (rule reads_backD) (use Cons.prems n ts in \<open>auto simp: js_single\<close>)
  moreover have "parseElements m (acc @ [canon v]) ?rest
      = Inr (JArr ((acc @ [canon v]) @ map canon (w # ws)), r)"
    by (rule Cons.IH) (use Cons.prems n ts in \<open>auto simp: js_single\<close>)
  ultimately show ?case using n ts by (simp add: tryConsume_def js_single)
qed

lemma parseMembers_join:
  assumes "\<forall>x\<in>set (map snd (kv # kvs)). reads_back x"
    and "map (\<lambda>(k, v). member_text k v) (kv # kvs) = map Inr (t # ts)"
    and "distinct (map fst acc @ map fst (kv # kvs))"
    and "js ''__proto__'' \<notin> set (map fst (kv # kvs))"
    and "Suc (2 * length (join (js '','') (t # ts) @ unit_of (CHR ''}'') # r)) < n"
  shows "parseMembers n acc (join (js '','') (t # ts) @ unit_of (CHR ''}'') # r)
           = Inr (JObj (acc @ map (\<lambda>(k, v). (k, canon v)) (kv # kvs)), r)"
  using assms
proof (induction kvs arbitrary: kv t ts n acc)
  case Nil
  obtain k v where kv: "kv = (k, v)" by (cases kv)
  from Nil.prems(2) kv obtain tv where tv: "serialize v = Inr tv" "t = json_string k @ js '':'' @ tv"
    by (auto simp: member_text_def bindR_Inr_iff)
  from Nil obtain m where n: "n = Suc m" by (cases n) auto
  have "parseValue m (tv @ unit_of (CHR ''}'') # r) = Inr (canon v, unit_of (CHR ''}'') # r)"
    by (rule reads_backD) (use Nil n tv kv in auto)
  with Nil n tv kv show ?case
    by (auto simp: readString_json_string tryConsume_def consume_def js_single put_member_def)
next
  case (Cons kv' kvs')
  obtain k v where kv: "kv = (k, v)" by (cases kv)
  from Cons.prems(2) kv obtain tv where tv: "serialize v = Inr tv" "t = json_string k @ js '':'' @ tv"
    by (auto simp: member_text_def bindR_Inr_iff)
  from Cons.prems obtain m u us where n: "n = Suc m" and ts: "ts = u # us"
    by (cases n; cases ts) auto
  let ?rest = "join (js '','') (u # us) @ unit_of (CHR ''}'') # r"
  have v: "parseValue m (tv @ unit_of (CHR '','') # ?rest) = Inr (canon v, unit_of (CHR '','') # ?rest)"
    by (rule reads_backD) (use Cons.prems n ts tv kv in \<open>auto simp: js_single\<close>)
  have "parseMembers m (acc @ [(k, canon v)]) ?rest
      = Inr (JObj ((acc @ [(k, canon v)]) @ map (\<lambda>(k, v). (k, canon v)) (kv' # kvs')), r)"
    by (rule Cons.IH) (use Cons.prems n ts tv kv in \<open>auto simp: js_single\<close>)
  with Cons.prems v n ts tv kv show ?case
    by (auto simp: readString_json_string tryConsume_def consume_def js_single put_member_def)
qed

lemma peek_js [simp]: "peek (js (c # cs) @ r) = Some (unit_of c)" "peek (unit_of c # r) = Some (unit_of c)"
  by (simp_all add: peek_def js_def)

lemma starts_with_append [simp]: "starts_with p (p @ r)"
  by (simp add: starts_with_def)

lemma peek_dec: "peek (dec n @ r) = Some u \<Longrightarrow> u = unit_of (CHR ''-'') \<or> is_dec_digit u"
proof -
  assume a: "peek (dec n @ r) = Some u"
  obtain d ds where d: "digits (abs n) = d # ds" by (cases "digits (abs n)") auto
  have "is_dec_digit d" using list_all_digits [of "abs n"] d by simp
  with a d show ?thesis by (auto simp: peek_def dec_def abs_if split: if_splits)
qed

lemma peek_dec_Some: "peek (dec n @ r) \<noteq> None"
proof -
  obtain d ds where "digits (abs n) = d # ds" by (cases "digits (abs n)") auto
  then show ?thesis by (auto simp: peek_def dec_def abs_if split: if_splits)
qed

lemma reads_back_leaf:
  assumes "\<And>t r n. serialize v = Inr t \<Longrightarrow> \<not> number_tail r \<Longrightarrow> parseValue (Suc n) (t @ r) = Inr (v, r)"
    and "canon v = v"
  shows "reads_back v"
  unfolding reads_back_def
proof (intro allI impI)
  fix t r n
  assume "serialize v = Inr t" "\<not> number_tail r" "2 * length (t @ r) < n"
  then show "parseValue n (t @ r) = Inr (canon v, r)"
    using assms by (cases n) auto
qed

lemma reads_back_JNum: "reads_back (JNum m)"
proof (rule reads_back_leaf)
  fix t r n
  assume "serialize (JNum m) = Inr t" and r: "\<not> number_tail r"
  then have t: "t = dec m" "safe_int m" by (auto simp: cj_err_def split: if_splits)
  obtain u where u: "peek (dec m @ r) = Some u" using peek_dec_Some by blast
  with peek_dec [OF u] show "parseValue (Suc n) (t @ r) = Inr (JNum m, r)"
    by (auto simp: t readNumber_dec r parseScalar_def)
qed simp

lemma js_cons: "js (c # cs) = unit_of c # js cs"
  by (simp add: js_def)

lemma serialize_head: "serialize v = Inr t \<Longrightarrow> \<exists>u us. t = u # us \<and> u \<noteq> unit_of (CHR '']'')"
proof (cases v)
  case (JNum n)
  assume "serialize v = Inr t"
  with JNum have t: "t = dec n" by (auto simp: cj_err_def split: if_splits)
  obtain u where u: "peek (dec n @ []) = Some u" using peek_dec_Some by blast
  with peek_dec [OF u] t show ?thesis by (auto simp: peek_def split: list.splits)
next
  case (JBad b)
  assume "serialize v = Inr t"
  with JBad show ?thesis by (cases b) (auto simp: cj_err_def)
qed (auto simp: cj_err_def json_string_def bindR_Inr_iff js_cons split: if_splits)

lemma tryConsume_join:
  "\<exists>u us. t = u # us \<and> u \<noteq> unit_of c \<Longrightarrow> tryConsume c (join sep (t # ts) @ r) = None"
  by (cases ts) (auto simp: tryConsume_def)

lemma reads_back_JArr:
  assumes "\<forall>x\<in>set xs. reads_back x"
  shows "reads_back (JArr xs)"
  unfolding reads_back_def
proof (intro allI impI)
  fix t r n
  assume ser: "serialize (JArr xs) = Inr t" and r: "\<not> number_tail r" and n: "2 * length (t @ r) < n"
  then obtain ts where ts: "map serialize xs = map Inr ts" "t = js ''['' @ join (js '','') ts @ js '']''"
    by (auto simp: bindR_Inr_iff seqR_Inr_iff)
  from n obtain m where m: "n = Suc m" by (cases n) auto
  show "parseValue n (t @ r) = Inr (canon (JArr xs), r)"
  proof (cases xs)
    case Nil
    with ts m show ?thesis by (simp add: js_cons parseArray_def consume_def tryConsume_def)
  next
    case (Cons v vs)
    with ts obtain u us where tsc: "ts = u # us" by (cases ts) auto
    let ?body = "join (js '','') ts @ unit_of (CHR '']'') # r"
    have "parseElements m [] ?body = Inr (JArr ([] @ map canon xs), r)"
      unfolding Cons tsc
      by (rule parseElements_join) (use assms ts Cons tsc n m in \<open>auto simp: js_cons\<close>)
    moreover have "tryConsume (CHR '']'') ?body = None"
      using ts tsc Cons by (auto simp only: intro!: tryConsume_join serialize_head) auto
    ultimately show ?thesis using ts m by (simp add: js_cons parseArray_def consume_def)
  qed
qed


lemma member_text_head: "member_text k v = Inr t \<Longrightarrow> \<exists>u us. t = u # us \<and> u \<noteq> unit_of (CHR ''}'')"
  by (auto simp: member_text_def json_string_def bindR_Inr_iff)

lemma sort_key_mset_eqs:
  "set (sort_key f xs) = set xs" "distinct (map g (sort_key f xs)) = distinct (map g xs)"
proof -
  have "mset (map g (sort_key f xs)) = mset (map g xs)" by simp
  then show "distinct (map g (sort_key f xs)) = distinct (map g xs)"
    by (rule mset_eq_imp_distinct_iff)
qed simp

lemma reads_back_JObj:
  assumes all: "\<forall>(k, v)\<in>set kvs. reads_back v" and plain: "plain_keys (JObj kvs)"
  shows "reads_back (JObj kvs)"
  unfolding reads_back_def
proof (intro allI impI)
  fix t r n
  let ?s = "sort_key fst kvs"
  assume ser: "serialize (JObj kvs) = Inr t" and r: "\<not> number_tail r" and n: "2 * length (t @ r) < n"
  then obtain ts where ts: "map (\<lambda>(k, v). member_text k v) ?s = map Inr ts"
    "t = js ''{'' @ join (js '','') ts @ js ''}''"
    by (auto simp: serialize_JObj bindR_Inr_iff seqR_Inr_iff simp del: serialize.simps)
  from n obtain m where m: "n = Suc m" by (cases n) auto
  have canon: "canon (JObj kvs) = JObj (map (\<lambda>(k, v). (k, canon v)) ?s)"
    by (simp add: sort_key_map_value)
  show "parseValue n (t @ r) = Inr (canon (JObj kvs), r)"
  proof (cases ?s)
    case Nil
    with ts m canon show ?thesis by (simp add: js_cons parseObject_def consume_def tryConsume_def)
  next
    case (Cons kv rest)
    with ts obtain u us where tsc: "ts = u # us" by (cases ts) auto
    let ?body = "join (js '','') ts @ unit_of (CHR ''}'') # r"
    have *: "set (kv # rest) = set kvs" "distinct (map fst (kv # rest))"
      using plain by (simp_all add: Cons [symmetric] sort_key_mset_eqs(2))
    have "\<forall>x\<in>snd ` set kvs. reads_back x" using all by auto
    then have rb: "\<forall>x\<in>set (map snd (kv # rest)). reads_back x" by (simp only: set_map *(1))
    have "fst ` set (kv # rest) = fst ` set kvs" by (simp only: *(1))
    with plain have pr: "js ''__proto__'' \<notin> set (map fst (kv # rest))"
      by (simp only: set_map plain_keys.simps) simp
    have eq: "map (\<lambda>(k, v). member_text k v) (kv # rest) = map Inr (u # us)"
      using ts(1) by (simp only: Cons tsc)
    have len: "Suc (2 * length (join (js '','') (u # us) @ unit_of (CHR ''}'') # r)) < m"
      using n ts(2) tsc m by (simp add: js_single)
    have "parseMembers m [] ?body = Inr (JObj ([] @ map (\<lambda>(k, v). (k, canon v)) (kv # rest)), r)"
      unfolding tsc by (rule parseMembers_join [OF rb eq _ pr len]) (use * in simp)
    moreover have "tryConsume (CHR ''}'') ?body = None"
      unfolding tsc using ts tsc Cons
      by (intro tryConsume_join member_text_head [of "fst kv" "snd kv"]) (auto simp: case_prod_beta')
    ultimately show ?thesis using ts m canon Cons by (simp add: js_cons parseObject_def consume_def)
  qed
qed

theorem reads_back_plain: "plain_keys v \<Longrightarrow> reads_back v"
proof (induction v)
  case (JBool b)
  show ?case
    by (rule reads_back_leaf)
      (auto simp: readLiteral_def parseScalar_def starts_with_def js_cons peek_def split: if_splits)
next
  case (JNum n)
  show ?case by (rule reads_back_JNum)
next
  case (JBad b)
  show ?case by (cases b) (auto simp: reads_back_def cj_err_def)
next
  case (JStr s)
  show ?case
  proof (rule reads_back_leaf)
    fix t r n
    assume "serialize (JStr s) = Inr t" "\<not> number_tail r"
    then have "t = json_string s" by simp
    moreover have "peek (json_string s @ r) = Some (unit_of (CHR 0x22))"
      by (simp add: json_string_def)
    ultimately show "parseValue (Suc n) (t @ r) = Inr (JStr s, r)"
      by (simp add: parseScalar_def readString_json_string)
  qed simp
next
  case (JArr xs)
  then show ?case by (intro reads_back_JArr) (auto simp: list_all_iff)
next
  case (JObj kvs)
  then show ?case by (intro reads_back_JObj) (auto simp: list_all_iff)
next
  case JNull
  show ?case
    by (rule reads_back_leaf) (auto simp: readLiteral_def parseScalar_def starts_with_def js_cons)
qed (auto simp: reads_back_def cj_err_def)

lemma sort_key_idem: "sort_key f (sort_key f xs) = sort_key f xs"
  by (simp add: sort_key_id_if_sorted)

lemma canonicalJson_canon: "serialize (canon v) = serialize v"
proof (induction v)
  case (JArr xs)
  then have *: "map (\<lambda>x. serialize (canon x)) xs = map serialize xs" by simp
  show ?case by (simp add: comp_def *)
next
  case (JObj kvs)
  have "map (\<lambda>(k, v). member_text k v) (sort_key fst (map (\<lambda>(k, v). (k, canon v)) kvs))
      = map (\<lambda>(k, v). member_text k (canon v)) (sort_key fst kvs)"
    by (subst sort_key_map_value) (simp add: case_prod_beta')
  also have "\<dots> = map (\<lambda>(k, v). member_text k v) (sort_key fst kvs)"
    using JObj by (auto simp: member_text_def)
  finally show ?case
    by (simp add: serialize_JObj sort_key_idem del: serialize.simps)
qed simp_all

lemma canonicalJson_length: "serialize v = Inr t \<Longrightarrow> t \<noteq> []"
  using serialize_head by fastforce

lemma parse_of_serialized:
  assumes "plain_keys v" "canonicalJson v = Inr t"
  shows "parseCanonicalJson t = Inr (canon v)"
proof -
  have "parseValue (Suc (2 * length t)) (t @ []) = Inr (canon v, [])"
    by (rule reads_backD [OF reads_back_plain [OF assms(1)]])
      (use assms(2) in \<open>auto simp: canonicalJson_def number_tail_def\<close>)
  with assms show ?thesis
    by (simp add: parseCanonicalJson_def canonicalJson_canon canonicalJson_def)
qed

subsection \<open>What the parser can return\<close>

lemma scan_string_length: "scan_string s = Some (x, r) \<Longrightarrow> length r < length s"
proof (induction s arbitrary: x r rule: length_induct)
  case (1 s)
  then have IH: "\<And>q x r. length q < length s \<Longrightarrow> scan_string q = Some (x, r) \<Longrightarrow> length r < length q"
    by blast
  from 1(2) obtain u us where s: "s = u # us" by (cases s) auto
  consider "u = unit_of (CHR 0x22)"
    | (esc) "u \<noteq> unit_of (CHR 0x22)" "u = unit_of (CHR 0x5C)"
    | (plain) "u \<noteq> unit_of (CHR 0x22)" "u \<noteq> unit_of (CHR 0x5C)" by blast
  then show ?case
  proof cases
    case 1
    with \<open>scan_string s = Some (x, r)\<close> s show ?thesis by simp
  next
    case plain
    with 1(2) s obtain y where "scan_string us = Some (y, r)" by (auto split: if_splits)
    with IH [of us y r] s show ?thesis by simp
  next
    case esc
    with 1(2) s obtain e q where us: "us = e # q" by (auto split: list.splits)
    show ?thesis
    proof (cases "unescape e")
      case (Some c)
      with 1(2) s esc us obtain y where "scan_string q = Some (y, r)" by auto
      with IH [of q y r] s us show ?thesis by simp
    next
      case None
      with 1(2) s esc us obtain a b c d q' where q: "q = a # b # c # d # q'"
        by (auto split: if_splits list.splits)
      with 1(2) s esc us None obtain y where "scan_string q' = Some (y, r)"
        by (auto split: if_splits option.splits)
      with IH [of q' y r] s us q show ?thesis by simp
    qed
  qed
qed

lemma readString_length: "readString s = Inr (x, r) \<Longrightarrow> length r < length s"
  by (auto simp: readString_def cj_err_def split: list.splits if_splits option.splits
      dest!: scan_string_length)

lemma consume_length: "consume c s = Inr r \<Longrightarrow> length s = Suc (length r)"
  by (auto simp: consume_def cj_err_def split: list.splits if_splits)

lemma tryConsume_length: "tryConsume c s = Some r \<Longrightarrow> length s = Suc (length r)"
  by (auto simp: tryConsume_def split: list.splits if_splits)

lemma dropWhile_shorter: "p u \<Longrightarrow> length (dropWhile p (u # us)) < length (u # us)"
  by (simp add: length_dropWhile_le less_Suc_eq_le)

lemma integer_token_length:
  assumes "integer_token s = Some (b, ds, r)"
  shows "length r < length s"
proof -
  define q where "q = (if starts_with (js ''-'') s then tl s else s)"
  have "length q \<le> length s" by (simp add: q_def)
  moreover from assms obtain u us where q: "q = u # us"
    and "r = us \<or> (is_dec_digit u \<and> r = dropWhile is_dec_digit (u # us))"
    by (auto simp: integer_token_def Let_def q_def [symmetric] split: list.splits if_splits)
  then have "length r < length q"
    using dropWhile_shorter [of is_dec_digit u us] by auto
  ultimately show ?thesis by simp
qed

lemma readNumber_length: "readNumber s = Inr (n, r) \<Longrightarrow> length r < length s"
  by (auto simp: readNumber_def cj_err_def Let_def split: if_splits option.splits dest: integer_token_length)

lemma readLiteral_length: "readLiteral l s = Inr r \<Longrightarrow> l \<noteq> [] \<Longrightarrow> s \<noteq> [] \<Longrightarrow> length r < length s"
  by (auto simp: readLiteral_def cj_err_def split: if_splits)

lemma parseScalar_length:
  assumes "peek s = Some u" "parseScalar u s = Inr (v, r)"
  shows "length r < length s"
proof -
  have "s \<noteq> []" using assms(1) by (auto simp: peek_def)
  with assms(2) show ?thesis
    by (auto simp: parseScalar_def cj_err_def bindR_Inr_iff split: if_splits
        intro: readString_length readNumber_length readLiteral_length)
qed

text \<open>What a successful or a failing round of the two loops has done.\<close>

lemma parseMembers_SucE:
  assumes "parseMembers (Suc n) acc s = Inr (v, r)"
  obtains k s1 s2 w s3 where "readString s = Inr (k, s1)" "k \<notin> set (map fst acc)"
    "consume (CHR '':'') s1 = Inr s2" "parseValue n s2 = Inr (w, s3)"
    "(\<exists>s4. tryConsume (CHR '','') s3 = Some s4 \<and> parseMembers n (put_member acc k w) s4 = Inr (v, r))
     \<or> (v = JObj (put_member acc k w) \<and> consume (CHR ''}'') s3 = Inr r)"
proof -
  from assms obtain k s1 where k: "readString s = Inr (k, s1)" "k \<notin> set (map fst acc)"
    by (auto simp: cj_err_def bindR_Inr_iff split: if_splits)
  from assms k obtain s2 w s3 where "consume (CHR '':'') s1 = Inr s2" "parseValue n s2 = Inr (w, s3)"
    by (auto simp: bindR_Inr_iff)
  with assms k show thesis by (intro that [OF k]) (auto simp: bindR_Inr_iff split: option.splits)
qed

lemma parseElements_SucE:
  assumes "parseElements (Suc n) acc s = Inr (v, r)"
  obtains w s3 where "parseValue n s = Inr (w, s3)"
    "(\<exists>s4. tryConsume (CHR '','') s3 = Some s4 \<and> parseElements n (acc @ [w]) s4 = Inr (v, r))
     \<or> (v = JArr (acc @ [w]) \<and> consume (CHR '']'') s3 = Inr r)"
  using assms by (auto simp: bindR_Inr_iff split: option.splits)

lemma parse_length:
  "(\<forall>s v r. parseValue n s = Inr (v, r) \<longrightarrow> length r < length s)
   \<and> (\<forall>acc s v r. parseMembers n acc s = Inr (v, r) \<longrightarrow> length r < length s)
   \<and> (\<forall>acc s v r. parseElements n acc s = Inr (v, r) \<longrightarrow> length r < length s)"
proof (induction n)
  case 0
  then show ?case by simp
next
  case (Suc n)
  then have V: "\<And>s v r. parseValue n s = Inr (v, r) \<Longrightarrow> length r < length s"
    and M: "\<And>acc s v r. parseMembers n acc s = Inr (v, r) \<Longrightarrow> length r < length s"
    and E: "\<And>acc s v r. parseElements n acc s = Inr (v, r) \<Longrightarrow> length r < length s"
    by blast+
  have "length r < length s" if val: "parseValue (Suc n) s = Inr (v, r)" for s v r
  proof -
    from val obtain u where u: "peek s = Some u" by (auto simp: cj_err_def split: option.splits)
    consider "u = unit_of (CHR ''{'')" | "u = unit_of (CHR ''['')" "u \<noteq> unit_of (CHR ''{'')"
      | "u \<noteq> unit_of (CHR ''['')" "u \<noteq> unit_of (CHR ''{'')" by blast
    then show ?thesis
    proof cases
      case 1
      with val u obtain s1 where s1: "consume (CHR ''{'') s = Inr s1"
        and "tryConsume (CHR ''}'') s1 = Some r \<or> parseMembers n [] s1 = Inr (v, r)"
        by (auto simp: parseObject_def bindR_Inr_iff split: option.splits)
      then show ?thesis using consume_length [OF s1] by (auto dest: tryConsume_length M)
    next
      case 2
      with val u obtain s1 where s1: "consume (CHR ''['') s = Inr s1"
        and "tryConsume (CHR '']'') s1 = Some r \<or> parseElements n [] s1 = Inr (v, r)"
        by (auto simp: parseArray_def bindR_Inr_iff split: option.splits)
      then show ?thesis using consume_length [OF s1] by (auto dest: tryConsume_length E)
    next
      case 3
      with val u show ?thesis by (auto intro: parseScalar_length)
    qed
  qed
  moreover have "length r < length s" if members: "parseMembers (Suc n) acc s = Inr (v, r)" for acc s v r
  proof -
    from members show ?thesis
      by (rule parseMembers_SucE) (auto dest!: readString_length consume_length tryConsume_length V M)
  qed
  moreover have "length r < length s" if elems: "parseElements (Suc n) acc s = Inr (v, r)" for acc s v r
  proof -
    from elems show ?thesis
      by (rule parseElements_SucE) (auto dest!: consume_length tryConsume_length V E)
  qed
  ultimately show ?case by blast
qed

text \<open>What the parser returns has distinct keys and no key \<open>__proto__\<close>.\<close>

lemma plain_keys_put_member:
  "plain_keys (JObj acc) \<Longrightarrow> k \<notin> set (map fst acc) \<Longrightarrow> plain_keys v \<Longrightarrow>
   plain_keys (JObj (put_member acc k v))"
  by (auto simp: put_member_def)

lemma parseScalar_plain: "parseScalar u s = Inr (v, r) \<Longrightarrow> plain_keys v"
  by (auto simp: parseScalar_def cj_err_def bindR_Inr_iff split: if_splits)

lemma parse_plain:
  "(\<forall>s v r. parseValue n s = Inr (v, r) \<longrightarrow> plain_keys v)
   \<and> (\<forall>acc s v r. plain_keys (JObj acc) \<longrightarrow> parseMembers n acc s = Inr (v, r) \<longrightarrow> plain_keys v)
   \<and> (\<forall>acc s v r. plain_keys (JArr acc) \<longrightarrow> parseElements n acc s = Inr (v, r) \<longrightarrow> plain_keys v)"
proof (induction n)
  case 0
  then show ?case by simp
next
  case (Suc n)
  then have V: "\<And>s v r. parseValue n s = Inr (v, r) \<Longrightarrow> plain_keys v"
    and M: "\<And>acc s v r. plain_keys (JObj acc) \<Longrightarrow> parseMembers n acc s = Inr (v, r) \<Longrightarrow> plain_keys v"
    and E: "\<And>acc s v r. plain_keys (JArr acc) \<Longrightarrow> parseElements n acc s = Inr (v, r) \<Longrightarrow> plain_keys v"
    by blast+
  have "plain_keys v" if "parseValue (Suc n) s = Inr (v, r)" for s v r
    using that
    by (auto simp: cj_err_def parseObject_def parseArray_def bindR_Inr_iff
        split: option.splits if_splits dest: M [rotated] E [rotated] parseScalar_plain)
  moreover have "plain_keys v"
    if acc: "plain_keys (JObj acc)" and members: "parseMembers (Suc n) acc s = Inr (v, r)" for acc s v r
  proof -
    from members obtain k s2 w s3 where "k \<notin> set (map fst acc)" "parseValue n s2 = Inr (w, s3)"
      and v: "(\<exists>s4. parseMembers n (put_member acc k w) s4 = Inr (v, r)) \<or> v = JObj (put_member acc k w)"
      by (rule parseMembers_SucE) blast
    then have "plain_keys w" using V by blast
    with acc \<open>k \<notin> set (map fst acc)\<close> have "plain_keys (JObj (put_member acc k w))"
      by (intro plain_keys_put_member)
    with v M show ?thesis by blast
  qed
  moreover have "plain_keys v"
    if acc: "plain_keys (JArr acc)" and elems: "parseElements (Suc n) acc s = Inr (v, r)" for acc s v r
  proof -
    from elems obtain w s3 where "parseValue n s = Inr (w, s3)"
      and v: "(\<exists>s4. parseElements n (acc @ [w]) s4 = Inr (v, r)) \<or> v = JArr (acc @ [w])"
      by (auto simp: bindR_Inr_iff split: option.splits)
    then have "plain_keys (JArr (acc @ [w]))" using acc V by auto
    with v E show ?thesis by blast
  qed
  ultimately show ?case by blast
qed

lemma parseCanonicalJson_sound:
  assumes "parseCanonicalJson t = Inr v"
  shows "canonicalJson v = Inr t" "plain_keys v" "canon v = v"
proof -
  from assms obtain r where "parseValue (Suc (2 * length t)) t = Inr (v, r)" and t: "canonicalJson v = Inr t"
    by (auto simp: parseCanonicalJson_def cj_err_def bindR_Inr_iff split: if_splits)
  then show p: "plain_keys v" using parse_plain by blast
  show "canonicalJson v = Inr t" by (rule t)
  from parse_of_serialized [OF p t] assms show "canon v = v" by simp
qed

text \<open>
  The fuel passed by \<open>parseCanonicalJson\<close> never runs out: no result is an error of a class
  other than the module's own.
\<close>

definition stray :: "'a res \<Rightarrow> bool" where
  "stray m = (case m of Inl e \<Rightarrow> fst e \<noteq> CanonicalJsonError | Inr _ \<Rightarrow> False)"

lemma stray_simps [simp]:
  "\<not> stray (Inr a)" "\<not> stray (cj_err m)" "stray (Inl e) \<longleftrightarrow> fst e \<noteq> CanonicalJsonError"
  by (simp_all add: stray_def cj_err_def)

lemma stray_bindR: "stray (bindR m f) \<longleftrightarrow> stray m \<or> (\<exists>a. m = Inr a \<and> stray (f a))"
  by (cases m) auto

lemma seqR_Inl: "seqR ms = Inl e \<Longrightarrow> Inl e \<in> set ms"
  by (induction ms) (auto simp: bindR_Inl_iff)

lemma serialize_error: "serialize v = Inl e \<Longrightarrow> fst e = CanonicalJsonError"
proof (induction v)
  case (JBad b)
  then show ?case by (cases b) (auto simp: cj_err_def)
next
  case (JArr xs)
  then show ?case by (auto simp: bindR_Inl_iff dest!: seqR_Inl)
next
  case (JObj kvs)
  then have "Inl e \<in> set (map (\<lambda>(k, v). member_text k v) (sort_key fst kvs))"
    by (auto simp: serialize_JObj bindR_Inl_iff simp del: serialize.simps dest: seqR_Inl)
  then obtain k w where kw: "(k, w) \<in> set kvs" "member_text k w = Inl e"
    by (auto simp: eq_commute [of "Inl e"])
  then have "serialize w = Inl e" by (simp add: member_text_def bindR_Inl_iff)
  with JObj.IH kw(1) show ?case by fastforce
qed (auto simp: cj_err_def split: if_splits)

lemma scan_not_fuel [simp]:
  "\<not> stray (readString s)" "\<not> stray (consume c s)"
  "\<not> stray (readNumber s)" "\<not> stray (readLiteral l s)"
  by (auto simp: readString_def consume_def readNumber_def readLiteral_def Let_def split: list.splits option.splits)

lemma parseScalar_not_fuel [simp]: "\<not> stray (parseScalar u s)"
  by (auto simp: parseScalar_def stray_bindR)

lemma parse_fuel:
  "(\<forall>s. 2 * length s < n \<longrightarrow> \<not> stray (parseValue n s))
   \<and> (\<forall>acc s. Suc (2 * length s) < n \<longrightarrow> \<not> stray (parseMembers n acc s))
   \<and> (\<forall>acc s. Suc (2 * length s) < n \<longrightarrow> \<not> stray (parseElements n acc s))"
proof (induction n)
  case 0
  then show ?case by simp
next
  case (Suc n)
  then have V: "\<And>s. 2 * length s < n \<Longrightarrow> \<not> stray (parseValue n s)"
    and M: "\<And>acc s. Suc (2 * length s) < n \<Longrightarrow> \<not> stray (parseMembers n acc s)"
    and E: "\<And>acc s. Suc (2 * length s) < n \<Longrightarrow> \<not> stray (parseElements n acc s)"
    by blast+
  have "\<not> stray (parseValue (Suc n) s)" if "2 * length s < Suc n" for s
  proof
    assume a: "stray (parseValue (Suc n) s)"
    then obtain c s1 where "consume c s = Inr s1"
      "stray (parseMembers n [] s1) \<or> stray (parseElements n [] s1)"
      by (auto simp: parseObject_def parseArray_def stray_bindR split: option.splits if_splits)
    with that consume_length M [of s1] E [of s1] show False by fastforce
  qed
  moreover have "\<not> stray (parseMembers (Suc n) acc s)" if "Suc (2 * length s) < Suc n" for acc s
  proof
    assume "stray (parseMembers (Suc n) acc s)"
    then obtain k s1 s2 where s: "readString s = Inr (k, s1)" "consume (CHR '':'') s1 = Inr s2"
      and "stray (parseValue n s2)
           \<or> (\<exists>w s3 s4. parseValue n s2 = Inr (w, s3) \<and> tryConsume (CHR '','') s3 = Some s4
                \<and> stray (parseMembers n (put_member acc k w) s4))"
      by (auto simp: stray_bindR split: option.splits if_splits)
    moreover have s2: "length s2 < length s"
      using readString_length [OF s(1)] consume_length [OF s(2)] by simp
    ultimately consider "stray (parseValue n s2)" | w s3 s4 where
      "parseValue n s2 = Inr (w, s3)" "tryConsume (CHR '','') s3 = Some s4"
      "stray (parseMembers n (put_member acc k w) s4)" by blast
    then show False
    proof cases
      case 1
      with V [of s2] s2 that show False by simp
    next
      case (2 w s3 s4)
      have "length s3 < length s2" using parse_length [of n] 2(1) by blast
      with tryConsume_length [OF 2(2)] s2 that M [of s4] 2(3) show False by simp
    qed
  qed
  moreover have "\<not> stray (parseElements (Suc n) acc s)" if "Suc (2 * length s) < Suc n" for acc s
  proof
    assume "stray (parseElements (Suc n) acc s)"
    then have "stray (parseValue n s)
           \<or> (\<exists>w s3 s4. parseValue n s = Inr (w, s3) \<and> tryConsume (CHR '','') s3 = Some s4
                \<and> stray (parseElements n (acc @ [w]) s4))"
      by (auto simp: stray_bindR split: option.splits)
    then consider "stray (parseValue n s)" | w s3 s4 where
      "parseValue n s = Inr (w, s3)" "tryConsume (CHR '','') s3 = Some s4"
      "stray (parseElements n (acc @ [w]) s4)" by blast
    then show False
    proof cases
      case 1
      with V [of s] that show False by simp
    next
      case (2 w s3 s4)
      have "length s3 < length s" using parse_length [of n] 2(1) by blast
      with tryConsume_length [OF 2(2)] that E [of s4] 2(3) show False by simp
    qed
  qed
  ultimately show ?case by blast
qed

lemma parseCanonicalJson_own_errors:
  "parseCanonicalJson t = Inl e \<Longrightarrow> fst e = CanonicalJsonError"
proof -
  assume e: "parseCanonicalJson t = Inl e"
  have "\<not> stray (parseValue (Suc (2 * length t)) t)" using parse_fuel by blast
  moreover have "\<not> stray (serialize v)" for v
    using serialize_error by (cases "serialize v") auto
  ultimately have "\<not> stray (parseCanonicalJson t)"
    by (auto simp: parseCanonicalJson_def canonicalJson_def stray_bindR)
  with e show ?thesis by simp
qed

section \<open>Canonical texts are single lines\<close>

lemma newline_hex_digit: "0 \<le> d \<Longrightarrow> d < 16 \<Longrightarrow> hex_digit d \<noteq> 10"
  using hex_value_hex_digit [of d] by (auto simp: hex_value_def Let_def)

lemma newline_quote_unit: "10 \<notin> set (quote_unit u)"
proof -
  have lt: "uint u < 65536" using uint_lt2p [of u] by simp
  have "list_all (\<lambda>(_, c). c \<noteq> 10) short_escapes" by code_simp
  then have "map_of short_escapes u = Some c \<Longrightarrow> c \<noteq> 10" for c
    by (auto simp: list_all_iff dest: map_of_SomeD)
  moreover have "10 \<notin> set (escape_u u)"
    using lt newline_hex_digit [of "uint u div 4096"] newline_hex_digit [of "uint u div 256 mod 16"]
      newline_hex_digit [of "uint u div 16 mod 16"] newline_hex_digit [of "uint u mod 16"]
    by (auto simp: escape_u_def unit_of_def pos_imp_zdiv_nonneg_iff)
  ultimately show ?thesis
    by (auto simp: quote_unit_def unit_of_def split: option.splits)
qed

lemma newline_quote_units: "10 \<notin> set (quote_units s)"
proof (induction s rule: quote_units.induct)
  case (3 u v us)
  then show ?case
    using newline_quote_unit [of u] high_not_special [of u] high_not_special [of v] by auto
qed (auto simp: newline_quote_unit)

lemma newline_json_string: "10 \<notin> set (json_string s)"
  by (simp add: json_string_def newline_quote_units unit_of_def)

lemma newline_dec: "10 \<notin> set (dec n)"
proof -
  have "list_all is_dec_digit (digits (abs n))" by (rule list_all_digits) simp
  then have "10 \<notin> set (digits (abs n))" by (auto simp: list_all_iff is_dec_digit_def)
  then show ?thesis by (auto simp: dec_def unit_of_def abs_if split: if_splits)
qed

lemma set_join: "set (join sep xs) \<subseteq> set sep \<union> \<Union> (set ` set xs)"
  by (induction sep xs rule: join.induct) auto

lemma newline_join: "c \<notin> set sep \<Longrightarrow> \<forall>x\<in>set xs. c \<notin> set x \<Longrightarrow> c \<notin> set (join sep xs)"
  using set_join by fastforce

lemma newline_js [simp]: "10 \<in> set (js s) \<longleftrightarrow> CHR 0x0A \<in> set s"
proof -
  have "(10 :: jsunit) = unit_of (CHR 0x0A)" by (simp add: unit_of_def)
  then show ?thesis by (auto simp: js_def)
qed

lemma serialize_no_newline: "serialize v = Inr t \<Longrightarrow> 10 \<notin> set t"
proof (induction v arbitrary: t)
  case (JNum n)
  then show ?case by (auto simp: cj_err_def newline_dec split: if_splits)
next
  case (JBad b)
  then show ?case by (cases b) (auto simp: cj_err_def)
next
  case (JStr s)
  then show ?case by (auto simp: newline_json_string)
next
  case (JArr xs)
  then obtain ts where ts: "map serialize xs = map Inr ts" "t = js ''['' @ join (js '','') ts @ js '']''"
    by (auto simp: bindR_Inr_iff seqR_Inr_iff)
  have "10 \<notin> set u" if "u \<in> set ts" for u
  proof -
    from that have "Inr u \<in> set (map serialize xs)" by (simp add: ts(1))
    with JArr.IH show ?thesis by auto
  qed
  then show ?case by (simp add: ts(2) newline_join)
next
  case (JObj kvs)
  then obtain ts where ts: "map (\<lambda>(k, v). member_text k v) (sort_key fst kvs) = map Inr ts"
    "t = js ''{'' @ join (js '','') ts @ js ''}''"
    by (auto simp: serialize_JObj bindR_Inr_iff seqR_Inr_iff simp del: serialize.simps)
  have "10 \<notin> set u" if "u \<in> set ts" for u
  proof -
    from that have "Inr u \<in> set (map (\<lambda>(k, v). member_text k v) (sort_key fst kvs))" by (simp add: ts(1))
    then obtain k w where kw: "(k, w) \<in> set kvs" "member_text k w = Inr u"
      by (auto simp: eq_commute [of "Inr u"])
    then obtain tw where tw: "serialize w = Inr tw" "u = json_string k @ js '':'' @ tw"
      by (auto simp: member_text_def bindR_Inr_iff)
    with JObj.IH kw(1) have "10 \<notin> set tw" by fastforce
    then show ?thesis by (simp add: tw(2) newline_json_string)
  qed
  then show ?case by (simp add: ts(2) newline_join)
qed (auto simp: cj_err_def split: if_splits)

lemma serialize_last: "serialize (JObj kvs) = Inr t \<Longrightarrow> \<exists>b. t = b @ js ''}''"
  by (auto simp: serialize_JObj bindR_Inr_iff simp del: serialize.simps)

lemma serialize_member:
  assumes "canonicalJson (JObj kvs) = Inr t" "(k, v) \<in> set kvs"
  shows "\<exists>u. serialize v = Inr u"
proof -
  from assms(1) obtain ts where "map (\<lambda>(k, v). member_text k v) (sort_key fst kvs) = map Inr ts"
    by (auto simp: canonicalJson_def serialize_JObj bindR_Inr_iff seqR_Inr_iff simp del: serialize.simps)
  then have "set (map (\<lambda>(k, v). member_text k v) (sort_key fst kvs)) = set (map Inr ts)"
    by (rule arg_cong)
  then have "(\<lambda>(k, v). member_text k v) ` set kvs = Inr ` set ts"
    by (simp only: set_map set_sort)
  with imageI [OF assms(2), of "\<lambda>(k, v). member_text k v"]
  have "member_text k v \<in> Inr ` set ts" by (simp only: prod.case)
  then show ?thesis by (auto simp: member_text_def bindR_Inr_iff)
qed

lemma canonicalJson_JObj_ok:
  "(\<exists>t. canonicalJson (JObj kvs) = Inr t) \<longleftrightarrow> (\<forall>p\<in>set kvs. \<exists>u. serialize (snd p) = Inr u)"
proof
  assume "\<exists>t. canonicalJson (JObj kvs) = Inr t"
  then obtain t where "canonicalJson (JObj kvs) = Inr t" ..
  from serialize_member [OF this] show "\<forall>p\<in>set kvs. \<exists>u. serialize (snd p) = Inr u" by force
next
  assume all: "\<forall>p\<in>set kvs. \<exists>u. serialize (snd p) = Inr u"
  define f where "f = (\<lambda>p :: jstring \<times> jsval. json_string (fst p) @ js '':'' @ projr (serialize (snd p)))"
  have "map (\<lambda>(k, v). member_text k v) (sort_key fst kvs) = map Inr (map f (sort_key fst kvs))"
    using all by (auto simp: member_text_def f_def)
  then have "seqR (map (\<lambda>(k, v). member_text k v) (sort_key fst kvs)) = Inr (map f (sort_key fst kvs))"
    by (simp only: seqR_Inr_iff)
  then show "\<exists>t. canonicalJson (JObj kvs) = Inr t"
    by (simp add: canonicalJson_def serialize_JObj del: serialize.simps)
qed

section \<open>The sample digest\<close>

lemma hex64_sample_sha: "\<forall>t. hex64 (sample_sha t)"
  by (simp add: hex64_def sample_sha_def is_lower_hex_def list_all_iff)

section \<open>Records after a round trip\<close>

lemma map_of_insort_key:
  "k \<notin> fst ` set kvs \<Longrightarrow> map_of (insort_key fst (k, v) kvs) = (map_of kvs)(k \<mapsto> v)"
  by (induction kvs) auto

lemma map_of_sort_key: "distinct (map fst kvs) \<Longrightarrow> map_of (sort_key fst kvs) = map_of kvs"
  by (induction kvs) (auto simp: map_of_insort_key)

text \<open>The members of the object \<open>JObj kvs\<close> as the parser returns them.\<close>

definition canon_fields :: "fields \<Rightarrow> fields" where
  "canon_fields kvs = sort_key fst (map (\<lambda>(k, v). (k, canon v)) kvs)"

lemma canon_JObj: "canon (JObj kvs) = JObj (canon_fields kvs)"
  by (simp add: canon_fields_def)

lemma map_fst_canon: "map fst (map (\<lambda>(k, v). (k, canon v)) kvs) = map fst kvs"
  by (induction kvs) auto

lemma fget_canon_fields:
  assumes "distinct (map fst kvs)"
  shows "fget (canon_fields kvs) k = canon (fget kvs k)"
proof -
  have "map_of (canon_fields kvs) = map_of (map (\<lambda>(k, v). (k, canon v)) kvs)"
    unfolding canon_fields_def by (rule map_of_sort_key) (simp only: map_fst_canon assms)
  then have "map_of (canon_fields kvs) k = map_of (map (\<lambda>(k, v). (k, canon v)) kvs) k" by simp
  also have "\<dots> = map_option canon (map_of kvs k)" by (induction kvs) auto
  finally show ?thesis by (simp add: fget_def split: option.splits)
qed

lemma field_set_canon_fields: "field_set (canon_fields kvs) = field_set kvs"
proof -
  have "mset (map fst (canon_fields kvs)) = mset (map fst kvs)"
    unfolding canon_fields_def by (simp only: mset_map mset_sort) (simp only: map_fst_canon flip: mset_map)
  then have "sort (map fst (canon_fields kvs)) = sort (map fst kvs)"
    by (intro properties_for_sort) simp_all
  then show ?thesis by (simp add: field_set_def)
qed

text \<open>\<open>const { k: _, ...rest } = r\<close>.\<close>

definition omit_field :: "jstring \<Rightarrow> fields \<Rightarrow> fields" where
  "omit_field k kvs = filter (\<lambda>(j, _). j \<noteq> k) kvs"

lemma omit_field_canon:
  assumes "distinct (map fst kvs)"
  shows "omit_field k (canon_fields kvs) = canon_fields (omit_field k kvs)"
proof -
  have "filter (\<lambda>(j, _). j \<noteq> k) (map (\<lambda>(k, v). (k, canon v)) kvs)
      = map (\<lambda>(k, v). (k, canon v)) (filter (\<lambda>(j, _). j \<noteq> k) kvs)" for kvs
    by (induction kvs) auto
  then show ?thesis by (simp add: omit_field_def canon_fields_def filter_sort)
qed

text \<open>
  Dictionaries and lists of values in the form the canonical codec leaves them in: scalars
  are fixed points of \<open>canon\<close>.
\<close>

lemma canon_scalar [simp]:
  "canon (JStr s) = JStr s" "canon (JNum n) = JNum n" "canon JNull = JNull" "canon (JBool b) = JBool b"
  by simp_all

section \<open>Properties\<close>



text \<open>
  C1: the parser accepts exactly the canonical texts. A text parses to \<open>v\<close> if and only if
  \<open>v\<close> serializes to that very text, has its members in key order and has no own key
  \<open>__proto__\<close>; white space, duplicate keys, leading zeros, non-canonical escapes and trailing
  content are all refused by this.
\<close>

theorem parseCanonicalJson_iff:
  "parseCanonicalJson t = Inr v \<longleftrightarrow> canonicalJson v = Inr t \<and> plain_keys v \<and> canon v = v"
  using parseCanonicalJson_sound parse_of_serialized by metis

text \<open>
  C3: parsing ends with a value or with the module's own error; the fuel of the model never
  runs out, so the parser's loops end on every text.
\<close>

theorem parseCanonicalJson_total:
  "(\<exists>v. parseCanonicalJson t = Inr v) \<or> (\<exists>m. parseCanonicalJson t = Inl (CanonicalJsonError, m))"
  using parseCanonicalJson_own_errors by (cases "parseCanonicalJson t") (metis prod.collapse)+

lemma canonicalJson_inject:
  assumes "plain_keys v" "plain_keys w" "canonicalJson v = Inr t" "canonicalJson w = Inr t"
  shows "canon v = canon w"
  using assms parse_of_serialized by (metis sum.inject(2))

text \<open>
  C4: the canonical hash identifies a value. Two values with the same hash differ at most in
  the order of their object members, unless the hash primitive itself collides on their
  serializations.
\<close>

theorem canonicalHash_inject:
  assumes "plain_keys v" "plain_keys w" "canonicalHash sha v = Inr h" "canonicalHash sha w = Inr h"
  shows "canon v = canon w
    \<or> (\<exists>a b. canonicalJson v = Inr a \<and> canonicalJson w = Inr b \<and> a \<noteq> b \<and> sha a = sha b)"
proof -
  from assms(3,4) obtain a b where ab: "canonicalJson v = Inr a" "canonicalJson w = Inr b" "sha a = sha b"
    by (auto simp: canonicalHash_def bindR_Inr_iff)
  show ?thesis
  proof (cases "a = b")
    case True
    with ab assms(1,2) canonicalJson_inject show ?thesis by blast
  next
    case False
    with ab show ?thesis by blast
  qed
qed

lemma canonicalHash_inject_witness:
  "canon (JObj [(js ''b'', JNull), (js ''a'', JNum 1)]) = canon (JObj [(js ''a'', JNum 1), (js ''b'', JNull)])
   \<or> (\<exists>a b. canonicalJson (JObj [(js ''b'', JNull), (js ''a'', JNum 1)]) = Inr a
        \<and> canonicalJson (JObj [(js ''a'', JNum 1), (js ''b'', JNull)]) = Inr b
        \<and> a \<noteq> b \<and> (id :: jstring \<Rightarrow> jstring) a = id b)"
  by (rule canonicalHash_inject [where h = "js ''{\"a\":1,\"b\":null}''"]) code_simp+

text \<open>
  The serializer writes an own key \<open>__proto__\<close> and the parser refuses the text it wrote:
  the assignment in \<open>parseObject\<close> does not create the member.
\<close>

theorem canonicalJson_proto_key:
  "canonicalJson (JObj [(js ''__proto__'', JNum 1)]) = Inr (js ''{\"__proto__\":1}'')
   \<and> parseCanonicalJson (js ''{\"__proto__\":1}'')
       = Inl (CanonicalJsonError, ''record is not in canonical form'')"
  by (rule conjI; code_simp)


end
