(* ===== verification/HashChain.thy ===== *)
theory HashChain
  imports CanonicalJson
begin

text \<open>
  The interface shared by the two hash-chained logs of \<^verbatim>\<open>packages/dsh-evolve-le/src/state\<close>,
  the event journal and the budget ledger: every entry names the hash of the entry before it
  and its own hash, and its own hash covers the canonical text of everything else in it.
  The clients' lemmas (a chain is determined by its head; a head is never older than a chain
  that extends it) are proved here once and interpreted in \<open>Budget\<close> and \<open>Journal\<close>.
\<close>

locale hash_chain =
  fixes sha :: "jstring \<Rightarrow> jstring"
    and body :: "'e \<Rightarrow> jstring"
    and prev :: "'e \<Rightarrow> jstring"
    and own :: "'e \<Rightarrow> jstring"
    and covered :: "'e \<Rightarrow> bool"
  assumes own_covers: "covered a \<Longrightarrow> covered b \<Longrightarrow> own a = own b \<Longrightarrow> sha (body a) = sha (body b)"
    and body_inject: "covered a \<Longrightarrow> covered b \<Longrightarrow> own a = own b \<Longrightarrow> body a = body b \<Longrightarrow> a = b"
begin

fun linked :: "jstring \<Rightarrow> 'e list \<Rightarrow> bool" where
  "linked h [] = True"
| "linked h (e # es) = (covered e \<and> prev e = h \<and> linked (own e) es)"

fun head_from :: "jstring \<Rightarrow> 'e list \<Rightarrow> jstring" where
  "head_from h [] = h"
| "head_from h (e # es) = head_from (own e) es"

definition collision :: "'e list \<Rightarrow> 'e list \<Rightarrow> bool" where
  "collision es fs \<longleftrightarrow>
     (\<exists>e\<in>set es. \<exists>f\<in>set fs. body e \<noteq> body f \<and> sha (body e) = sha (body f))"

lemma linked_append: "linked h (es @ fs) \<longleftrightarrow> linked h es \<and> linked (head_from h es) fs"
  by (induction es arbitrary: h) auto

lemma head_from_append: "head_from h (es @ fs) = head_from (head_from h es) fs"
  by (induction es arbitrary: h) auto

lemma linked_covered: "linked h es \<Longrightarrow> e \<in> set es \<Longrightarrow> covered e"
  by (induction es arbitrary: h) auto

lemma collision_mono: "collision es fs \<Longrightarrow> set es \<subseteq> set es' \<Longrightarrow> set fs \<subseteq> set fs' \<Longrightarrow> collision es' fs'"
  by (auto simp: collision_def)

text \<open>Two chains of one length with one head are equal, or the hash collides inside them.\<close>

lemma chain_inject:
  assumes "linked h es" "linked h fs" "length es = length fs" "head_from h es = head_from h fs"
  shows "es = fs \<or> collision es fs"
  using assms
proof (induction es arbitrary: fs rule: rev_induct)
  case Nil
  then show ?case by simp
next
  case (snoc e es)
  then obtain fs' f where fs: "fs = fs' @ [f]" by (cases fs rule: rev_cases) auto
  have e: "covered e" "prev e = head_from h es" and f: "covered f" "prev f = head_from h fs'"
    and link: "linked h es" "linked h fs'" and own: "own e = own f" and len: "length es = length fs'"
    using snoc.prems by (auto simp: fs linked_append head_from_append)
  show ?case
  proof (cases "body e = body f")
    case True
    then have "e = f" using e(1) f(1) own by (intro body_inject)
    with e f have "head_from h es = head_from h fs'" by simp
    then have "es = fs' \<or> collision es fs'" by (intro snoc.IH link len)
    then show ?thesis
      using \<open>e = f\<close> collision_mono [of es fs' "es @ [e]" "fs' @ [f]"] by (auto simp: fs)
  next
    case False
    then show ?thesis using own_covers [OF e(1) f(1) own] by (auto simp: collision_def fs)
  qed
qed

end

section \<open>Records sealed by their own hash\<close>

text \<open>
  A parsed record is sealed under the field \<open>hk\<close> when that field holds
  \<open>sha256:\<close> and the hash of the canonical text of the other fields. \<open>sealed_text\<close>
  is that text. Both logs read back such records.
\<close>

definition sealed_text :: "jstring \<Rightarrow> fields \<Rightarrow> jstring" where
  "sealed_text hk r = (case canonicalJson (JObj (omit_field hk r)) of Inr t \<Rightarrow> t | Inl _ \<Rightarrow> [])"

definition sealed_own :: "jstring \<Rightarrow> fields \<Rightarrow> jstring" where
  "sealed_own hk r = str_of (fget r hk)"

definition sealed :: "(jstring \<Rightarrow> jstring) \<Rightarrow> jstring \<Rightarrow> fields \<Rightarrow> bool" where
  "sealed sha hk r \<longleftrightarrow>
     plain_keys (JObj r) \<and> canon_fields r = r \<and> is_str (fget r hk)
     \<and> (\<exists>t. canonicalJson (JObj (omit_field hk r)) = Inr t
            \<and> sealed_own hk r = js ''sha256:'' @ sha t)"

lemma canon_fixed_iff: "canon (JObj r) = JObj r \<longleftrightarrow> canon_fields r = r"
  by (simp only: canon_JObj jsval.inject)

lemma canon_fields_fixed_sorted: "canon_fields r = r \<Longrightarrow> sorted (map fst r)"
  by (erule subst) (simp add: canon_fields_def)

lemma plain_keys_omit: "plain_keys (JObj r) \<Longrightarrow> plain_keys (JObj (omit_field k r))"
  using distinct_map_filter [of fst r "\<lambda>(j, _). j \<noteq> k"]
  by (simp add: omit_field_def list_all_iff) blast

lemma canon_omit:
  assumes "plain_keys (JObj r)" and fixed: "canon_fields r = r"
  shows "canon_fields (omit_field k r) = omit_field k r"
proof -
  have "distinct (map fst r)" using assms(1) by simp
  from omit_field_canon [OF this, of k] show ?thesis by (simp only: fixed)
qed

lemma fields_eqI:
  assumes "sorted (map fst r)" "sorted (map fst q)" "distinct (map fst r)" "distinct (map fst q)"
    and "omit_field k r = omit_field k q" "fget r k = fget q k" "fget r k \<noteq> JUndef" "fget q k \<noteq> JUndef"
  shows "r = q"
proof -
  have ins: "set x = insert (k, fget x k) (set (omit_field k x))"
    if "distinct (map fst x)" "fget x k \<noteq> JUndef" for x
  proof -
    from that(2) have "map_of x k = Some (fget x k)" by (auto simp: fget_def split: option.splits)
    with that(1) have "(k, fget x k) \<in> set x" "\<And>v. (k, v) \<in> set x \<Longrightarrow> v = fget x k"
      by (auto dest: map_of_SomeD simp: map_of_eq_Some_iff)
    note * = this
    show ?thesis
    proof (intro set_eqI iffI)
      fix p assume "p \<in> set x"
      then show "p \<in> insert (k, fget x k) (set (omit_field k x))"
        using *(2) by (cases p) (auto simp: omit_field_def)
    next
      fix p assume "p \<in> insert (k, fget x k) (set (omit_field k x))"
      then show "p \<in> set x" using *(1) by (auto simp: omit_field_def)
    qed
  qed
  have "set r = set q" using ins [OF assms(3,7)] ins [OF assms(4,8)] assms(5,6) by simp
  then show ?thesis
    using assms(1-4) by (intro map_sorted_distinct_set_unique [of fst]) (auto simp: distinct_map intro: inj_on_subset)
qed

interpretation sr: hash_chain sha "sealed_text hk" "\<lambda>r. str_of (fget r pk)" "sealed_own hk" "sealed sha hk"
  for sha hk pk
proof unfold_locales
  fix a b
  assume ab: "sealed sha hk a" "sealed sha hk b" "sealed_own hk a = sealed_own hk b"
  then show "sha (sealed_text hk a) = sha (sealed_text hk b)"
    by (auto simp: sealed_def sealed_text_def)
  assume t: "sealed_text hk a = sealed_text hk b"
  from ab(1,2) obtain s u where su: "canonicalJson (JObj (omit_field hk a)) = Inr s"
    "canonicalJson (JObj (omit_field hk b)) = Inr u"
    by (auto simp: sealed_def)
  with t have "s = u" by (simp add: sealed_text_def)
  have p: "plain_keys (JObj a)" "plain_keys (JObj b)" "canon_fields a = a" "canon_fields b = b"
    using ab(1,2) by (simp_all only: sealed_def)
  have "canon (JObj (omit_field hk a)) = canon (JObj (omit_field hk b))"
    by (rule canonicalJson_inject [OF plain_keys_omit plain_keys_omit])
      (use p(1,2) su \<open>s = u\<close> in \<open>simp_all only:\<close>)
  then have omit: "omit_field hk a = omit_field hk b"
    using canon_omit [OF p(1,3)] canon_omit [OF p(2,4)] by (simp only: canon_JObj jsval.inject)
  have f: "fget a hk = fget b hk" "fget a hk \<noteq> JUndef" "fget b hk \<noteq> JUndef"
    using ab by (auto simp: sealed_def sealed_own_def dest!: is_strE)
  have d: "distinct (map fst a)" "distinct (map fst b)" using p(1,2) by simp_all
  show "a = b"
    by (rule fields_eqI [OF canon_fields_fixed_sorted [OF p(3)] canon_fields_fixed_sorted [OF p(4)] d omit f])
qed

end
