(* ===== verification/EventFold.thy ===== *)
theory EventFold
  imports Prelude
begin

text \<open>
  The interface shared by the components that rebuild a state by folding a log: a step that
  accepts or refuses an event, an invariant every accepted step keeps, and the events the
  client guarantees to be well-formed. \<open>Budget\<close> and \<open>Reducer\<close> interpret it.
\<close>

locale event_fold =
  fixes step :: "'s \<Rightarrow> 'e \<Rightarrow> 's res"
    and wf :: "'e \<Rightarrow> bool"
    and inv :: "'s \<Rightarrow> bool"
  assumes step_inv: "inv s \<Longrightarrow> wf e \<Longrightarrow> step s e = Inr s' \<Longrightarrow> inv s'"
begin

lemma fold_inv:
  assumes "foldR step s es = Inr s'" "inv s" "\<forall>e\<in>set es. wf e"
  shows "inv s'"
  by (rule foldR_invariant [OF assms(1), of inv]) (use assms step_inv in blast)+

text \<open>A log that is accepted is accepted prefix by prefix, through states that keep the invariant.\<close>

lemma fold_prefix:
  assumes "foldR step s (es @ fs) = Inr s'" "inv s" "\<forall>e\<in>set es. wf e"
  obtains m where "foldR step s es = Inr m" "inv m" "foldR step m fs = Inr s'"
proof -
  from assms(1) obtain m where m: "foldR step s es = Inr m" "foldR step m fs = Inr s'"
    by (auto simp: foldR_append bindR_Inr_iff)
  with fold_inv [OF m(1) assms(2,3)] that show thesis by blast
qed

text \<open>A quantity every step moves by a known amount is the sum of the amounts.\<close>

lemma fold_sum:
  fixes q :: "'s \<Rightarrow> int"
  assumes "foldR step s es = Inr s'" "inv s" "\<forall>e\<in>set es. wf e"
    and "\<And>s e s'. inv s \<Longrightarrow> wf e \<Longrightarrow> step s e = Inr s' \<Longrightarrow> q s' = q s + delta e"
  shows "q s' = q s + sum_list (map delta es)"
  using assms(1-3)
proof (induction es arbitrary: s)
  case Nil
  then show ?case by simp
next
  case (Cons e es)
  from Cons.prems(1) obtain m where m: "step s e = Inr m" "foldR step m es = Inr s'"
    by (auto simp: bindR_Inr_iff)
  with Cons.prems have "q m = q s + delta e" "q s' = q m + sum_list (map delta es)"
    by (auto intro: assms(4) Cons.IH step_inv)
  then show ?case by simp
qed

end

end
