(* ===== verification/Budget.thy ===== *)
theory Budget
  imports HashChain EventFold
begin

text \<open>
  Model of \<^verbatim>\<open>packages/dsh-evolve-le/src/state/budget.ts\<close>: the double-entry ledger. The ledger
  file is the text on disk (\<open>None\<close> when it does not exist); the handle returned by
  \<open>BudgetLedger.open\<close> is the record \<open>budget_ledger\<close>. A failing write is the argument
  \<open>io\<close> of \<open>append_entry\<close>: \<open>None\<close> when the write and the sync succeed, \<open>Some n\<close> when
  \<open>n\<close> code units reach the file before the call throws.
\<close>

section \<open>Data\<close>

datatype budget_dimension =
    Usd | SolverTokens | ProposerTokens | AttributionTokens | TaskTrials | ProposalCalls
  | AttributionCalls | WallClockSeconds | ConcurrencySlots | StorageBytes

definition BUDGET_DIMENSIONS :: "budget_dimension list" where
  "BUDGET_DIMENSIONS =
     [Usd, SolverTokens, ProposerTokens, AttributionTokens, TaskTrials, ProposalCalls,
      AttributionCalls, WallClockSeconds, ConcurrencySlots, StorageBytes]"

fun dimension_name :: "budget_dimension \<Rightarrow> jstring" where
  "dimension_name Usd = js ''usd''"
| "dimension_name SolverTokens = js ''solver-tokens''"
| "dimension_name ProposerTokens = js ''proposer-tokens''"
| "dimension_name AttributionTokens = js ''attribution-tokens''"
| "dimension_name TaskTrials = js ''task-trials''"
| "dimension_name ProposalCalls = js ''proposal-calls''"
| "dimension_name AttributionCalls = js ''attribution-calls''"
| "dimension_name WallClockSeconds = js ''wall-clock-seconds''"
| "dimension_name ConcurrencySlots = js ''concurrency-slots''"
| "dimension_name StorageBytes = js ''storage-bytes''"

datatype budget_kind = Reserve | Settle | Release | Refund

fun kind_name :: "budget_kind \<Rightarrow> jstring" where
  "kind_name Reserve = js ''reserve''"
| "kind_name Settle = js ''settle''"
| "kind_name Release = js ''release''"
| "kind_name Refund = js ''refund''"

text \<open>\<open>includes\<close> on the two literal lists, returning the constructor.\<close>

definition as_dimension :: "jsval \<Rightarrow> budget_dimension option" where
  "as_dimension v = List.find (\<lambda>d. v = JStr (dimension_name d)) BUDGET_DIMENSIONS"

definition as_kind :: "jsval \<Rightarrow> budget_kind option" where
  "as_kind v = List.find (\<lambda>k. v = JStr (kind_name k)) [Reserve, Settle, Release, Refund]"

record budget_entry =
  be_runId :: jstring
  be_seq :: int
  be_occurredAt :: jsval
  be_kind :: budget_kind
  be_dimension :: budget_dimension
  be_actionId :: "jstring option"
  be_amount :: int
  be_unpricedUnits :: int
  be_previousHash :: jstring
  be_entryHash :: jstring

record budget_totals =
  reserved :: int
  spent :: int
  unpriced :: int

record action_balance =
  a_reserved :: int
  a_spent :: int

record budget_accounting =
  dimensions :: "(budget_dimension \<times> budget_totals) list"
  actions :: "action_balance dict"

type_synonym budget_limits = "budget_dimension \<Rightarrow> int option"

definition BUDGET_GENESIS_HASH :: jstring where
  "BUDGET_GENESIS_HASH = js ''sha256:'' @ replicate 64 (digit 0)"

definition emptyAccounting :: budget_accounting where
  "emptyAccounting = \<lparr>dimensions = [], actions = []\<rparr>"

definition zero_totals :: budget_totals where
  "zero_totals = \<lparr>reserved = 0, spent = 0, unpriced = 0\<rparr>"

definition zero_balance :: action_balance where
  "zero_balance = \<lparr>a_reserved = 0, a_spent = 0\<rparr>"

definition b_err :: "string \<Rightarrow> jserror" where
  "b_err m = (BudgetError, m)"

text \<open>The key \<open>`${dimension}\0${actionId}`\<close> of the action map.\<close>

definition action_key :: "budget_dimension \<Rightarrow> jstring \<Rightarrow> jstring" where
  "action_key d a = dimension_name d @ 0 # a"

definition totals_of :: "budget_accounting \<Rightarrow> budget_dimension \<Rightarrow> budget_totals" where
  "totals_of acc d =
     (case map_of (dimensions acc) d of Some t \<Rightarrow> t | None \<Rightarrow> zero_totals)"

definition balance_of :: "budget_accounting \<Rightarrow> budget_dimension \<Rightarrow> jstring \<Rightarrow> action_balance" where
  "balance_of acc d a =
     (case map_of (actions acc) (action_key d a) of Some b \<Rightarrow> b | None \<Rightarrow> zero_balance)"

section \<open>Folding an entry\<close>

text \<open>
  The \<open>switch\<close> of \<open>applyBudgetEntry\<close> on the totals of the dimension and, when the entry
  has an owner, the balance of the action.
\<close>

fun post_entry ::
  "budget_kind \<Rightarrow> int \<Rightarrow> int \<Rightarrow> budget_totals \<Rightarrow> action_balance option
     \<Rightarrow> (budget_totals \<times> action_balance option) res" where
  "post_entry Reserve amount units t a =
     Inr (t\<lparr>reserved := js_add (reserved t) amount\<rparr>,
          map_option (\<lambda>b. b\<lparr>a_reserved := js_add (a_reserved b) amount\<rparr>) a)"
| "post_entry Settle amount units t a =
     ensure (amount \<le> reserved t) (b_err ''settle exceeds reserved'')
       (ensure (case a of None \<Rightarrow> True | Some b \<Rightarrow> amount \<le> a_reserved b)
         (b_err ''settle exceeds action reserved'')
         (Inr (t\<lparr>reserved := js_add (reserved t) (- amount), spent := js_add (spent t) amount,
                unpriced := js_add (unpriced t) units\<rparr>,
               map_option (\<lambda>b. b\<lparr>a_reserved := js_add (a_reserved b) (- amount),
                                a_spent := js_add (a_spent b) amount\<rparr>) a)))"
| "post_entry Release amount units t a =
     ensure (amount \<le> reserved t) (b_err ''release exceeds reserved'')
       (ensure (case a of None \<Rightarrow> True | Some b \<Rightarrow> amount \<le> a_reserved b)
         (b_err ''release exceeds action reserved'')
         (Inr (t\<lparr>reserved := js_add (reserved t) (- amount)\<rparr>,
               map_option (\<lambda>b. b\<lparr>a_reserved := js_add (a_reserved b) (- amount)\<rparr>) a)))"
| "post_entry Refund amount units t a =
     ensure (amount \<le> spent t) (b_err ''refund exceeds spent'')
       (ensure (case a of None \<Rightarrow> True | Some b \<Rightarrow> amount \<le> a_spent b)
         (b_err ''refund exceeds action spent'')
         (Inr (t\<lparr>reserved := js_add (reserved t) amount, spent := js_add (spent t) (- amount)\<rparr>,
               map_option (\<lambda>b. b\<lparr>a_reserved := js_add (a_reserved b) amount,
                                a_spent := js_add (a_spent b) (- amount)\<rparr>) a)))"

definition applyBudgetEntry ::
  "budget_accounting \<Rightarrow> budget_limits \<Rightarrow> budget_entry \<Rightarrow> budget_accounting res" where
  "applyBudgetEntry acc limits e =
     (let d = be_dimension e in
      bindR (post_entry (be_kind e) (be_amount e) (be_unpricedUnits e) (totals_of acc d)
               (map_option (balance_of acc d) (be_actionId e)))
        (\<lambda>(t, a).
          ensure (0 \<le> reserved t \<and> 0 \<le> spent t \<and> 0 \<le> unpriced t) (b_err ''negative balance'')
          (ensure (case a of None \<Rightarrow> True | Some b \<Rightarrow> 0 \<le> a_reserved b \<and> 0 \<le> a_spent b)
             (b_err ''negative action balance'')
          (ensure (safe_int (js_add (reserved t) (spent t))) (b_err ''overflow'')
          (ensure (case limits d of None \<Rightarrow> True | Some l \<Rightarrow> js_add (reserved t) (spent t) \<le> l)
             (b_err ''spent+reserved over frozen limit'')
          (Inr (acc\<lparr>dimensions := AList.update d t (dimensions acc),
                    actions := (case (a, be_actionId e) of
                        (Some b, Some i) \<Rightarrow> AList.update (action_key d i) b (actions acc)
                      | _ \<Rightarrow> actions acc)\<rparr>)))))))"

section \<open>Persisted lines\<close>

definition action_value :: "jstring option \<Rightarrow> jsval" where
  "action_value a = (case a of None \<Rightarrow> JNull | Some s \<Rightarrow> JStr s)"

text \<open>The fields of an entry without its \<open>entryHash\<close>, in the order \<open>append\<close> builds them.\<close>

definition envelope ::
  "jstring \<Rightarrow> int \<Rightarrow> jsval \<Rightarrow> budget_kind \<Rightarrow> budget_dimension \<Rightarrow> jstring option \<Rightarrow> jsval \<Rightarrow> jsval
     \<Rightarrow> jstring \<Rightarrow> fields" where
  "envelope runId seq occurredAt k d actionId amount units previousHash =
     [(js ''schemaVersion'', JNum 1), (js ''runId'', JStr runId), (js ''seq'', JNum seq),
      (js ''occurredAt'', occurredAt), (js ''kind'', JStr (kind_name k)),
      (js ''dimension'', JStr (dimension_name d)), (js ''actionId'', action_value actionId),
      (js ''amount'', amount), (js ''unpricedUnits'', units),
      (js ''previousHash'', JStr previousHash)]"

definition envelope_of :: "budget_entry \<Rightarrow> fields" where
  "envelope_of e =
     envelope (be_runId e) (be_seq e) (be_occurredAt e) (be_kind e) (be_dimension e) (be_actionId e)
       (JNum (be_amount e)) (JNum (be_unpricedUnits e)) (be_previousHash e)"

definition entry_fields :: "budget_entry \<Rightarrow> fields" where
  "entry_fields e = envelope_of e @ [(js ''entryHash'', JStr (be_entryHash e))]"

definition hashEntry :: "(jstring \<Rightarrow> jstring) \<Rightarrow> fields \<Rightarrow> jstring res" where
  "hashEntry sha env = bindR (canonicalJson (JObj env)) (\<lambda>t. Inr (js ''sha256:'' @ sha t))"

definition isSafeCount :: "jsval \<Rightarrow> bool" where
  "isSafeCount v \<longleftrightarrow> is_safe_number v \<and> 0 \<le> num_of v"

definition BUDGET_FIELDS :: jstring where
  "BUDGET_FIELDS =
     js ''actionId,amount,dimension,entryHash,kind,occurredAt,previousHash,runId,schemaVersion,seq,unpricedUnits''"

text \<open>The record a validated line is used as.\<close>

definition entry_of :: "fields \<Rightarrow> budget_dimension \<Rightarrow> budget_kind \<Rightarrow> budget_entry" where
  "entry_of r d k =
     \<lparr>be_runId = str_of (fget r (js ''runId'')), be_seq = num_of (fget r (js ''seq'')),
      be_occurredAt = fget r (js ''occurredAt''), be_kind = k, be_dimension = d,
      be_actionId = (case fget r (js ''actionId'') of JStr s \<Rightarrow> Some s | _ \<Rightarrow> None),
      be_amount = num_of (fget r (js ''amount'')),
      be_unpricedUnits = num_of (fget r (js ''unpricedUnits'')),
      be_previousHash = str_of (fget r (js ''previousHash'')),
      be_entryHash = str_of (fget r (js ''entryHash''))\<rparr>"

definition strip_newline :: "jstring \<Rightarrow> jstring" where
  "strip_newline s = (if ends_with [10] s then butlast s else s)"

definition check_entry_fields ::
  "(jstring \<Rightarrow> jstring) \<Rightarrow> fields \<Rightarrow> jstring \<Rightarrow> int \<Rightarrow> jstring \<Rightarrow> budget_entry res" where
  "check_entry_fields sha r runId seq previousHash =
     ensure (eq_num (fget r (js ''schemaVersion'')) 1) (b_err ''schemaVersion'')
     (ensure (fget r (js ''runId'') = JStr runId) (b_err ''runId mismatch'')
     (ensure (eq_num (fget r (js ''seq'')) seq) (b_err ''seq'')
     (case as_dimension (fget r (js ''dimension'')) of
        None \<Rightarrow> Inl (b_err ''unknown dimension'')
      | Some d \<Rightarrow>
     (case as_kind (fget r (js ''kind'')) of
        None \<Rightarrow> Inl (b_err ''unknown kind'')
      | Some k \<Rightarrow>
     (let a = fget r (js ''actionId''); amount = fget r (js ''amount'');
          units = fget r (js ''unpricedUnits''); h = fget r (js ''entryHash'') in
      ensure (a = JNull \<or> is_str a) (b_err ''actionId must be a string or null'')
     (ensure (a \<noteq> JStr []) (b_err ''actionId must be null or non-empty'')
     (ensure (isSafeCount amount) (b_err ''amount must be a safe count'')
     (ensure (isSafeCount units) (b_err ''unpricedUnits must be a safe count'')
     (ensure (\<not> (k = Settle \<and> eq_num amount 0 \<and> eq_num units 0))
        (b_err ''settle of zero with no unpriced usage is not an accounting fact'')
     (ensure (fget r (js ''previousHash'') = JStr previousHash) (b_err ''previousHash does not chain'')
     (ensure (is_str h \<and> sha256_value (str_of h)) (b_err ''entryHash must be sha256:<64-hex>'')
     (bindR (hashEntry sha (omit_field (js ''entryHash'') r)) (\<lambda>eh.
        ensure (JStr eh = h) (b_err ''entryHash does not cover the entry'')
          (Inr (entry_of r d k)))))))))))))))"

definition parseBudgetEntry ::
  "(jstring \<Rightarrow> jstring) \<Rightarrow> jstring \<Rightarrow> jstring \<Rightarrow> int \<Rightarrow> jstring \<Rightarrow> budget_entry res" where
  "parseBudgetEntry sha line runId seq previousHash =
     bindR (parseCanonicalJson (strip_newline line)) (\<lambda>raw.
     bindR (shape_of raw) (\<lambda>ks.
       ensure (ks = BUDGET_FIELDS) (b_err ''entry has wrong field set'')
         (check_entry_fields sha (obj_of raw) runId seq previousHash)))"

section \<open>Replaying the ledger\<close>

text \<open>\<open>text.split('\n')\<close> with one empty last line dropped.\<close>

definition ledger_lines :: "jstring \<Rightarrow> jstring list" where
  "ledger_lines text =
     (let ls = split_on 10 text in if last ls = [] then butlast ls else ls)"

record ledger_scan =
  ls_entries :: "budget_entry list"
  ls_accounting :: budget_accounting
  ls_previousHash :: jstring

definition replay_line ::
  "(jstring \<Rightarrow> jstring) \<Rightarrow> jstring \<Rightarrow> budget_limits \<Rightarrow> ledger_scan \<Rightarrow> jstring \<Rightarrow> ledger_scan res" where
  "replay_line sha runId limits s line =
     bindR (parseBudgetEntry sha line runId (int (length (ls_entries s)) + 1) (ls_previousHash s)) (\<lambda>e.
     bindR (applyBudgetEntry (ls_accounting s) limits e) (\<lambda>acc.
       Inr \<lparr>ls_entries = ls_entries s @ [e], ls_accounting = acc, ls_previousHash = be_entryHash e\<rparr>))"

definition empty_scan :: ledger_scan where
  "empty_scan =
     \<lparr>ls_entries = [], ls_accounting = emptyAccounting, ls_previousHash = BUDGET_GENESIS_HASH\<rparr>"

definition replayBudgetLedger ::
  "(jstring \<Rightarrow> jstring) \<Rightarrow> jstring option \<Rightarrow> jstring \<Rightarrow> budget_limits \<Rightarrow> ledger_scan res" where
  "replayBudgetLedger sha file runId limits =
     (case file of
        None \<Rightarrow> Inr empty_scan
      | Some text \<Rightarrow>
          ensure ([] \<notin> set (ledger_lines text)) (b_err ''blank line in ledger'')
            (foldR (replay_line sha runId limits) empty_scan (ledger_lines text)))"

section \<open>The ledger handle\<close>

record budget_ledger =
  bl_runId :: jstring
  bl_limits :: budget_limits
  bl_accounting :: budget_accounting
  bl_lastSeq :: int
  bl_lastHash :: jstring

definition open_ledger ::
  "(jstring \<Rightarrow> jstring) \<Rightarrow> jstring option \<Rightarrow> jstring \<Rightarrow> budget_limits \<Rightarrow> budget_ledger res" where
  "open_ledger sha file runId limits =
     bindR (replayBudgetLedger sha file runId limits) (\<lambda>s.
       Inr \<lparr>bl_runId = runId, bl_limits = limits, bl_accounting = ls_accounting s,
            bl_lastSeq = (case ls_entries s of [] \<Rightarrow> 0 | _ \<Rightarrow> be_seq (last (ls_entries s))),
            bl_lastHash = (case ls_entries s of [] \<Rightarrow> BUDGET_GENESIS_HASH
                                              | _ \<Rightarrow> be_entryHash (last (ls_entries s)))\<rparr>)"

text \<open>\<open>BudgetLedger.totals\<close>.\<close>

definition ledger_totals :: "budget_ledger \<Rightarrow> budget_totals dict" where
  "ledger_totals l = map (\<lambda>(d, t). (dimension_name d, t)) (dimensions (bl_accounting l))"

record budget_append =
  ba_kind :: budget_kind
  ba_dimension :: budget_dimension
  ba_actionId :: "jstring option"
  ba_amount :: jsval
  ba_unpricedUnits :: jsval
  ba_occurredAt :: jstring

text \<open>\<open>input.unpricedUnits ?? 0\<close>.\<close>

definition or_zero :: "jsval \<Rightarrow> jsval" where
  "or_zero v = (if v = JUndef \<or> v = JNull then JNum 0 else v)"

text \<open>The entry an append would write, or why it writes none; nothing is changed yet.\<close>

definition draft_entry ::
  "(jstring \<Rightarrow> jstring) \<Rightarrow> budget_ledger \<Rightarrow> budget_append \<Rightarrow> budget_entry res" where
  "draft_entry sha l inp =
     (let units = or_zero (ba_unpricedUnits inp); amount = ba_amount inp in
      ensure (isSafeCount amount) (b_err ''amount must be a safe count'')
      (ensure (isSafeCount units) (b_err ''unpricedUnits must be a safe count'')
      (ensure (\<not> (eq_num amount 0 \<and> eq_num units 0))
         (b_err ''zero-amount entry with no unpriced usage'')
      (bindR (hashEntry sha (envelope (bl_runId l) (bl_lastSeq l + 1) (JStr (ba_occurredAt inp))
                (ba_kind inp) (ba_dimension inp) (ba_actionId inp) amount units (bl_lastHash l)))
        (\<lambda>h. Inr \<lparr>be_runId = bl_runId l, be_seq = bl_lastSeq l + 1,
                  be_occurredAt = JStr (ba_occurredAt inp), be_kind = ba_kind inp,
                  be_dimension = ba_dimension inp, be_actionId = ba_actionId inp,
                  be_amount = num_of amount, be_unpricedUnits = num_of units,
                  be_previousHash = bl_lastHash l, be_entryHash = h\<rparr>)))))"

definition append_entry ::
  "(jstring \<Rightarrow> jstring) \<Rightarrow> nat option \<Rightarrow> budget_ledger \<Rightarrow> jstring option \<Rightarrow> budget_append
     \<Rightarrow> budget_ledger \<times> jstring option \<times> budget_entry res" where
  "append_entry sha io l file inp =
     (case bindR (draft_entry sha l inp) (\<lambda>e.
             bindR (applyBudgetEntry (bl_accounting l) (bl_limits l) e) (\<lambda>acc. Inr (e, acc))) of
        Inl err \<Rightarrow> (l, file, Inl err)
      | Inr (e, acc) \<Rightarrow>
          (let l' = l\<lparr>bl_accounting := acc\<rparr>; old = (case file of None \<Rightarrow> [] | Some t \<Rightarrow> t) in
           case canonicalJson (JObj (entry_fields e)) of
             Inl err \<Rightarrow> (l', file, Inl err)
           | Inr t \<Rightarrow>
               (case io of
                  Some n \<Rightarrow> (l', Some (old @ take n (t @ [10])), Inl (PlainError, ''write failed''))
                | None \<Rightarrow>
                    (l'\<lparr>bl_lastSeq := be_seq e, bl_lastHash := be_entryHash e\<rparr>,
                     Some (old @ t @ [10]), Inr e))))"

text \<open>\<open>BudgetLedger.assertMatches\<close> against the totals the journal mirrors.\<close>

definition matches_dimension :: "budget_ledger \<Rightarrow> budget_totals dict \<Rightarrow> budget_dimension \<Rightarrow> unit res" where
  "matches_dimension l mirrored d =
     (let mine = totals_of (bl_accounting l) d;
          theirs = (case map_of mirrored (dimension_name d) of Some t \<Rightarrow> t | None \<Rightarrow> zero_totals)
      in ensure (reserved mine = reserved theirs \<and> spent mine = spent theirs
                 \<and> unpriced mine = unpriced theirs)
           (b_err ''journal/ledger mismatch'') (Inr ()))"

definition assertMatches :: "budget_ledger \<Rightarrow> budget_totals dict \<Rightarrow> unit res" where
  "assertMatches l mirrored = eachR (matches_dimension l mirrored) BUDGET_DIMENSIONS"

section \<open>The accounting invariant\<close>

text \<open>
  Every balance is non-negative, the sums are exact safe integers, and no dimension has
  reserved and spent more than its limit.
\<close>

definition totals_ok :: "int option \<Rightarrow> budget_totals \<Rightarrow> bool" where
  "totals_ok l t \<longleftrightarrow>
     0 \<le> reserved t \<and> 0 \<le> spent t \<and> 0 \<le> unpriced t \<and> reserved t + spent t \<le> max_safe
     \<and> (case l of None \<Rightarrow> True | Some m \<Rightarrow> reserved t + spent t \<le> m)"

definition accounting_ok :: "budget_limits \<Rightarrow> budget_accounting \<Rightarrow> bool" where
  "accounting_ok limits acc \<longleftrightarrow>
     (\<forall>d t. map_of (dimensions acc) d = Some t \<longrightarrow> totals_ok (limits d) t)
     \<and> (\<forall>k b. map_of (actions acc) k = Some b \<longrightarrow> 0 \<le> a_reserved b \<and> 0 \<le> a_spent b)"

definition amounts_ok :: "budget_entry \<Rightarrow> bool" where
  "amounts_ok e \<longleftrightarrow>
     0 \<le> be_amount e \<and> be_amount e \<le> max_safe \<and> 0 \<le> be_unpricedUnits e \<and> be_unpricedUnits e \<le> max_safe"

lemma accounting_ok_empty [simp]: "accounting_ok limits emptyAccounting"
  by (simp add: accounting_ok_def emptyAccounting_def)

lemma accounting_ok_totals:
  assumes "accounting_ok limits acc"
  shows "0 \<le> reserved (totals_of acc d)" "0 \<le> spent (totals_of acc d)" "0 \<le> unpriced (totals_of acc d)"
    "reserved (totals_of acc d) + spent (totals_of acc d) \<le> max_safe"
  using assms
  by (auto simp: accounting_ok_def totals_of_def totals_ok_def zero_totals_def max_safe_def split: option.splits)

lemma accounting_ok_balance:
  assumes "accounting_ok limits acc"
  shows "0 \<le> a_reserved (balance_of acc d a)" "0 \<le> a_spent (balance_of acc d a)"
  using assms by (auto simp: accounting_ok_def balance_of_def zero_balance_def split: option.splits)

text \<open>What an accepted entry did: the posted totals, and every check they passed.\<close>

lemma applyBudgetEntryE:
  assumes "applyBudgetEntry acc limits e = Inr acc'"
  obtains t a where
    "post_entry (be_kind e) (be_amount e) (be_unpricedUnits e) (totals_of acc (be_dimension e))
       (map_option (balance_of acc (be_dimension e)) (be_actionId e)) = Inr (t, a)"
    "0 \<le> reserved t" "0 \<le> spent t" "0 \<le> unpriced t"
    "case a of None \<Rightarrow> True | Some b \<Rightarrow> 0 \<le> a_reserved b \<and> 0 \<le> a_spent b"
    "reserved t + spent t \<le> max_safe"
    "case limits (be_dimension e) of None \<Rightarrow> True | Some l \<Rightarrow> reserved t + spent t \<le> l"
    "acc' = acc\<lparr>dimensions := AList.update (be_dimension e) t (dimensions acc),
                actions := (case (a, be_actionId e) of
                    (Some b, Some i) \<Rightarrow> AList.update (action_key (be_dimension e) i) b (actions acc)
                  | _ \<Rightarrow> actions acc)\<rparr>"
proof -
  from assms obtain t a where
    t: "post_entry (be_kind e) (be_amount e) (be_unpricedUnits e) (totals_of acc (be_dimension e))
       (map_option (balance_of acc (be_dimension e)) (be_actionId e)) = Inr (t, a)"
    "0 \<le> reserved t" "0 \<le> spent t" "0 \<le> unpriced t"
    "case a of None \<Rightarrow> True | Some b \<Rightarrow> 0 \<le> a_reserved b \<and> 0 \<le> a_spent b"
    and safe: "safe_int (js_add (reserved t) (spent t))"
    and limit: "case limits (be_dimension e) of None \<Rightarrow> True | Some l \<Rightarrow> js_add (reserved t) (spent t) \<le> l"
    and acc': "acc' = acc\<lparr>dimensions := AList.update (be_dimension e) t (dimensions acc),
                actions := (case (a, be_actionId e) of
                    (Some b, Some i) \<Rightarrow> AList.update (action_key (be_dimension e) i) b (actions acc)
                  | _ \<Rightarrow> actions acc)\<rparr>"
    by (auto simp: applyBudgetEntry_def Let_def res_simps)
  from safe have "js_add (reserved t) (spent t) \<le> max_safe" by (simp add: safe_int_def)
  from js_add_safe [OF t(2,3) this] limit show thesis
    by (intro that [OF t _ _ acc']) (auto split: option.splits)
qed

lemma applyBudgetEntry_ok:
  assumes "accounting_ok limits acc" "applyBudgetEntry acc limits e = Inr acc'"
  shows "accounting_ok limits acc'"
  using assms(2)
proof (rule applyBudgetEntryE)
  fix t a
  assume t: "0 \<le> reserved t" "0 \<le> spent t" "0 \<le> unpriced t"
    "case a of None \<Rightarrow> True | Some b \<Rightarrow> 0 \<le> a_reserved b \<and> 0 \<le> a_spent b"
    "reserved t + spent t \<le> max_safe"
    "case limits (be_dimension e) of None \<Rightarrow> True | Some l \<Rightarrow> reserved t + spent t \<le> l"
    and acc': "acc' = acc\<lparr>dimensions := AList.update (be_dimension e) t (dimensions acc),
                actions := (case (a, be_actionId e) of
                    (Some b, Some i) \<Rightarrow> AList.update (action_key (be_dimension e) i) b (actions acc)
                  | _ \<Rightarrow> actions acc)\<rparr>"
  from t have "totals_ok (limits (be_dimension e)) t" by (simp add: totals_ok_def)
  with assms(1) t(4) show "accounting_ok limits acc'"
    by (auto simp: accounting_ok_def acc' split: option.splits if_splits)
qed

text \<open>What each kind adds to the reserved and to the spent total.\<close>

fun reserved_delta :: "budget_kind \<Rightarrow> int \<Rightarrow> int" where
  "reserved_delta Reserve n = n"
| "reserved_delta Settle n = - n"
| "reserved_delta Release n = - n"
| "reserved_delta Refund n = n"

fun spent_delta :: "budget_kind \<Rightarrow> int \<Rightarrow> int" where
  "spent_delta Reserve n = 0"
| "spent_delta Settle n = n"
| "spent_delta Release n = 0"
| "spent_delta Refund n = - n"

lemma post_entry_exact:
  assumes "post_entry k n u t a = Inr (t', a')" "0 \<le> n" "n \<le> max_safe"
    and "0 \<le> reserved t" "0 \<le> spent t" "reserved t + spent t \<le> max_safe"
    and "0 \<le> reserved t'" "0 \<le> spent t'" "reserved t' + spent t' \<le> max_safe"
  shows "reserved t' = reserved t + reserved_delta k n \<and> spent t' = spent t + spent_delta k n"
proof -
  have up: "js_add b n = b + n" if "0 \<le> b" "js_add b n \<le> max_safe" for b
    using js_add_safe(1) [OF that(1) assms(2) that(2)] .
  have down: "js_add b (- n) = b - n" if "n \<le> b" "b \<le> max_safe" for b
    using that assms(2) js_add_exact [of b "- n"] by simp
  have le: "reserved t \<le> max_safe" "spent t \<le> max_safe" "reserved t' \<le> max_safe" "spent t' \<le> max_safe"
    using assms(4-9) by simp_all
  show ?thesis
  proof (cases k)
    case Reserve
    with assms(1) have "t' = t\<lparr>reserved := js_add (reserved t) n\<rparr>" by simp
    with Reserve up [of "reserved t"] assms(4) le show ?thesis by simp
  next
    case Settle
    with assms(1) have n: "n \<le> reserved t" and t': "t' = t\<lparr>reserved := js_add (reserved t) (- n),
        spent := js_add (spent t) n, unpriced := js_add (unpriced t) u\<rparr>"
      by (simp_all add: ensure_Inr_iff)
    with Settle up [of "spent t"] down [OF n le(1)] assms(5) le show ?thesis by simp
  next
    case Release
    with assms(1) have n: "n \<le> reserved t" and t': "t' = t\<lparr>reserved := js_add (reserved t) (- n)\<rparr>"
      by (simp_all add: ensure_Inr_iff)
    with Release down [OF n le(1)] show ?thesis by simp
  next
    case Refund
    with assms(1) have n: "n \<le> spent t" and t': "t' = t\<lparr>reserved := js_add (reserved t) n,
        spent := js_add (spent t) (- n)\<rparr>"
      by (simp_all add: ensure_Inr_iff)
    with Refund up [of "reserved t"] down [OF n le(2)] assms(4) le show ?thesis by simp
  qed
qed

lemma totals_after:
  assumes "accounting_ok limits acc" "amounts_ok e" "applyBudgetEntry acc limits e = Inr acc'"
  shows "reserved (totals_of acc' d) = reserved (totals_of acc d)
           + (if be_dimension e = d then reserved_delta (be_kind e) (be_amount e) else 0)"
    and "spent (totals_of acc' d) = spent (totals_of acc d)
           + (if be_dimension e = d then spent_delta (be_kind e) (be_amount e) else 0)"
proof -
  obtain t a where post: "post_entry (be_kind e) (be_amount e) (be_unpricedUnits e)
       (totals_of acc (be_dimension e)) (map_option (balance_of acc (be_dimension e)) (be_actionId e)) = Inr (t, a)"
    and t: "0 \<le> reserved t" "0 \<le> spent t" "reserved t + spent t \<le> max_safe"
    and acc': "dimensions acc' = AList.update (be_dimension e) t (dimensions acc)"
    using assms(3) by (rule applyBudgetEntryE) auto
  have "reserved t = reserved (totals_of acc (be_dimension e)) + reserved_delta (be_kind e) (be_amount e)
      \<and> spent t = spent (totals_of acc (be_dimension e)) + spent_delta (be_kind e) (be_amount e)"
    by (rule post_entry_exact [OF post]) (use assms(2) t accounting_ok_totals [OF assms(1)] in \<open>auto simp: amounts_ok_def\<close>)
  then show "reserved (totals_of acc' d) = reserved (totals_of acc d)
           + (if be_dimension e = d then reserved_delta (be_kind e) (be_amount e) else 0)"
    and "spent (totals_of acc' d) = spent (totals_of acc d)
           + (if be_dimension e = d then spent_delta (be_kind e) (be_amount e) else 0)"
    by (auto simp: totals_of_def acc')
qed

interpretation bf: event_fold "\<lambda>acc. applyBudgetEntry acc limits" amounts_ok "accounting_ok limits"
  for limits
  by unfold_locales (rule applyBudgetEntry_ok)

section \<open>Writing and reading one line\<close>

lemma as_dimension_name [simp]: "as_dimension (JStr (dimension_name d)) = Some d"
  by (cases d) (simp_all add: as_dimension_def BUDGET_DIMENSIONS_def)

lemma as_kind_name [simp]: "as_kind (JStr (kind_name k)) = Some k"
  by (cases k) (simp_all add: as_kind_def)

lemma entry_keys:
  "map fst (entry_fields e) = map js
     [''schemaVersion'', ''runId'', ''seq'', ''occurredAt'', ''kind'', ''dimension'', ''actionId'',
      ''amount'', ''unpricedUnits'', ''previousHash'', ''entryHash'']"
  by (simp add: entry_fields_def envelope_of_def envelope_def)

lemma field_set_entry: "field_set (entry_fields e) = BUDGET_FIELDS"
  unfolding field_set_def entry_keys by code_simp

lemma distinct_entry_keys: "distinct (map fst (entry_fields e))"
  unfolding entry_keys by simp

lemma omit_entry_hash: "omit_field (js ''entryHash'') (entry_fields e) = envelope_of e"
  by (simp add: omit_field_def entry_fields_def envelope_of_def envelope_def)

lemma canon_action_value [simp]: "canon (action_value a) = action_value a"
  by (simp add: action_value_def split: option.splits)

lemma fget_entry:
  "fget (entry_fields e) (js ''schemaVersion'') = JNum 1"
  "fget (entry_fields e) (js ''runId'') = JStr (be_runId e)"
  "fget (entry_fields e) (js ''seq'') = JNum (be_seq e)"
  "fget (entry_fields e) (js ''occurredAt'') = be_occurredAt e"
  "fget (entry_fields e) (js ''kind'') = JStr (kind_name (be_kind e))"
  "fget (entry_fields e) (js ''dimension'') = JStr (dimension_name (be_dimension e))"
  "fget (entry_fields e) (js ''actionId'') = action_value (be_actionId e)"
  "fget (entry_fields e) (js ''amount'') = JNum (be_amount e)"
  "fget (entry_fields e) (js ''unpricedUnits'') = JNum (be_unpricedUnits e)"
  "fget (entry_fields e) (js ''previousHash'') = JStr (be_previousHash e)"
  "fget (entry_fields e) (js ''entryHash'') = JStr (be_entryHash e)"
  by (simp_all add: entry_fields_def envelope_of_def envelope_def)

text \<open>Entries a line can carry: what \<open>check_entry_fields\<close> demands beyond the chain.\<close>

definition writable_entry :: "budget_entry \<Rightarrow> bool" where
  "writable_entry e \<longleftrightarrow>
     (\<exists>t. be_occurredAt e = JStr t) \<and> be_actionId e \<noteq> Some [] \<and> amounts_ok e
     \<and> \<not> (be_kind e = Settle \<and> be_amount e = 0 \<and> be_unpricedUnits e = 0)"

lemma canonicalJson_canon_fields: "canonicalJson (JObj (canon_fields kvs)) = canonicalJson (JObj kvs)"
  by (metis canonicalJson_canon canonicalJson_def canon_JObj)

lemma check_entry_fields_ok:
  assumes "writable_entry e" "hashEntry sha (envelope_of e) = Inr (be_entryHash e)"
    and "\<forall>t. hex64 (sha t)"
  shows "check_entry_fields sha (canon_fields (entry_fields e)) (be_runId e) (be_seq e) (be_previousHash e)
           = Inr e"
proof -
  obtain t where "js ''sha256:'' @ sha t = be_entryHash e"
    using assms(2) by (auto simp: hashEntry_def bindR_Inr_iff)
  note t = this [symmetric]
  have hash: "sha256_value (be_entryHash e)"
    using assms(3) by (simp add: t sha256_value_def starts_with_def)
  have omit: "hashEntry sha (omit_field (js ''entryHash'') (canon_fields (entry_fields e))) = Inr (be_entryHash e)"
    using assms(2)
    by (simp add: omit_field_canon [OF distinct_entry_keys] omit_entry_hash hashEntry_def canonicalJson_canon_fields)
  obtain ts where ts: "be_occurredAt e = JStr ts" using assms(1) by (auto simp: writable_entry_def)
  have action: "action_value (be_actionId e) = JNull \<or> is_str (action_value (be_actionId e))"
    "(case action_value (be_actionId e) of JStr s \<Rightarrow> Some s | _ \<Rightarrow> None) = be_actionId e"
    "action_value (be_actionId e) \<noteq> JStr []"
    using assms(1) by (auto simp: action_value_def writable_entry_def split: option.splits)
  have counts: "isSafeCount (JNum (be_amount e))" "isSafeCount (JNum (be_unpricedUnits e))"
    using assms(1) by (auto simp: writable_entry_def amounts_ok_def isSafeCount_def safe_int_def max_safe_def)
  have zero: "\<not> (be_kind e = Settle \<and> eq_num (JNum (be_amount e)) 0 \<and> eq_num (JNum (be_unpricedUnits e)) 0)"
    using assms(1) by (auto simp: writable_entry_def eq_num_def)
  have entry: "entry_of (canon_fields (entry_fields e)) (be_dimension e) (be_kind e) = e"
    by (simp add: entry_of_def fget_canon_fields [OF distinct_entry_keys] fget_entry ts action(2))
  show ?thesis
    using action(1,3) counts zero hash omit
    by (simp add: check_entry_fields_def fget_canon_fields [OF distinct_entry_keys] fget_entry entry
        Let_def eq_num_def ts)
qed

lemma parse_written_line:
  assumes "writable_entry e" "hashEntry sha (envelope_of e) = Inr (be_entryHash e)"
    and "\<forall>t. hex64 (sha t)" "canonicalJson (JObj (entry_fields e)) = Inr t"
  shows "parseBudgetEntry sha t (be_runId e) (be_seq e) (be_previousHash e) = Inr e"
proof -
  have plain: "plain_keys (JObj (entry_fields e))"
    using assms(1) distinct_entry_keys [of e]
    by (auto simp: entry_fields_def envelope_of_def envelope_def writable_entry_def action_value_def split: option.splits)
  have p: "parseCanonicalJson t = Inr (JObj (canon_fields (entry_fields e)))"
    using parse_of_serialized [OF plain assms(4)] by (simp only: canon_JObj)
  have "ends_with [10] t = False"
  proof -
    obtain b where "t = b @ js ''}''" using assms(4)
      by (auto simp: canonicalJson_def serialize_JObj bindR_Inr_iff simp del: serialize.simps)
    then show ?thesis by (auto simp: ends_with_def js_def unit_of_def)
  qed
  then have strip: "strip_newline t = t" by (simp add: strip_newline_def)
  have shape: "shape_of (JObj (canon_fields (entry_fields e))) = Inr BUDGET_FIELDS"
    using field_set_canon_fields [of "entry_fields e"] field_set_entry [of e]
    by (simp add: shape_of_def field_set_def)
  show ?thesis
    using check_entry_fields_ok [OF assms(1-3)]
    by (simp add: parseBudgetEntry_def strip p shape)
qed

section \<open>Replay\<close>

lemma parseBudgetEntry_facts:
  assumes "parseBudgetEntry sha line runId n h = Inr e"
  shows "be_runId e = runId" "be_seq e = n" "be_previousHash e = h" "amounts_ok e"
proof -
  from assms obtain r d k where ok: "check_entry_fields sha r runId n h = Inr e"
    by (auto simp: parseBudgetEntry_def res_simps)
  then obtain d k where e: "e = entry_of r d k"
    and r: "fget r (js ''runId'') = JStr runId" "eq_num (fget r (js ''seq'')) n"
      "isSafeCount (fget r (js ''amount''))" "isSafeCount (fget r (js ''unpricedUnits''))"
      "fget r (js ''previousHash'') = JStr h"
    by (auto simp: check_entry_fields_def Let_def res_simps split: option.splits)
  show "be_runId e = runId" "be_seq e = n" "be_previousHash e = h"
    using r(1,2,5) by (auto simp: e entry_of_def eq_num_def)
  have "safe_int (num_of v)" if "isSafeCount v" for v
    using that by (cases v rule: is_safe_number.cases) (auto simp: isSafeCount_def safe_int_def max_safe_def)
  then show "amounts_ok e" using r(3,4)
    by (auto simp: e entry_of_def amounts_ok_def isSafeCount_def safe_int_def)
qed

text \<open>A scan's accounting is the fold of its entries, and its hash is the last entry's.\<close>

definition scan_ok :: "jstring \<Rightarrow> budget_limits \<Rightarrow> ledger_scan \<Rightarrow> bool" where
  "scan_ok runId limits s \<longleftrightarrow>
     foldR (\<lambda>acc. applyBudgetEntry acc limits) emptyAccounting (ls_entries s) = Inr (ls_accounting s)
     \<and> (\<forall>e\<in>set (ls_entries s). amounts_ok e \<and> be_runId e = runId)
     \<and> map be_seq (ls_entries s) = map (\<lambda>i. int i + 1) [0..<length (ls_entries s)]
     \<and> ls_previousHash s = (case ls_entries s of [] \<Rightarrow> BUDGET_GENESIS_HASH
                                               | _ \<Rightarrow> be_entryHash (last (ls_entries s)))"

lemma scan_ok_empty [simp]: "scan_ok runId limits empty_scan"
  by (simp add: scan_ok_def empty_scan_def)

lemma scan_ok_line:
  assumes "scan_ok runId limits s" "replay_line sha runId limits s line = Inr s'"
  shows "scan_ok runId limits s'"
proof -
  from assms(2) obtain e acc where
    e: "parseBudgetEntry sha line runId (int (length (ls_entries s)) + 1) (ls_previousHash s) = Inr e"
    and acc: "applyBudgetEntry (ls_accounting s) limits e = Inr acc"
    and s': "s' = \<lparr>ls_entries = ls_entries s @ [e], ls_accounting = acc, ls_previousHash = be_entryHash e\<rparr>"
    by (auto simp: replay_line_def bindR_Inr_iff)
  with assms(1) parseBudgetEntry_facts [OF e] show ?thesis
    by (auto simp: scan_ok_def foldR_snoc split: list.splits)
qed

lemma replay_scan_ok:
  assumes "replayBudgetLedger sha file runId limits = Inr s"
  shows "scan_ok runId limits s"
proof (cases "file")
  case None
  with assms show ?thesis by (simp add: replayBudgetLedger_def)
next
  case (Some content)
  with assms have "foldR (replay_line sha runId limits) empty_scan (ledger_lines content) = Inr s"
    by (simp add: replayBudgetLedger_def ensure_Inr_iff)
  then show ?thesis
    by (rule foldR_invariant) (auto intro: scan_ok_line)
qed

lemma replay_fold:
  assumes "replayBudgetLedger sha file runId limits = Inr s"
  shows "foldR (\<lambda>acc. applyBudgetEntry acc limits) emptyAccounting (ls_entries s) = Inr (ls_accounting s)"
    "\<forall>e\<in>set (ls_entries s). amounts_ok e"
  using replay_scan_ok [OF assms] by (auto simp: scan_ok_def)

text \<open>The text is empty or ends with a newline, as every completed append leaves it.\<close>

definition closed_text :: "jstring option \<Rightarrow> bool" where
  "closed_text file \<longleftrightarrow> (case file of None \<Rightarrow> True | Some t \<Rightarrow> t = [] \<or> ends_with [10] t)"

lemma ends_with_newline: "ends_with [10] t \<longleftrightarrow> (\<exists>a. t = a @ [10 :: jsunit])"
  by (cases t rule: rev_cases) (auto simp: ends_with_def)

lemma ledger_lines_closed: "ledger_lines (a @ [10]) = split_on 10 a"
  by (simp add: ledger_lines_def Let_def split_on_concat)

lemma ledger_lines_append:
  assumes "old = [] \<or> ends_with [10] old" "10 \<notin> set t"
  shows "ledger_lines (old @ t @ [10]) = ledger_lines old @ [t]"
  using assms(1)
proof
  assume "old = []"
  then show ?thesis
    using assms(2) split_on_append [of 10 t "[]"] by (simp add: ledger_lines_def Let_def)
next
  assume "ends_with [10] old"
  then obtain a where old: "old = a @ [10]" by (auto simp: ends_with_newline)
  have "ledger_lines (old @ t @ [10]) = split_on 10 (a @ 10 # t)"
    using ledger_lines_closed [of "a @ 10 # t"] by (simp add: old)
  with assms(2) show ?thesis by (simp add: old ledger_lines_closed split_on_concat split_on_none)
qed

section \<open>The handle and the file agree\<close>

definition ledger_synced ::
  "(jstring \<Rightarrow> jstring) \<Rightarrow> budget_ledger \<Rightarrow> jstring option \<Rightarrow> budget_entry list \<Rightarrow> bool" where
  "ledger_synced sha l file es \<longleftrightarrow>
     closed_text file
     \<and> replayBudgetLedger sha file (bl_runId l) (bl_limits l)
         = Inr \<lparr>ls_entries = es, ls_accounting = bl_accounting l, ls_previousHash = bl_lastHash l\<rparr>
     \<and> bl_lastSeq l = int (length es)"

lemma open_ledger_synced:
  assumes "open_ledger sha file runId limits = Inr l" "closed_text file"
  shows "\<exists>es. ledger_synced sha l file es"
proof -
  from assms(1) obtain s where s: "replayBudgetLedger sha file runId limits = Inr s"
    and l: "l = \<lparr>bl_runId = runId, bl_limits = limits, bl_accounting = ls_accounting s,
            bl_lastSeq = (case ls_entries s of [] \<Rightarrow> 0 | _ \<Rightarrow> be_seq (last (ls_entries s))),
            bl_lastHash = (case ls_entries s of [] \<Rightarrow> BUDGET_GENESIS_HASH
                                              | _ \<Rightarrow> be_entryHash (last (ls_entries s)))\<rparr>"
    by (auto simp: open_ledger_def bindR_Inr_iff)
  have ok: "scan_ok runId limits s" by (rule replay_scan_ok [OF s])
  have last: "be_seq (last (ls_entries s)) = int (length (ls_entries s))" if "ls_entries s \<noteq> []"
  proof -
    from that have "be_seq (last (ls_entries s)) = last (map be_seq (ls_entries s))"
      by (simp add: last_map)
    also have "\<dots> = int (length (ls_entries s))"
      using ok that by (cases "ls_entries s") (simp_all add: scan_ok_def last_map)
    finally show ?thesis .
  qed
  have "ledger_synced sha l file (ls_entries s)"
    using s ok last assms(2)
    by (auto simp: ledger_synced_def l scan_ok_def split: list.splits)
  then show ?thesis ..
qed

lemma draft_entry_facts:
  assumes "draft_entry sha l inp = Inr e"
  shows "hashEntry sha (envelope_of e) = Inr (be_entryHash e)" "be_runId e = bl_runId l"
    "be_seq e = bl_lastSeq l + 1" "be_previousHash e = bl_lastHash l" "be_actionId e = ba_actionId inp"
    "ba_actionId inp \<noteq> Some [] \<Longrightarrow> writable_entry e"
proof -
  let ?u = "or_zero (ba_unpricedUnits inp)"
  from assms obtain h where c: "isSafeCount (ba_amount inp)" "isSafeCount ?u"
      "\<not> (eq_num (ba_amount inp) 0 \<and> eq_num ?u 0)"
    and h: "hashEntry sha (envelope (bl_runId l) (bl_lastSeq l + 1) (JStr (ba_occurredAt inp))
                (ba_kind inp) (ba_dimension inp) (ba_actionId inp) (ba_amount inp) ?u (bl_lastHash l)) = Inr h"
    and e: "e = \<lparr>be_runId = bl_runId l, be_seq = bl_lastSeq l + 1,
                  be_occurredAt = JStr (ba_occurredAt inp), be_kind = ba_kind inp,
                  be_dimension = ba_dimension inp, be_actionId = ba_actionId inp,
                  be_amount = num_of (ba_amount inp), be_unpricedUnits = num_of ?u,
                  be_previousHash = bl_lastHash l, be_entryHash = h\<rparr>"
    by (auto simp: draft_entry_def Let_def res_simps)
  have num: "\<exists>n. v = JNum n \<and> 0 \<le> n \<and> n \<le> max_safe"
    if "isSafeCount v" "Inr t = serialize v" for v t
    using that by (cases v rule: is_safe_number.cases) (auto simp: isSafeCount_def safe_int_def cj_err_def)
  from h obtain t where t: "canonicalJson (JObj (envelope (bl_runId l) (bl_lastSeq l + 1)
      (JStr (ba_occurredAt inp)) (ba_kind inp) (ba_dimension inp) (ba_actionId inp) (ba_amount inp) ?u
      (bl_lastHash l))) = Inr t"
    by (auto simp: hashEntry_def bindR_Inr_iff)
  obtain n where n: "ba_amount inp = JNum n" "0 \<le> n" "n \<le> max_safe"
    using num [OF c(1)] serialize_member [OF t, of "js ''amount''" "ba_amount inp"]
    by (auto simp: envelope_def)
  obtain m where m: "?u = JNum m" "0 \<le> m" "m \<le> max_safe"
    using num [OF c(2)] serialize_member [OF t, of "js ''unpricedUnits''" ?u]
    by (auto simp: envelope_def)
  show "hashEntry sha (envelope_of e) = Inr (be_entryHash e)"
    using h by (simp add: e envelope_of_def n(1) m(1))
  show "be_runId e = bl_runId l"
    "be_seq e = bl_lastSeq l + 1" "be_previousHash e = bl_lastHash l" "be_actionId e = ba_actionId inp"
    by (simp_all add: e)
  show "ba_actionId inp \<noteq> Some [] \<Longrightarrow> writable_entry e"
    using c(3) n m by (auto simp: e writable_entry_def amounts_ok_def eq_num_def)
qed

text \<open>A completed append: what was drafted, what was posted, what reached the file.\<close>

lemma append_entryE:
  assumes "append_entry sha None l file inp = (l', file', Inr e)"
  obtains acc t where "draft_entry sha l inp = Inr e"
    "applyBudgetEntry (bl_accounting l) (bl_limits l) e = Inr acc"
    "canonicalJson (JObj (entry_fields e)) = Inr t"
    "file' = Some ((case file of None \<Rightarrow> [] | Some t \<Rightarrow> t) @ t @ [10])"
    "l' = l\<lparr>bl_accounting := acc, bl_lastSeq := be_seq e, bl_lastHash := be_entryHash e\<rparr>"
  using assms
  by (auto simp: append_entry_def Let_def bindR_Inr_iff bindR_Inl_iff split: sum.splits intro: that)

lemma append_synced:
  assumes "ledger_synced sha l file es" "\<forall>t. hex64 (sha t)" "ba_actionId inp \<noteq> Some []"
    and "append_entry sha None l file inp = (l', file', Inr e)"
  shows "ledger_synced sha l' file' (es @ [e])"
proof -
  from assms(4) obtain acc t where draft: "draft_entry sha l inp = Inr e"
    and acc: "applyBudgetEntry (bl_accounting l) (bl_limits l) e = Inr acc"
    and t: "canonicalJson (JObj (entry_fields e)) = Inr t"
    and file': "file' = Some ((case file of None \<Rightarrow> [] | Some t \<Rightarrow> t) @ t @ [10])"
    and l': "l' = l\<lparr>bl_accounting := acc, bl_lastSeq := be_seq e, bl_lastHash := be_entryHash e\<rparr>"
    by (rule append_entryE)
  define old where "old = (case file of None \<Rightarrow> [] | Some t \<Rightarrow> t)"
  let ?s = "\<lparr>ls_entries = es, ls_accounting = bl_accounting l, ls_previousHash = bl_lastHash l\<rparr>"
  have sync: "closed_text file" "replayBudgetLedger sha file (bl_runId l) (bl_limits l) = Inr ?s"
    "bl_lastSeq l = int (length es)"
    using assms(1) by (simp_all add: ledger_synced_def)
  have lines0: "ledger_lines [] = []" by (simp add: ledger_lines_def)
  have old: "old = [] \<or> ends_with [10] old" "[] \<notin> set (ledger_lines old)"
    "foldR (replay_line sha (bl_runId l) (bl_limits l)) empty_scan (ledger_lines old) = Inr ?s"
    using sync by (auto simp: closed_text_def old_def replayBudgetLedger_def ensure_Inr_iff lines0 split: option.splits)
  have nl: "10 \<notin> set t" by (rule serialize_no_newline [OF t [unfolded canonicalJson_def]])
  have ne: "t \<noteq> []" using serialize_last [OF t [unfolded canonicalJson_def]] by auto
  note facts = draft_entry_facts [OF draft]
  have parse: "parseBudgetEntry sha t (bl_runId l) (int (length es) + 1) (bl_lastHash l) = Inr e"
    using parse_written_line [OF facts(6) [OF assms(3)] facts(1) assms(2) t] facts(2-4) sync(3) by simp
  have "replay_line sha (bl_runId l) (bl_limits l) ?s t
      = Inr \<lparr>ls_entries = es @ [e], ls_accounting = acc, ls_previousHash = be_entryHash e\<rparr>"
    using parse acc by (simp add: replay_line_def)
  then have "replayBudgetLedger sha (Some (old @ t @ [10])) (bl_runId l) (bl_limits l)
      = Inr \<lparr>ls_entries = es @ [e], ls_accounting = acc, ls_previousHash = be_entryHash e\<rparr>"
    using old ne by (simp add: replayBudgetLedger_def ledger_lines_append [OF old(1) nl] foldR_snoc)
  moreover have "closed_text (Some (old @ t @ [10]))"
    by (simp add: closed_text_def ends_with_newline)
  ultimately show ?thesis
    using facts(3) sync(3) by (simp add: ledger_synced_def file' l' old_def [symmetric])
qed

section \<open>The chain of a ledger\<close>

text \<open>The texts the entry hashes of a ledger file cover, line by line.\<close>

definition ledger_bodies :: "jstring \<Rightarrow> jstring list" where
  "ledger_bodies content =
     map (\<lambda>l. case parseCanonicalJson l of
                Inr v \<Rightarrow> sealed_text (js ''entryHash'') (obj_of v) | Inl _ \<Rightarrow> []) (ledger_lines content)"

lemma parseBudgetEntry_sealed:
  assumes "parseBudgetEntry sha line runId n h = Inr e" "10 \<notin> set line"
  shows "\<exists>r. parseCanonicalJson line = Inr (JObj r) \<and> sealed sha (js ''entryHash'') r
           \<and> str_of (fget r (js ''previousHash'')) = h \<and> sealed_own (js ''entryHash'') r = be_entryHash e"
proof -
  have "strip_newline line = line"
    using assms(2) by (auto simp: strip_newline_def ends_with_newline)
  with assms(1) obtain raw where raw: "parseCanonicalJson line = Inr raw"
    and ok: "check_entry_fields sha (obj_of raw) runId n h = Inr e"
    by (auto simp: parseBudgetEntry_def res_simps)
  from ok have v: "eq_num (fget (obj_of raw) (js ''schemaVersion'')) 1"
    by (simp add: check_entry_fields_def ensure_Inr_iff)
  then have "raw = JObj (obj_of raw)"
    by (cases raw) (auto simp: eq_num_def)
  then obtain r where r: "raw = JObj r" by blast
  have facts: "plain_keys (JObj r)" "canon (JObj r) = JObj r"
    using raw r by (auto simp only: parseCanonicalJson_sound)
  from ok r obtain d k eh where chk: "is_str (fget r (js ''entryHash''))"
    "fget r (js ''previousHash'') = JStr h"
    "hashEntry sha (omit_field (js ''entryHash'') r) = Inr eh" "JStr eh = fget r (js ''entryHash'')"
    "e = entry_of r d k"
    by (auto simp: check_entry_fields_def Let_def res_simps split: option.splits)
  from chk(3) obtain t where t: "canonicalJson (JObj (omit_field (js ''entryHash'') r)) = Inr t"
    "js ''sha256:'' @ sha t = eh"
    by (auto simp: hashEntry_def bindR_Inr_iff)
  have own: "sealed_own (js ''entryHash'') r = eh" using chk(4) by (simp add: sealed_own_def flip: chk(4))
  have "sealed sha (js ''entryHash'') r"
    unfolding sealed_def own using facts chk(1) t by (auto simp only: canon_fixed_iff)
  moreover have "be_entryHash e = eh"
    using chk(4,5) by (simp add: entry_of_def flip: chk(4))
  ultimately show ?thesis using raw r chk(2) own by auto
qed

text \<open>The lines of a replayed ledger, as the chain of their parsed records.\<close>

lemma replay_lines_linked:
  assumes "foldR (replay_line sha runId limits) s lines = Inr s'" "\<forall>l\<in>set lines. 10 \<notin> set l"
  shows "\<exists>rs. map parseCanonicalJson lines = map (\<lambda>r. Inr (JObj r)) rs
           \<and> sr.linked (js ''previousHash'') (js ''entryHash'') sha (ls_previousHash s) rs
           \<and> sr.head_from (js ''entryHash'') (ls_previousHash s) rs = ls_previousHash s'
           \<and> length (ls_entries s') = length (ls_entries s) + length rs"
  using assms
proof (induction lines arbitrary: s)
  case Nil
  then show ?case by simp
next
  case (Cons l ls)
  then obtain m where m: "replay_line sha runId limits s l = Inr m"
    and rest: "foldR (replay_line sha runId limits) m ls = Inr s'"
    by (auto simp: bindR_Inr_iff)
  from m obtain e where
    e: "parseBudgetEntry sha l runId (int (length (ls_entries s)) + 1) (ls_previousHash s) = Inr e"
    and m': "ls_entries m = ls_entries s @ [e]" "ls_previousHash m = be_entryHash e"
    by (auto simp: replay_line_def bindR_Inr_iff)
  from parseBudgetEntry_sealed [OF e] Cons.prems(2) obtain r where
    r: "parseCanonicalJson l = Inr (JObj r)" "sealed sha (js ''entryHash'') r"
      "str_of (fget r (js ''previousHash'')) = ls_previousHash s"
      "sealed_own (js ''entryHash'') r = ls_previousHash m"
    using m' by auto
  from Cons.IH [OF rest] Cons.prems(2) obtain rs where
    rs: "map parseCanonicalJson ls = map (\<lambda>r. Inr (JObj r)) rs"
      "sr.linked (js ''previousHash'') (js ''entryHash'') sha (ls_previousHash m) rs"
      "sr.head_from (js ''entryHash'') (ls_previousHash m) rs = ls_previousHash s'"
      "length (ls_entries s') = length (ls_entries m) + length rs"
    by auto
  show ?case
    by (rule exI [of _ "r # rs"]) (use r rs m' in simp)
qed

lemma ledger_lines_no_newline: "l \<in> set (ledger_lines content) \<Longrightarrow> 10 \<notin> set l"
proof -
  have "\<forall>l\<in>set (split_on 10 content). 10 \<notin> set l"
    by (induction content) (auto split: list.splits)
  then show "l \<in> set (ledger_lines content) \<Longrightarrow> 10 \<notin> set l"
    by (auto simp: ledger_lines_def Let_def split: if_splits dest: in_set_butlastD)
qed

lemma parsed_lines_inject:
  assumes "map parseCanonicalJson ls = map Inr vs" "map parseCanonicalJson ms = map Inr vs"
  shows "ls = ms"
proof -
  have "map canonicalJson vs = map Inr ls" if "map parseCanonicalJson ls = map Inr vs" for ls
    using that by (induction ls arbitrary: vs) (auto dest: parseCanonicalJson_sound(1))
  from this [OF assms(1)] this [OF assms(2)] have "map Inr ls = (map Inr ms :: jstring res list)" by simp
  then show ?thesis by (simp add: inj_map_eq_map)
qed


section \<open>A completed append\<close>

lemma hashEntry_ok:
  "\<forall>p\<in>set env. \<exists>u. serialize (snd p) = Inr u \<Longrightarrow> \<exists>h. hashEntry sha env = Inr h"
  using canonicalJson_JObj_ok [of env] by (auto simp: hashEntry_def)

lemma serialize_action_value [simp]: "\<exists>u. serialize (action_value a) = Inr u"
  by (simp add: action_value_def split: option.splits)

lemma draft_accepts:
  assumes "ba_amount inp = JNum n" "0 < n" "n \<le> max_safe" "ba_unpricedUnits inp = JUndef"
    and "0 \<le> bl_lastSeq l" "bl_lastSeq l < max_safe"
  shows "\<exists>h. draft_entry sha l inp = Inr \<lparr>be_runId = bl_runId l, be_seq = bl_lastSeq l + 1,
           be_occurredAt = JStr (ba_occurredAt inp), be_kind = ba_kind inp, be_dimension = ba_dimension inp,
           be_actionId = ba_actionId inp, be_amount = n, be_unpricedUnits = 0,
           be_previousHash = bl_lastHash l, be_entryHash = h\<rparr>"
proof -
  have "\<exists>h. hashEntry sha (envelope (bl_runId l) (bl_lastSeq l + 1) (JStr (ba_occurredAt inp)) (ba_kind inp)
      (ba_dimension inp) (ba_actionId inp) (JNum n) (JNum 0) (bl_lastHash l)) = Inr h"
    by (rule hashEntry_ok) (use assms in \<open>auto simp: envelope_def safe_int_def max_safe_def\<close>)
  then show ?thesis
    using assms by (auto simp: draft_entry_def Let_def or_zero_def isSafeCount_def eq_num_def safe_int_def)
qed

lemma entry_fields_ok:
  assumes "hashEntry sha (envelope_of e) = Inr h"
  shows "\<exists>t. canonicalJson (JObj (entry_fields e)) = Inr t"
  using assms canonicalJson_JObj_ok [of "envelope_of e"] canonicalJson_JObj_ok [of "entry_fields e"]
  by (auto simp: hashEntry_def bindR_Inr_iff entry_fields_def)

lemma append_accepts:
  assumes "draft_entry sha l inp = Inr e" "applyBudgetEntry (bl_accounting l) (bl_limits l) e = Inr acc"
  shows "\<exists>file'. append_entry sha None l file inp
    = (l\<lparr>bl_accounting := acc, bl_lastSeq := be_seq e, bl_lastHash := be_entryHash e\<rparr>, file', Inr e)"
  using assms entry_fields_ok [OF draft_entry_facts(1) [OF assms(1)]]
  by (auto simp: append_entry_def Let_def)

lemma append_refused:
  assumes "append_entry sha None l file inp = (l', file', Inl err)"
  shows "l' = l \<and> file' = file"
proof (cases "draft_entry sha l inp")
  case (Inl x)
  with assms show ?thesis by (simp add: append_entry_def)
next
  case (Inr e)
  then show ?thesis
    using assms append_accepts [OF Inr, of _ "file"]
    by (cases "applyBudgetEntry (bl_accounting l) (bl_limits l) e") (auto simp: append_entry_def)
qed

definition sample_append :: "budget_kind \<Rightarrow> int \<Rightarrow> budget_append" where
  "sample_append k n =
     \<lparr>ba_kind = k, ba_dimension = Usd, ba_actionId = Some (js ''a1''), ba_amount = JNum n,
      ba_unpricedUnits = JUndef, ba_occurredAt = js ''t''\<rparr>"

definition sample_ledger :: budget_ledger where
  "sample_ledger =
     \<lparr>bl_runId = js ''r'', bl_limits = (\<lambda>d. if d = Usd then Some 100 else None),
      bl_accounting = emptyAccounting, bl_lastSeq = 0, bl_lastHash = BUDGET_GENESIS_HASH\<rparr>"

lemma sample_ledger_synced: "ledger_synced sha sample_ledger None []"
  by (simp add: ledger_synced_def sample_ledger_def closed_text_def replayBudgetLedger_def empty_scan_def)

text \<open>A first append to an empty ledger: 60 units reserved for one action.\<close>

lemma sample_appended:
  "\<exists>l f e. append_entry sample_sha None sample_ledger None (sample_append Reserve 60) = (l, f, Inr e)
     \<and> bl_runId l = js ''r'' \<and> bl_limits l = bl_limits sample_ledger
     \<and> totals_of (bl_accounting l) Usd = \<lparr>reserved = 60, spent = 0, unpriced = 0\<rparr>
     \<and> be_kind e = Reserve \<and> be_dimension e = Usd \<and> be_amount e = 60 \<and> be_actionId e = Some (js ''a1'')
     \<and> be_unpricedUnits e = 0"
proof -
  have "\<exists>h. draft_entry sample_sha sample_ledger (sample_append Reserve 60) = Inr
     \<lparr>be_runId = js ''r'', be_seq = 1, be_occurredAt = JStr (js ''t''), be_kind = Reserve,
      be_dimension = Usd, be_actionId = Some (js ''a1''), be_amount = 60, be_unpricedUnits = 0,
      be_previousHash = BUDGET_GENESIS_HASH, be_entryHash = h\<rparr>"
    using draft_accepts [of "sample_append Reserve 60" 60 sample_ledger sample_sha]
    by (simp add: sample_append_def sample_ledger_def max_safe_def)
  then obtain h where h: "draft_entry sample_sha sample_ledger (sample_append Reserve 60) = Inr
     \<lparr>be_runId = js ''r'', be_seq = 1, be_occurredAt = JStr (js ''t''), be_kind = Reserve,
      be_dimension = Usd, be_actionId = Some (js ''a1''), be_amount = 60, be_unpricedUnits = 0,
      be_previousHash = BUDGET_GENESIS_HASH, be_entryHash = h\<rparr>" (is "_ = Inr ?e") ..
  have "applyBudgetEntry (bl_accounting sample_ledger) (bl_limits sample_ledger) ?e
      = Inr \<lparr>dimensions = [(Usd, \<lparr>reserved = 60, spent = 0, unpriced = 0\<rparr>)],
             actions = [(action_key Usd (js ''a1''), \<lparr>a_reserved = 60, a_spent = 0\<rparr>)]\<rparr>"
    by (simp add: applyBudgetEntry_def sample_ledger_def emptyAccounting_def totals_of_def balance_of_def
        zero_totals_def zero_balance_def js_add_exact max_safe_def safe_int_def)
  from append_accepts [OF h this, of None] show ?thesis
    by (auto simp: sample_ledger_def totals_of_def)
qed

lemma sample_replayed:
  "\<exists>file s. replayBudgetLedger sample_sha file (js ''r'') (bl_limits sample_ledger) = Inr s
     \<and> closed_text file
     \<and> totals_of (ls_accounting s) Usd = \<lparr>reserved = 60, spent = 0, unpriced = 0\<rparr>
     \<and> ls_entries s \<noteq> []"
proof -
  obtain l f e where a: "append_entry sample_sha None sample_ledger None (sample_append Reserve 60) = (l, f, Inr e)"
    "bl_runId l = js ''r''" "bl_limits l = bl_limits sample_ledger"
    "totals_of (bl_accounting l) Usd = \<lparr>reserved = 60, spent = 0, unpriced = 0\<rparr>"
    "be_kind e = Reserve" "be_dimension e = Usd" "be_amount e = 60" "be_actionId e = Some (js ''a1'')"
    using sample_appended by blast
  have "ledger_synced sample_sha l f ([] @ [e])"
    by (rule append_synced [OF sample_ledger_synced hex64_sample_sha _ a(1)]) (simp add: sample_append_def)
  with a show ?thesis by (auto simp: ledger_synced_def intro!: exI [of _ f])
qed

section \<open>Appends that a later replay refuses\<close>

text \<open>
  \<open>append\<close> writes an entry whose \<open>actionId\<close> is the empty string, and \<open>parseBudgetEntry\<close>
  refuses the line it wrote: the ledger cannot be opened again.
\<close>

lemma empty_action_id_line:
  assumes "be_actionId e = Some []" "be_occurredAt e = JStr ts"
    and "canonicalJson (JObj (entry_fields e)) = Inr t"
  shows "parseBudgetEntry sha t (be_runId e) (be_seq e) (be_previousHash e)
           = Inl (b_err ''actionId must be null or non-empty'')"
proof -
  have plain: "plain_keys (JObj (entry_fields e))"
    using assms(1,2) distinct_entry_keys [of e]
    by (auto simp: entry_fields_def envelope_of_def envelope_def action_value_def)
  have p: "parseCanonicalJson t = Inr (JObj (canon_fields (entry_fields e)))"
    using parse_of_serialized [OF plain assms(3)] by (simp only: canon_JObj)
  have nl: "10 \<notin> set t" by (rule serialize_no_newline [OF assms(3) [unfolded canonicalJson_def]])
  then have strip: "strip_newline t = t" by (auto simp: strip_newline_def ends_with_newline)
  have shape: "shape_of (JObj (canon_fields (entry_fields e))) = Inr BUDGET_FIELDS"
    using field_set_canon_fields [of "entry_fields e"] field_set_entry [of e]
    by (simp add: shape_of_def field_set_def)
  have "check_entry_fields sha (canon_fields (entry_fields e)) (be_runId e) (be_seq e) (be_previousHash e)
      = Inl (b_err ''actionId must be null or non-empty'')"
    by (simp add: check_entry_fields_def fget_canon_fields [OF distinct_entry_keys] fget_entry
        Let_def eq_num_def action_value_def assms(1))
  then show ?thesis by (simp add: parseBudgetEntry_def strip p shape)
qed

lemma replay_snoc_line:
  assumes "ledger_synced sha l file es" "10 \<notin> set t" "t \<noteq> []"
  shows "replayBudgetLedger sha (Some ((case file of None \<Rightarrow> [] | Some t \<Rightarrow> t) @ t @ [10])) (bl_runId l) (bl_limits l)
    = replay_line sha (bl_runId l) (bl_limits l)
        \<lparr>ls_entries = es, ls_accounting = bl_accounting l, ls_previousHash = bl_lastHash l\<rparr> t"
proof -
  define old where "old = (case file of None \<Rightarrow> [] | Some t \<Rightarrow> t)"
  have lines0: "ledger_lines [] = []" by (simp add: ledger_lines_def)
  have old: "old = [] \<or> ends_with [10] old" "[] \<notin> set (ledger_lines old)"
    "foldR (replay_line sha (bl_runId l) (bl_limits l)) empty_scan (ledger_lines old)
       = Inr \<lparr>ls_entries = es, ls_accounting = bl_accounting l, ls_previousHash = bl_lastHash l\<rparr>"
    using assms(1)
    by (auto simp: ledger_synced_def closed_text_def old_def replayBudgetLedger_def ensure_Inr_iff lines0
        split: option.splits)
  then show ?thesis
    using assms(3)
    by (simp add: replayBudgetLedger_def ledger_lines_append [OF old(1) assms(2)] foldR_snoc old_def [symmetric])
qed

theorem empty_action_id_bricks:
  assumes "ledger_synced sha l file es" "ba_actionId inp = Some []"
    and "append_entry sha None l file inp = (l', file', Inr e)"
  shows "replayBudgetLedger sha file' (bl_runId l) (bl_limits l)
           = Inl (b_err ''actionId must be null or non-empty'')"
proof -
  from assms(3) obtain t where draft: "draft_entry sha l inp = Inr e"
    and t: "canonicalJson (JObj (entry_fields e)) = Inr t"
    and file': "file' = Some ((case file of None \<Rightarrow> [] | Some t \<Rightarrow> t) @ t @ [10])"
    by (rule append_entryE)
  note facts = draft_entry_facts [OF draft]
  have ts: "\<exists>ts. be_occurredAt e = JStr ts"
    using draft by (auto simp: draft_entry_def Let_def res_simps)
  have nl: "10 \<notin> set t" by (rule serialize_no_newline [OF t [unfolded canonicalJson_def]])
  have ne: "t \<noteq> []" using serialize_last [OF t [unfolded canonicalJson_def]] by auto
  have "parseBudgetEntry sha t (bl_runId l) (int (length es) + 1) (bl_lastHash l)
      = Inl (b_err ''actionId must be null or non-empty'')"
    using empty_action_id_line [OF _ _ t, of _ sha] ts facts assms(1,2)
    by (auto simp: ledger_synced_def)
  then show ?thesis
    by (simp add: file' replay_snoc_line [OF assms(1) nl ne] replay_line_def)
qed

text \<open>
  When the write itself throws, the handle keeps the charge: the accounting already holds the
  entry, the chain position does not.
\<close>

theorem failed_write_keeps_charge:
  assumes "draft_entry sha l inp = Inr e" "applyBudgetEntry (bl_accounting l) (bl_limits l) e = Inr acc"
  shows "\<exists>file'. append_entry sha (Some n) l file inp
    = (l\<lparr>bl_accounting := acc\<rparr>, file', Inl (PlainError, ''write failed''))"
  using assms entry_fields_ok [OF draft_entry_facts(1) [OF assms(1)]]
  by (auto simp: append_entry_def Let_def)

text \<open>
  A crash that loses only the newline of the last line goes unnoticed: the file replays, and
  the next append is written on the same line, which no replay accepts.
\<close>

theorem torn_newline_bricks:
  assumes "ledger_synced sha l file es" "\<forall>t. hex64 (sha t)" "ba_actionId inp \<noteq> Some []"
    and "append_entry sha None l file inp = (l', Some (x @ [10]), Inr e)"
    and "append_entry sha None l' (Some x) inp' = (l'', file'', Inr e')"
  shows "replayBudgetLedger sha (Some x) (bl_runId l) (bl_limits l)
           = replayBudgetLedger sha (Some (x @ [10])) (bl_runId l) (bl_limits l)
    \<and> replayBudgetLedger sha file'' (bl_runId l) (bl_limits l)
           = Inl (CanonicalJsonError, ''trailing content after value'')"
proof -
  define old where "old = (case file of None \<Rightarrow> [] | Some t \<Rightarrow> t)"
  from assms(4) obtain t where draft: "draft_entry sha l inp = Inr e"
    and t: "canonicalJson (JObj (entry_fields e)) = Inr t" and "Some (x @ [10]) = Some (old @ t @ [10])"
    unfolding old_def by (rule append_entryE)
  then have x: "x = old @ t" by simp
  from assms(5) obtain u where u: "canonicalJson (JObj (entry_fields e')) = Inr u"
    and f'': "file'' = Some (x @ u @ [10])"
    by (rule append_entryE) auto
  have nl: "10 \<notin> set t" "10 \<notin> set u"
    using serialize_no_newline [OF t [unfolded canonicalJson_def]]
      serialize_no_newline [OF u [unfolded canonicalJson_def]] by auto
  have ne: "t \<noteq> []" using serialize_last [OF t [unfolded canonicalJson_def]] by auto
  have oldl: "old = [] \<or> ends_with [10] old"
    using assms(1) by (auto simp: ledger_synced_def closed_text_def old_def split: option.splits)
  have "ledger_lines x = ledger_lines old @ [t]"
    using oldl
  proof
    assume "old = []"
    then show ?thesis using nl ne by (simp add: x ledger_lines_def Let_def split_on_none)
  next
    assume "ends_with [10] old"
    then obtain a where a: "old = a @ [10]" by (auto simp: ends_with_newline)
    then show ?thesis using nl ne
      by (simp add: x ledger_lines_closed) (simp add: ledger_lines_def Let_def split_on_concat split_on_none)
  qed
  moreover have "ledger_lines (x @ [10]) = ledger_lines old @ [t]"
    using ledger_lines_append [OF oldl nl(1)] by (simp add: x)
  ultimately have same: "replayBudgetLedger sha (Some x) (bl_runId l) (bl_limits l)
           = replayBudgetLedger sha (Some (x @ [10])) (bl_runId l) (bl_limits l)"
    by (simp add: replayBudgetLedger_def)
  have plain: "plain_keys (JObj (entry_fields e))"
    using draft_entry_facts(6) [OF draft assms(3)] distinct_entry_keys [of e]
    by (auto simp: entry_fields_def envelope_of_def envelope_def writable_entry_def action_value_def split: option.splits)
  obtain u' where u': "u = unit_of (CHR ''{'') # u'"
    using u by (auto simp: canonicalJson_def serialize_JObj bindR_Inr_iff js_cons simp del: serialize.simps)
  have "parseValue (Suc (2 * length (t @ u))) (t @ u) = Inr (canon (JObj (entry_fields e)), u)"
    by (rule reads_backD [OF reads_back_plain [OF plain] t [unfolded canonicalJson_def]])
      (simp_all add: u')
  then have "parseCanonicalJson (t @ u) = Inl (CanonicalJsonError, ''trailing content after value'')"
    by (simp add: parseCanonicalJson_def u' cj_err_def)
  moreover have "10 \<notin> set (t @ u)" using nl by simp
  moreover have "\<not> ends_with [10] (t @ u)"
  proof
    assume "ends_with [10] (t @ u)"
    then obtain a where "t @ u = a @ [10]" by (auto simp: ends_with_newline)
    then have "10 \<in> set (t @ u)" by simp
    with nl show False by simp
  qed
  ultimately have "replayBudgetLedger sha (Some (old @ (t @ u) @ [10])) (bl_runId l) (bl_limits l)
      = Inl (CanonicalJsonError, ''trailing content after value'')"
    unfolding old_def
    by (subst replay_snoc_line [OF assms(1)]) (use ne in \<open>simp_all add: replay_line_def parseBudgetEntry_def strip_newline_def\<close>)
  with same show ?thesis by (simp add: f'' x)
qed

section \<open>Properties\<close>

text \<open>
  C5: whatever ledger a replay accepts, no dimension is oversold: reserved
  and spent are non-negative, their sum is an exact safe integer, and it does not exceed the
  frozen limit of the dimension.
\<close>

theorem budget_never_oversold:
  assumes "replayBudgetLedger sha file runId limits = Inr s"
  shows "0 \<le> reserved (totals_of (ls_accounting s) d) \<and> 0 \<le> spent (totals_of (ls_accounting s) d)
    \<and> reserved (totals_of (ls_accounting s) d) + spent (totals_of (ls_accounting s) d)
        \<le> (case limits d of None \<Rightarrow> max_safe | Some l \<Rightarrow> min max_safe (max 0 l))"
proof -
  have ok: "accounting_ok limits (ls_accounting s)"
    by (rule bf.fold_inv [OF replay_fold(1) [OF assms] accounting_ok_empty replay_fold(2) [OF assms]])
  have "case limits d of None \<Rightarrow> True
     | Some l \<Rightarrow> reserved (totals_of (ls_accounting s) d) + spent (totals_of (ls_accounting s) d) \<le> max 0 l"
    using ok
    by (auto simp: accounting_ok_def totals_of_def totals_ok_def zero_totals_def le_max_iff_disj split: option.splits)
  with accounting_ok_totals [OF ok, of d] show ?thesis by (simp split: option.splits)
qed

lemma budget_never_oversold_witness:
  "\<exists>file s. replayBudgetLedger sample_sha file (js ''r'') (bl_limits sample_ledger) = Inr s
     \<and> reserved (totals_of (ls_accounting s) Usd) = 60
     \<and> reserved (totals_of (ls_accounting s) Usd) + spent (totals_of (ls_accounting s) Usd) \<le> 100"
proof -
  obtain f s where s: "replayBudgetLedger sample_sha f (js ''r'') (bl_limits sample_ledger) = Inr s"
    "totals_of (ls_accounting s) Usd = \<lparr>reserved = 60, spent = 0, unpriced = 0\<rparr>"
    using sample_replayed by blast
  from budget_never_oversold [OF s(1), of Usd] s show ?thesis
    by (auto simp: sample_ledger_def max_safe_def intro!: exI [of _ f])
qed

text \<open>
  C6: the totals are double-entry sums. In a replayed ledger the reserved
  total of a dimension is what was reserved and refunded less what was settled and released, and
  its spent total is what was settled less what was refunded; no rounding ever enters.
\<close>

theorem budget_conservation:
  assumes "replayBudgetLedger sha file runId limits = Inr s"
  shows "reserved (totals_of (ls_accounting s) d)
      = (\<Sum>e\<leftarrow>ls_entries s. if be_dimension e = d then reserved_delta (be_kind e) (be_amount e) else 0)
    \<and> spent (totals_of (ls_accounting s) d)
      = (\<Sum>e\<leftarrow>ls_entries s. if be_dimension e = d then spent_delta (be_kind e) (be_amount e) else 0)"
proof -
  note fold = replay_fold(1) [OF assms] accounting_ok_empty replay_fold(2) [OF assms]
  have zero: "totals_of emptyAccounting d = zero_totals"
    by (simp add: totals_of_def emptyAccounting_def)
  have "reserved (totals_of (ls_accounting s) d) = reserved (totals_of emptyAccounting d)
      + (\<Sum>e\<leftarrow>ls_entries s. if be_dimension e = d then reserved_delta (be_kind e) (be_amount e) else 0)"
    by (rule bf.fold_sum [OF fold, where q = "\<lambda>acc. reserved (totals_of acc d)"]) (rule totals_after(1))
  moreover have "spent (totals_of (ls_accounting s) d) = spent (totals_of emptyAccounting d)
      + (\<Sum>e\<leftarrow>ls_entries s. if be_dimension e = d then spent_delta (be_kind e) (be_amount e) else 0)"
    by (rule bf.fold_sum [OF fold, where q = "\<lambda>acc. spent (totals_of acc d)"]) (rule totals_after(2))
  ultimately show ?thesis by (simp add: zero zero_totals_def)
qed

lemma budget_conservation_witness:
  "\<exists>file s. replayBudgetLedger sample_sha file (js ''r'') (bl_limits sample_ledger) = Inr s
     \<and> ls_entries s \<noteq> []
     \<and> reserved (totals_of (ls_accounting s) Usd)
       = (\<Sum>e\<leftarrow>ls_entries s. if be_dimension e = Usd then reserved_delta (be_kind e) (be_amount e) else 0)"
proof -
  obtain f s where s: "replayBudgetLedger sample_sha f (js ''r'') (bl_limits sample_ledger) = Inr s"
    "ls_entries s \<noteq> []"
    using sample_replayed by blast
  from budget_conservation [OF s(1), of Usd] s show ?thesis by (auto intro!: exI [of _ f])
qed



lemma sample_refused:
  "\<exists>l' f' err. append_entry sample_sha None sample_ledger None (sample_append Settle 60) = (l', f', Inl err)
     \<and> l' = sample_ledger \<and> f' = None"
proof -
  obtain h where "draft_entry sample_sha sample_ledger (sample_append Settle 60) = Inr
     \<lparr>be_runId = js ''r'', be_seq = 1, be_occurredAt = JStr (js ''t''), be_kind = Settle,
      be_dimension = Usd, be_actionId = Some (js ''a1''), be_amount = 60, be_unpricedUnits = 0,
      be_previousHash = BUDGET_GENESIS_HASH, be_entryHash = h\<rparr>"
    using draft_accepts [of "sample_append Settle 60" 60 sample_ledger sample_sha]
    by (auto simp: sample_append_def sample_ledger_def max_safe_def)
  then have a: "append_entry sample_sha None sample_ledger None (sample_append Settle 60)
      = (sample_ledger, None, Inl (b_err ''settle exceeds reserved''))"
    by (simp add: append_entry_def applyBudgetEntry_def sample_ledger_def totals_of_def emptyAccounting_def
        zero_totals_def)
  then show ?thesis by blast
qed

text \<open>
  C8: the chain head determines the ledger. Two ledger files that
  both replay, with the same number of entries and the same last entry hash, consist of the same
  lines, unless two of the texts their hashes cover are different and collide.
\<close>

theorem budget_ledger_tamper_evident:
  assumes "replayBudgetLedger sha (Some t1) runId limits1 = Inr s1"
    and "replayBudgetLedger sha (Some t2) runId limits2 = Inr s2"
    and "length (ls_entries s1) = length (ls_entries s2)" "ls_previousHash s1 = ls_previousHash s2"
  shows "ledger_lines t1 = ledger_lines t2
    \<or> (\<exists>a\<in>set (ledger_bodies t1). \<exists>b\<in>set (ledger_bodies t2). a \<noteq> b \<and> sha a = sha b)"
proof -
  have chain: "\<exists>rs. map parseCanonicalJson (ledger_lines t) = map (\<lambda>r. Inr (JObj r)) rs
      \<and> sr.linked (js ''previousHash'') (js ''entryHash'') sha BUDGET_GENESIS_HASH rs
      \<and> sr.head_from (js ''entryHash'') BUDGET_GENESIS_HASH rs = ls_previousHash s
      \<and> length (ls_entries s) = length rs"
    if "replayBudgetLedger sha (Some t) runId limits = Inr s" for t limits s
    using that replay_lines_linked [of sha runId limits empty_scan "ledger_lines t" s] ledger_lines_no_newline
    by (auto simp: replayBudgetLedger_def ensure_Inr_iff empty_scan_def)
  obtain rs where rs: "map parseCanonicalJson (ledger_lines t1) = map (\<lambda>r. Inr (JObj r)) rs"
    "sr.linked (js ''previousHash'') (js ''entryHash'') sha BUDGET_GENESIS_HASH rs"
    "sr.head_from (js ''entryHash'') BUDGET_GENESIS_HASH rs = ls_previousHash s1"
    "length (ls_entries s1) = length rs" using chain [OF assms(1)] by blast
  obtain qs where qs: "map parseCanonicalJson (ledger_lines t2) = map (\<lambda>r. Inr (JObj r)) qs"
    "sr.linked (js ''previousHash'') (js ''entryHash'') sha BUDGET_GENESIS_HASH qs"
    "sr.head_from (js ''entryHash'') BUDGET_GENESIS_HASH qs = ls_previousHash s2"
    "length (ls_entries s2) = length qs" using chain [OF assms(2)] by blast
  have bodies: "ledger_bodies t = map (sealed_text (js ''entryHash'')) rs"
    if "map parseCanonicalJson (ledger_lines t) = map (\<lambda>r. Inr (JObj r)) rs" for t rs
  proof -
    have "ledger_bodies t = map (\<lambda>p. case p of Inr v \<Rightarrow> sealed_text (js ''entryHash'') (obj_of v) | Inl _ \<Rightarrow> [])
        (map parseCanonicalJson (ledger_lines t))"
      by (simp add: ledger_bodies_def)
    then show ?thesis by (simp add: that)
  qed
  have "rs = qs \<or> sr.collision sha (js ''entryHash'') rs qs"
    by (rule sr.chain_inject [OF rs(2) qs(2)]) (use rs qs assms(3,4) in simp_all)
  then show ?thesis
  proof
    assume "rs = qs"
    then have "ledger_lines t1 = ledger_lines t2"
      using rs(1) qs(1) by (intro parsed_lines_inject [where vs = "map JObj rs"]) (simp_all add: comp_def)
    then show ?thesis ..
  next
    assume "sr.collision sha (js ''entryHash'') rs qs"
    then show ?thesis by (auto simp: sr.collision_def bodies [OF rs(1)] bodies [OF qs(1)])
  qed
qed

lemma budget_ledger_tamper_evident_witness:
  "\<exists>t s. replayBudgetLedger sample_sha (Some t) (js ''r'') (bl_limits sample_ledger) = Inr s \<and> ls_entries s \<noteq> []
    \<and> (ledger_lines t = ledger_lines t
       \<or> (\<exists>a\<in>set (ledger_bodies t). \<exists>b\<in>set (ledger_bodies t). a \<noteq> b \<and> sample_sha a = sample_sha b))"
proof -
  obtain f s where s: "replayBudgetLedger sample_sha f (js ''r'') (bl_limits sample_ledger) = Inr s"
    "ls_entries s \<noteq> []"
    using sample_replayed by blast
  then obtain t where f: "f = Some t" by (cases f) (auto simp: replayBudgetLedger_def empty_scan_def)
  from budget_ledger_tamper_evident [OF s(1) [unfolded f] s(1) [unfolded f] refl refl] s f show ?thesis
    by (intro exI [of _ t] exI [of _ s]) auto
qed

lemma matches_iff:
  "assertMatches l mirrored = Inr () \<longleftrightarrow>
     (\<forall>d. totals_of (bl_accounting l) d
        = (case map_of mirrored (dimension_name d) of Some t \<Rightarrow> t | None \<Rightarrow> zero_totals))"
proof -
  have all: "set BUDGET_DIMENSIONS = UNIV"
    by (auto simp: BUDGET_DIMENSIONS_def intro: budget_dimension.exhaust)
  have eq: "t = u \<longleftrightarrow> reserved t = reserved u \<and> spent t = spent u \<and> unpriced t = unpriced u"
    for t u :: budget_totals
    by (cases t; cases u) simp
  show ?thesis
    by (simp add: assertMatches_def eachR_Inr_iff matches_dimension_def Let_def ensure_Inr_iff all eq)
qed

end
