(* ===== verification/Rng.thy ===== *)
theory Rng
  imports CanonicalJson
begin

text \<open>
  Model of \<^verbatim>\<open>packages/dsh-evolve-le/src/state/rng.ts\<close>: counter-stream draws and their
  receipts. The keyed hash of the platform is the argument \<open>hmac\<close>: the first 32-bit word of
  the HMAC-SHA-256 of a message under a key. The rejection loop of \<open>permutationOf\<close> has no
  bound of its own (a stream may reject for ever), so it is a partial function whose value is
  \<open>None\<close> where the code would not return.
\<close>

section \<open>Streams and draws\<close>

definition RNG_ALGORITHM :: jstring where
  "RNG_ALGORITHM = js ''dsh-evolve-le/counter-hmac-sha256/v1''"

definition RNG_STREAMS :: "jstring list" where
  "RNG_STREAMS = map js
     [''split'', ''scheduler-thompson'', ''tournament'', ''task-sampler'', ''wave-permutation'',
      ''bootstrap'', ''audit-sample'', ''sealed-plan'', ''sealed-bootstrap'']"

record draw_input =
  di_masterSeed :: jstring
  di_runId :: jstring
  di_stream :: jstring
  di_counter :: int

text \<open>The message of one word: \<open>`${runId}\0${stream}\0${counter}\0${index}`\<close>.\<close>

definition draw_message :: "draw_input \<Rightarrow> int \<Rightarrow> jstring" where
  "draw_message i index =
     di_runId i @ 0 # di_stream i @ 0 # dec (di_counter i) @ 0 # dec index"

definition drawWords :: "(jstring \<Rightarrow> jstring \<Rightarrow> 32 word) \<Rightarrow> draw_input \<Rightarrow> nat \<Rightarrow> 32 word list" where
  "drawWords hmac i words =
     map (\<lambda>index. hmac (di_masterSeed i) (draw_message i (int index))) [0..<words]"

text \<open>
  \<open>Math.floor(4294967296 / n) * n\<close>: the quotient of two integers below \<open>2 ^ 53\<close> with a
  dividend of \<open>2 ^ 32\<close> is floored exactly.
\<close>

definition unbiasedIndex :: "32 word \<Rightarrow> int \<Rightarrow> int option res" where
  "unbiasedIndex word n =
     ensure (safe_int n \<and> 0 < n) (PlainError, ''rng: invalid population'')
       (let limit = 4294967296 div n * n in
        Inr (if uint word < limit then Some (uint word mod n) else None))"

definition wordToIndex :: "32 word \<Rightarrow> int \<Rightarrow> int res" where
  "wordToIndex word n =
     bindR (unbiasedIndex word n) (\<lambda>r.
       case r of None \<Rightarrow> Inl (PlainError, ''rng: rejected word; draw the next counter'')
       | Some index \<Rightarrow> Inr index)"

definition sampleIndex ::
  "(jstring \<Rightarrow> jstring \<Rightarrow> 32 word) \<Rightarrow> draw_input \<Rightarrow> int \<Rightarrow> (int \<times> 32 word list) res" where
  "sampleIndex hmac i population =
     (let w = hd (drawWords hmac i 1) in
      bindR (wordToIndex w population) (\<lambda>index. Inr (index, [w])))"

section \<open>Permutations\<close>

text \<open>
  \<open>nextWord\<close> for the counter it is at, and the loop that draws until a word is accepted:
  the accepted index, the counter after it and the words recorded.
\<close>

definition word_at :: "(jstring \<Rightarrow> jstring \<Rightarrow> 32 word) \<Rightarrow> draw_input \<Rightarrow> int \<Rightarrow> 32 word" where
  "word_at hmac i counter = hd (drawWords hmac (i\<lparr>di_counter := counter\<rparr>) 1)"

definition accept :: "32 word \<Rightarrow> int \<Rightarrow> int option" where
  "accept word n = (case unbiasedIndex word n of Inr r \<Rightarrow> r | Inl _ \<Rightarrow> None)"

partial_function (option) drawIndex ::
  "(int \<Rightarrow> 32 word) \<Rightarrow> int \<Rightarrow> int \<Rightarrow> 32 word list \<Rightarrow> (int \<times> int \<times> 32 word list) option" where
  "drawIndex word n counter raw =
     (case accept (word counter) n of
        Some index \<Rightarrow> Some (index, counter + 1, raw @ [word counter])
      | None \<Rightarrow> drawIndex word n (counter + 1) (raw @ [word counter]))"

text \<open>One round of the loop, \<open>step\<close> counting down to 1: swap \<open>order[index]\<close> and \<open>order[step]\<close>.\<close>

fun shuffle ::
  "(int \<Rightarrow> 32 word) \<Rightarrow> nat \<Rightarrow> int list \<Rightarrow> int \<Rightarrow> 32 word list \<Rightarrow> (int list \<times> 32 word list) option" where
  "shuffle word 0 order counter raw = Some (order, raw)"
| "shuffle word (Suc step) order counter raw =
     (case drawIndex word (int (Suc step) + 1) counter raw of
        None \<Rightarrow> None
      | Some (index, counter', raw') \<Rightarrow>
          shuffle word step
            (order[nat index := order ! Suc step, Suc step := order ! nat index]) counter' raw')"

definition permutationOf ::
  "(jstring \<Rightarrow> jstring \<Rightarrow> 32 word) \<Rightarrow> draw_input \<Rightarrow> nat \<Rightarrow> (int list \<times> 32 word list) option" where
  "permutationOf hmac i n =
     shuffle (word_at hmac i) (n - 1) (map int [0..<n]) (di_counter i) []"

definition hashDrawInput :: "(jstring \<Rightarrow> jstring) \<Rightarrow> jsval \<Rightarrow> jstring res" where
  "hashDrawInput sha description = canonicalHash sha description"

section \<open>Receipts\<close>

definition rng_err :: "string \<Rightarrow> jserror" where
  "rng_err m = (PlainError, ''rng: invalid receipt: '' @ m)"

definition uint32_value :: "jsval \<Rightarrow> bool" where
  "uint32_value v \<longleftrightarrow> is_safe_number v \<and> 0 \<le> num_of v \<and> num_of v \<le> 4294967295"

definition validateRngReceipt :: "jsval \<Rightarrow> unit res" where
  "validateRngReceipt v =
     (let r = obj_of v in
      ensure (is_plain_object v) (rng_err ''receipt must be an object'')
     (ensure (field_set r = js ''algorithm,counter,inputHash,raw,result,stream'') (rng_err ''wrong field set'')
     (ensure (fget r (js ''algorithm'') = JStr RNG_ALGORITHM) (rng_err ''algorithm'')
     (ensure (is_str (fget r (js ''stream'')) \<and> str_of (fget r (js ''stream'')) \<in> set RNG_STREAMS)
        (rng_err ''unknown stream'')
     (ensure (is_safe_number (fget r (js ''counter'')) \<and> 0 \<le> num_of (fget r (js ''counter'')))
        (rng_err ''counter must be a non-negative safe integer'')
     (ensure (is_str (fget r (js ''inputHash'')) \<and> hex64 (str_of (fget r (js ''inputHash''))))
        (rng_err ''inputHash must be 64-hex'')
     (ensure (is_arr (fget r (js ''raw'')) \<and> arr_of (fget r (js ''raw'')) \<noteq> [])
        (rng_err ''raw must be a non-empty array'')
     (ensure (list_all uint32_value (arr_of (fget r (js ''raw''))))
        (rng_err ''raw words must be uint32 safe integers'')
     (Inr ())))))))))"

section \<open>Draws without bias\<close>

lemma accept_eq:
  "0 < n \<Longrightarrow> n \<le> max_safe \<Longrightarrow>
   accept w n = (if uint w < 4294967296 div n * n then Some (uint w mod n) else None)"
  by (simp add: accept_def unbiasedIndex_def safe_int_def max_safe_def Let_def)

lemma accept_bounds: "accept w n = Some i \<Longrightarrow> 0 \<le> i \<and> i < n"
  by (auto simp: accept_def unbiasedIndex_def ensure_def Let_def split: if_splits)

lemma uint_word32: "0 \<le> x \<Longrightarrow> x < 4294967296 \<Longrightarrow> uint (word_of_int x :: 32 word) = x"
  by (simp add: uint_word_of_int)

lemma int_div_mult_le: "0 < n \<Longrightarrow> a div n * n \<le> (a :: int)"
  using div_mult_mod_eq [of a n] pos_mod_sign [of n a] by linarith

lemma accepted_words:
  assumes "0 < n" "n \<le> 4294967296" "0 \<le> i" "i < n"
  shows "{w. accept w n = Some i} = (\<lambda>k. word_of_int (k * n + i)) ` {0..<4294967296 div n}"
proof -
  let ?q = "4294967296 div n"
  have n: "n \<le> max_safe" using assms(2) by (simp add: max_safe_def)
  have qn: "?q * n \<le> 4294967296" by (rule int_div_mult_le [OF assms(1)])
  show ?thesis
  proof (intro set_eqI iffI)
    fix w :: "32 word"
    assume "w \<in> {w. accept w n = Some i}"
    then have w: "uint w < ?q * n" "uint w mod n = i"
      by (auto simp: accept_eq [OF assms(1) n] split: if_splits)
    have "uint w div n < ?q"
    proof (rule ccontr)
      assume "\<not> uint w div n < ?q"
      then have "?q * n \<le> uint w div n * n" using assms(1) by (intro mult_right_mono) auto
      also have "\<dots> \<le> uint w" by (rule int_div_mult_le [OF assms(1)])
      finally show False using w(1) by simp
    qed
    moreover have "w = word_of_int (uint w div n * n + i)"
      by (simp add: w(2) [symmetric])
    moreover have "0 \<le> uint w div n" using assms(1) by (simp add: pos_imp_zdiv_nonneg_iff)
    ultimately show "w \<in> (\<lambda>k. word_of_int (k * n + i)) ` {0..<?q}" by auto
  next
    fix w :: "32 word"
    assume "w \<in> (\<lambda>k. word_of_int (k * n + i)) ` {0..<?q}"
    then obtain k where k: "0 \<le> k" "k < ?q" and w: "w = word_of_int (k * n + i)" by auto
    have "k * n + i < (k + 1) * n" using assms(4) by (simp add: algebra_simps)
    also have "\<dots> \<le> ?q * n" using k assms(1) by (intro mult_right_mono) auto
    finally have lt: "k * n + i < ?q * n" .
    moreover have "0 \<le> k * n + i" using k(1) assms(1,3) by simp
    ultimately have "uint w = k * n + i" unfolding w using qn by (intro uint_word32) auto
    with lt assms show "w \<in> {w. accept w n = Some i}"
      by (simp add: accept_eq [OF assms(1) n])
  qed
qed

lemma card_accepted:
  assumes "0 < n" "n \<le> 4294967296" "0 \<le> i" "i < n"
  shows "card {w. accept w n = Some i} = nat (4294967296 div n)"
proof -
  let ?q = "4294967296 div n"
  have qn: "?q * n \<le> 4294967296" by (rule int_div_mult_le [OF assms(1)])
  have u: "uint (word_of_int (k * n + i) :: 32 word) = k * n + i" if "0 \<le> k" "k < ?q" for k
  proof -
    have "k * n + i < (k + 1) * n" using assms(4) by (simp add: algebra_simps)
    also have "\<dots> \<le> ?q * n" using that assms(1) by (intro mult_right_mono) auto
    finally have "k * n + i < 4294967296" using qn by simp
    moreover have "0 \<le> k * n + i" using that(1) assms(1,3) by simp
    ultimately show ?thesis by (rule uint_word32 [rotated])
  qed
  have "inj_on (\<lambda>k. word_of_int (k * n + i) :: 32 word) {0..<?q}"
  proof (rule inj_onI)
    fix k l
    assume "k \<in> {0..<?q}" "l \<in> {0..<?q}"
      and eq: "(word_of_int (k * n + i) :: 32 word) = word_of_int (l * n + i)"
    then have "k * n + i = l * n + i" using u [of k] u [of l] by simp
    then show "k = l" using assms(1) by simp
  qed
  then show ?thesis by (simp add: accepted_words [OF assms] card_image)
qed

section \<open>The rejection loop\<close>

text \<open>The words of \<open>m\<close> consecutive counters.\<close>

fun words_from :: "(int \<Rightarrow> 32 word) \<Rightarrow> int \<Rightarrow> nat \<Rightarrow> 32 word list" where
  "words_from word c 0 = []"
| "words_from word c (Suc m) = word c # words_from word (c + 1) m"

lemma length_words_from [simp]: "length (words_from word c m) = m"
  by (induction m arbitrary: c) auto

lemma words_from_add: "words_from word c (a + b) = words_from word c a @ words_from word (c + int a) b"
  by (induction a arbitrary: c) (auto simp: algebra_simps)

text \<open>The loop returns as soon as the stream holds an acceptable word, and only then.\<close>

lemma drawIndex_later:
  assumes "accept (word (counter + int k)) n = Some i" "\<forall>j<k. accept (word (counter + int j)) n = None"
  shows "drawIndex word n counter raw
           = Some (i, counter + int k + 1, raw @ words_from word counter (Suc k))"
  using assms
proof (induction k arbitrary: counter raw)
  case 0
  then show ?case by (subst drawIndex.simps) simp
next
  case (Suc k)
  have none: "accept (word counter) n = None" using Suc.prems(2) [rule_format, of 0] by simp
  have step: "drawIndex word n counter raw = drawIndex word n (counter + 1) (raw @ [word counter])"
    using none by (subst drawIndex.simps) simp
  have shift: "counter + 1 + int j = counter + int (Suc j)" for j by simp
  have "drawIndex word n (counter + 1) (raw @ [word counter])
      = Some (i, counter + 1 + int k + 1, (raw @ [word counter]) @ words_from word (counter + 1) (Suc k))"
    by (rule Suc.IH) (use Suc.prems in \<open>auto simp only: shift Suc_less_eq\<close>)
  then show ?case by (simp add: step)
qed

lemma drawIndex_result:
  assumes "drawIndex word n counter raw = Some r"
  shows "\<exists>k. accept (word (counter + int k)) n = Some (fst r)
       \<and> (\<forall>j<k. accept (word (counter + int j)) n = None) \<and> fst (snd r) = counter + int k + 1
       \<and> snd (snd r) = raw @ words_from word counter (Suc k)"
proof (rule drawIndex.raw_induct [where P = "\<lambda>word n counter raw r.
    \<exists>k. accept (word (counter + int k)) n = Some (fst r)
       \<and> (\<forall>j<k. accept (word (counter + int j)) n = None) \<and> fst (snd r) = counter + int k + 1
       \<and> snd (snd r) = raw @ words_from word counter (Suc k)", OF _ assms])
  fix draw :: "(int \<Rightarrow> 32 word) \<Rightarrow> int \<Rightarrow> int \<Rightarrow> 32 word list \<Rightarrow> (int \<times> int \<times> 32 word list) option"
    and word n counter raw r
  assume IH: "\<And>word n counter raw r. draw word n counter raw = Some r \<Longrightarrow>
      \<exists>k. accept (word (counter + int k)) n = Some (fst r)
       \<and> (\<forall>j<k. accept (word (counter + int j)) n = None) \<and> fst (snd r) = counter + int k + 1
       \<and> snd (snd r) = raw @ words_from word counter (Suc k)"
    and body: "(case accept (word counter) n of
        None \<Rightarrow> draw word n (counter + 1) (raw @ [word counter])
      | Some index \<Rightarrow> Some (index, counter + 1, raw @ [word counter])) = Some r"
  show "\<exists>k. accept (word (counter + int k)) n = Some (fst r)
       \<and> (\<forall>j<k. accept (word (counter + int j)) n = None) \<and> fst (snd r) = counter + int k + 1
       \<and> snd (snd r) = raw @ words_from word counter (Suc k)"
  proof (cases "accept (word counter) n")
    case (Some i)
    with body show ?thesis by (intro exI [of _ 0]) auto
  next
    case None
    with body have "draw word n (counter + 1) (raw @ [word counter]) = Some r" by simp
    from IH [OF this] obtain k where
      k: "accept (word (counter + 1 + int k)) n = Some (fst r)"
      "\<forall>j<k. accept (word (counter + 1 + int j)) n = None" "fst (snd r) = counter + 1 + int k + 1"
      "snd (snd r) = (raw @ [word counter]) @ words_from word (counter + 1) (Suc k)"
      by blast
    have shift: "counter + 1 + int j = counter + int (Suc j)" for j by simp
    from k(2) None have "\<forall>j<Suc k. accept (word (counter + int j)) n = None"
      by (auto simp: less_Suc_eq_0_disj shift)
    with k show ?thesis by (intro exI [of _ "Suc k"]) (simp add: algebra_simps)
  qed
qed

section \<open>The shuffle\<close>

text \<open>\<open>raw\<close> grows by the words of consecutive counters, and the order stays a rearrangement.\<close>

lemma shuffle_result:
  assumes "shuffle word step order counter raw = Some (order', raw')" "step < length order \<or> step = 0"
  shows "mset order' = mset order \<and> (\<exists>m\<ge>step. raw' = raw @ words_from word counter m)"
  using assms
proof (induction step arbitrary: order counter raw)
  case 0
  then show ?case by (auto intro!: exI [of _ 0])
next
  case (Suc step)
  then obtain i c r where d: "drawIndex word (int (Suc step) + 1) counter raw = Some (i, c, r)"
    and rest: "shuffle word step (order[nat i := order ! Suc step, Suc step := order ! nat i]) c r
                 = Some (order', raw')"
    by (auto split: option.splits)
  from drawIndex_result [OF d] obtain k where
    k: "accept (word (counter + int k)) (int (Suc step) + 1) = Some i" "c = counter + int (Suc k)"
      "r = raw @ words_from word counter (Suc k)" by auto
  from accept_bounds [OF k(1)] have i: "nat i < length order" using Suc.prems(2) by auto
  have sw: "mset (order[nat i := order ! Suc step, Suc step := order ! nat i]) = mset order"
    using i Suc.prems(2) by (intro mset_swap) auto
  from Suc.IH [OF rest] Suc.prems(2) obtain m where
    m: "mset order' = mset (order[nat i := order ! Suc step, Suc step := order ! nat i])" "step \<le> m"
      "raw' = r @ words_from word c m"
    by auto
  then have "raw' = raw @ words_from word counter (Suc k + m)"
    using k(2,3) words_from_add [of word counter "Suc k" m] by simp
  with m sw show ?case by (intro conjI exI [of _ "Suc k + m"]) simp_all
qed

text \<open>With an acceptable word ahead for every population, the shuffle returns.\<close>

lemma shuffle_returns:
  assumes "\<forall>c n. 0 < n \<and> n \<le> int step + 1 \<longrightarrow> (\<exists>k. accept (word (c + int k)) n \<noteq> None)"
  shows "\<exists>r. shuffle word step order counter raw = Some r"
  using assms
proof (induction step arbitrary: order counter raw)
  case 0
  then show ?case by simp
next
  case (Suc step)
  let ?n = "int (Suc step) + 1"
  let ?P = "\<lambda>k. accept (word (counter + int k)) ?n \<noteq> None"
  have "\<exists>k. ?P k" using Suc.prems by auto
  then obtain k where k: "?P k" "\<forall>j<k. \<not> ?P j" using exists_least_iff [of ?P] by blast
  then obtain i where "accept (word (counter + int k)) ?n = Some i" by auto
  from drawIndex_later [of word counter k, OF this, of raw] k(2) Suc show ?case by (auto simp: algebra_simps)
qed

lemma words_from_cong:
  "words_from word c m = words_from word' c m \<longleftrightarrow> (\<forall>j<m. word (c + int j) = word' (c + int j))"
proof (induction m arbitrary: c)
  case 0
  then show ?case by simp
next
  case (Suc m)
  have shift: "c + 1 + int j = c + int (Suc j)" for j by simp
  show ?case
    unfolding words_from.simps list.inject Suc.IH shift
    by (auto simp: less_Suc_eq_0_disj)
qed

lemma words_from_snoc: "words_from word c (Suc m) = words_from word c m @ [word (c + int m)]"
  using words_from_add [of word c m 1] by simp

text \<open>A stream that agrees on the recorded words gives the same permutation.\<close>

lemma shuffle_rederive:
  assumes "shuffle word step order counter raw = Some (order', raw @ ws)" "step < length order \<or> step = 0"
    and "words_from word' counter (length ws) = ws"
  shows "shuffle word' step order counter raw = Some (order', raw @ ws)"
  using assms
proof (induction step arbitrary: order counter raw ws)
  case 0
  then show ?case by simp
next
  case (Suc step)
  then obtain i c r where d: "drawIndex word (int (Suc step) + 1) counter raw = Some (i, c, r)"
    and rest: "shuffle word step (order[nat i := order ! Suc step, Suc step := order ! nat i]) c r
                 = Some (order', raw @ ws)"
    by (auto split: option.splits)
  from drawIndex_result [OF d] obtain k where
    k: "accept (word (counter + int k)) (int (Suc step) + 1) = Some i" "c = counter + int (Suc k)"
      "r = raw @ words_from word counter (Suc k)"
    and none0: "\<forall>j<k. accept (word (counter + int j)) (int (Suc step) + 1) = None" by auto
  have "step < length (order[nat i := order ! Suc step, Suc step := order ! nat i]) \<or> step = 0"
    using Suc.prems(2) by auto
  from shuffle_result [OF rest this] obtain m where m: "raw @ ws = r @ words_from word c m" by auto
  then have ws: "ws = words_from word counter (Suc k) @ words_from word c m" by (simp add: k(3))
  then have "words_from word' counter (Suc k + m) = words_from word counter (Suc k + m)"
    using Suc.prems(3) by (simp only: length_append length_words_from words_from_add k(2))
  then have same: "\<forall>j<Suc k + m. word' (counter + int j) = word (counter + int j)"
    by (simp only: words_from_cong)
  then have first: "words_from word' counter (Suc k) = words_from word counter (Suc k)"
    by (simp only: words_from_cong) auto
  have "\<forall>j<m. word' (c + int j) = word (c + int j)"
  proof (intro allI impI)
    fix j assume "j < m"
    then show "word' (c + int j) = word (c + int j)"
      using same [rule_format, of "Suc k + j"] by (simp add: k(2) algebra_simps)
  qed
  then have second: "words_from word' c m = words_from word c m" by (simp only: words_from_cong)
  have none: "\<forall>j<k. accept (word' (counter + int j)) (int (Suc step) + 1) = None"
    using none0 same by auto
  have "accept (word' (counter + int k)) (int (Suc step) + 1) = Some i" using k(1) same by simp
  from drawIndex_later [of word' counter k, OF this none]
  have "drawIndex word' (int (Suc step) + 1) counter raw = Some (i, c, r)"
    using k first by (simp only:) simp
  moreover have "shuffle word' step (order[nat i := order ! Suc step, Suc step := order ! nat i]) c r
      = Some (order', r @ words_from word c m)"
    by (rule Suc.IH) (use rest m Suc.prems(2) second in auto)
  ultimately show ?case by (simp add: m)
qed

section \<open>Properties\<close>

text \<open>
  C16: the mapping of a word to an index has no modulo bias. For a
  population of \<open>n\<close> (at most \<open>2 ^ 32\<close>) every index is produced by exactly
  \<open>\<lfloor>2 ^ 32 / n\<rfloor>\<close> of the words.
\<close>

theorem unbiasedIndex_uniform:
  assumes "0 < n" "n \<le> 4294967296" "0 \<le> i" "i < n"
  shows "card {w. unbiasedIndex w n = Inr (Some i)} = nat (4294967296 div n)"
proof -
  have "unbiasedIndex w n = Inr (Some i) \<longleftrightarrow> accept w n = Some i" for w
    using assms(1,2) by (auto simp: accept_def unbiasedIndex_def safe_int_def max_safe_def Let_def)
  then show ?thesis using card_accepted [OF assms] by simp
qed

lemma unbiasedIndex_uniform_witness: "card {w. unbiasedIndex w 3 = Inr (Some 2)} = 1431655765"
  using unbiasedIndex_uniform [of 3 2] by simp

text \<open>
  C17: a permutation that is returned is one. It contains every index
  below the size exactly once, and the recorded words are those of consecutive counters from the
  first, at least one per swap.
\<close>

theorem permutationOf_permutation:
  assumes "permutationOf hmac i n = Some (order, raw)"
  shows "mset order = mset (map int [0..<n]) \<and> n - 1 \<le> length raw
    \<and> raw = map (\<lambda>j. word_at hmac i (di_counter i + int j)) [0..<length raw]"
proof -
  have "mset order = mset (map int [0..<n])
      \<and> (\<exists>m\<ge>n - 1. raw = [] @ words_from (word_at hmac i) (di_counter i) m)"
    by (rule shuffle_result [OF assms [unfolded permutationOf_def]]) auto
  moreover have "words_from w c m = map (\<lambda>j. w (c + int j)) [0..<m]" for w c m
    by (induction m arbitrary: c) (simp_all add: words_from_snoc del: words_from.simps(2))
  ultimately show ?thesis by auto
qed

lemma drawIndex_zero:
  assumes "0 < n" "n \<le> 4294967296"
  shows "drawIndex (\<lambda>_. 0) n c raw = Some (0, c + 1, raw @ [0])"
proof -
  have "0 < 4294967296 div n" using assms by (simp add: pos_imp_zdiv_pos_iff)
  then have "0 < 4294967296 div n * n" using assms(1) by simp
  then have "accept 0 n = Some 0" using assms by (simp add: accept_eq max_safe_def)
  then show ?thesis by (subst drawIndex.simps) simp
qed

definition sample_draw :: draw_input where
  "sample_draw = \<lparr>di_masterSeed = js ''s'', di_runId = js ''r'', di_stream = js ''split'', di_counter = 7\<rparr>"

lemma sample_permutation: "permutationOf (\<lambda>_ _. 0) sample_draw 3 = Some ([1, 2, 0], [0, 0])"
proof -
  have w: "word_at (\<lambda>_ _. 0) sample_draw = (\<lambda>_. 0)" by (simp add: word_at_def drawWords_def fun_eq_iff)
  show ?thesis
    by (simp add: permutationOf_def w numeral_2_eq_2 drawIndex_zero upt_rec)
qed

lemma permutationOf_permutation_witness:
  "mset [1, 2, 0] = mset (map int [0..<3]) \<and> 3 - 1 \<le> length [0, 0 :: 32 word]
   \<and> [0, 0] = map (\<lambda>j. word_at (\<lambda>_ _. 0) sample_draw (di_counter sample_draw + int j)) [0..<length [0, 0 :: 32 word]]"
  by (rule permutationOf_permutation [OF sample_permutation])

text \<open>
  A permutation re-derives from its receipt. Any stream that gives
  the recorded words at the recorded counters gives the same order and the same record.
\<close>

theorem permutationOf_rederives:
  assumes "permutationOf hmac i n = Some (order, raw)"
    and "raw = map (\<lambda>j. word_at hmac' i (di_counter i + int j)) [0..<length raw]"
  shows "permutationOf hmac' i n = Some (order, raw)"
proof -
  have w: "words_from w c m = map (\<lambda>j. w (c + int j)) [0..<m]" for w c m
    by (induction m arbitrary: c) (simp_all add: words_from_snoc del: words_from.simps(2))
  have "shuffle (word_at hmac i) (n - 1) (map int [0..<n]) (di_counter i) [] = Some (order, [] @ raw)"
    using assms(1) by (simp add: permutationOf_def)
  then have "shuffle (word_at hmac' i) (n - 1) (map int [0..<n]) (di_counter i) [] = Some (order, [] @ raw)"
    by (rule shuffle_rederive) (use assms(2) in \<open>auto simp: w\<close>)
  then show ?thesis by (simp add: permutationOf_def)
qed

lemma permutationOf_rederives_witness:
  "permutationOf (\<lambda>k m. if k = js ''s'' then 0 else 1) sample_draw 3 = Some ([1, 2, 0], [0, 0])"
  by (rule permutationOf_rederives [OF sample_permutation])
    (simp add: word_at_def drawWords_def sample_draw_def numeral_2_eq_2)

text \<open>
  A permutation is returned whenever the stream does not reject for
  ever: if from every counter on some word is accepted for every population up to the size, the
  shuffle ends.
\<close>

theorem permutationOf_returns:
  assumes "\<forall>c m. 0 < m \<and> m \<le> int n \<longrightarrow> (\<exists>k. accept (word_at hmac i (c + int k)) m \<noteq> None)"
  shows "\<exists>order raw. permutationOf hmac i n = Some (order, raw)"
proof -
  have "\<exists>r. shuffle (word_at hmac i) (n - 1) (map int [0..<n]) (di_counter i) [] = Some r"
  proof (cases n)
    case 0
    then show ?thesis by simp
  next
    case (Suc m)
    then show ?thesis using assms by (intro shuffle_returns) auto
  qed
  then show ?thesis by (auto simp: permutationOf_def)
qed

lemma permutationOf_returns_witness:
  "\<exists>order raw. permutationOf (\<lambda>_ _. 0) sample_draw 3 = Some (order, raw)"
proof (rule permutationOf_returns, intro allI impI)
  fix c m :: int
  assume "0 < m \<and> m \<le> int 3"
  then have "m = 1 \<or> m = 2 \<or> m = 3" by auto
  then show "\<exists>k. accept (word_at (\<lambda>_ _. 0) sample_draw (c + int k)) m \<noteq> None"
    by (auto simp: word_at_def drawWords_def accept_eq max_safe_def)
qed

end
