(* ===== verification/ObjectStore.thy ===== *)
theory ObjectStore
  imports CanonicalJson
begin

text \<open>
  Model of \<^verbatim>\<open>packages/dsh-evolve-le/src/state/object-store.ts\<close>: content-addressed
  publication and verification. The directory \<^verbatim>\<open>objects/sha256\<close> is a map from digests to what
  sits at their path; staging directories are private to a \<open>put\<close> and do not appear. The
  hash of bytes is the argument \<open>sha\<close>. What other writers publish between the existence
  check and the link of a \<open>put\<close> is the argument \<open>meanwhile\<close>; a link that fails although its
  name is free (a full disk) is not modelled.
\<close>

type_synonym bytes = "8 word list"

datatype node = Regular bytes | Special

type_synonym objects = "(jstring \<times> node) list"

section \<open>References\<close>

definition LABELS :: "jstring list" where
  "LABELS = map js [''PUBLIC_SPEC'', ''DEV_OBSERVED'', ''DEV_GUARD'', ''SEALED'', ''CONTROLLER_INTERNAL'']"

definition os_err :: "string \<Rightarrow> jserror" where
  "os_err m = (ObjectStoreError, m)"

definition validateRef :: "jsval \<Rightarrow> unit res" where
  "validateRef v =
     (let r = obj_of v in
      ensure (is_plain_object v) (os_err ''ref must be an object'')
     (ensure (length r = 5 \<and> field_set r = js ''algorithm,digest,label,mediaType,size'')
        (os_err ''wrong field set'')
     (ensure (fget r (js ''algorithm'') = JStr (js ''sha256'')) (os_err ''algorithm must be sha256'')
     (ensure (is_str (fget r (js ''digest'')) \<and> hex64 (str_of (fget r (js ''digest''))))
        (os_err ''digest must be 64-hex'')
     (ensure (is_safe_number (fget r (js ''size'')) \<and> 0 \<le> num_of (fget r (js ''size'')))
        (os_err ''size must be a non-negative safe integer'')
     (ensure (is_nonempty_str (fget r (js ''mediaType''))) (os_err ''mediaType must be a non-empty string'')
     (ensure (is_str (fget r (js ''label'')) \<and> str_of (fget r (js ''label'')) \<in> set LABELS)
        (os_err ''unknown label'')
     (Inr ()))))))))"

definition ref_digest :: "jsval \<Rightarrow> jstring" where
  "ref_digest v = str_of (fget (obj_of v) (js ''digest''))"

definition ref_size :: "jsval \<Rightarrow> int" where
  "ref_size v = num_of (fget (obj_of v) (js ''size''))"

text \<open>The reference \<open>put\<close> returns.\<close>

definition make_ref :: "(bytes \<Rightarrow> jstring) \<Rightarrow> bytes \<Rightarrow> jstring \<Rightarrow> jstring \<Rightarrow> jsval" where
  "make_ref sha bs mediaType label =
     JObj [(js ''algorithm'', JStr (js ''sha256'')), (js ''digest'', JStr (sha bs)),
           (js ''size'', JNum (int (length bs))), (js ''mediaType'', JStr mediaType),
           (js ''label'', JStr label)]"

section \<open>Operations\<close>

definition verify :: "(bytes \<Rightarrow> jstring) \<Rightarrow> objects \<Rightarrow> jsval \<Rightarrow> unit res" where
  "verify sha objs ref =
     bindR (validateRef ref) (\<lambda>_.
       case map_of objs (ref_digest ref) of
         None \<Rightarrow> Inl (os_err ''object is missing'')
       | Some Special \<Rightarrow> Inl (os_err ''object is not a regular file'')
       | Some (Regular bs) \<Rightarrow>
           ensure (int (length bs) = ref_size ref) (os_err ''object size mismatch'')
             (ensure (sha bs = ref_digest ref) (os_err ''object content hash mismatch'') (Inr ())))"

text \<open>\<open>verifyBytes\<close>; reading a directory or a dangling link raises the platform's error.\<close>

definition verifyBytes :: "node \<Rightarrow> bytes \<Rightarrow> unit res" where
  "verifyBytes n expected =
     (case n of
        Special \<Rightarrow> Inl (PlainError, ''read'')
      | Regular current \<Rightarrow>
          ensure (current = expected) (os_err ''object already exists with different bytes'') (Inr ()))"

text \<open>
  \<open>link\<close> of the staged file under its digest: it fails when the name is taken, and never
  overwrites.
\<close>

definition publish :: "(bytes \<Rightarrow> jstring) \<Rightarrow> objects \<Rightarrow> bytes \<Rightarrow> objects \<times> unit res" where
  "publish sha objs bs =
     (case map_of objs (sha bs) of
        None \<Rightarrow> (AList.update (sha bs) (Regular bs) objs, Inr ())
      | Some n \<Rightarrow> (objs, verifyBytes n bs))"

definition put_object ::
  "(bytes \<Rightarrow> jstring) \<Rightarrow> (objects \<Rightarrow> objects) \<Rightarrow> objects \<Rightarrow> bytes \<Rightarrow> jstring \<Rightarrow> jstring
     \<Rightarrow> objects \<times> jsval res" where
  "put_object sha meanwhile objs bs mediaType label =
     (let ref = make_ref sha bs mediaType label in
      case map_of objs (sha bs) of
        Some n \<Rightarrow> (objs, bindR (verifyBytes n bs) (\<lambda>_. Inr ref))
      | None \<Rightarrow>
          (case publish sha (meanwhile objs) bs of
             (objs', r) \<Rightarrow> (objs', bindR r (\<lambda>_. Inr ref))))"

definition read_object :: "(bytes \<Rightarrow> jstring) \<Rightarrow> objects \<Rightarrow> jsval \<Rightarrow> bytes res" where
  "read_object sha objs ref =
     bindR (verify sha objs ref) (\<lambda>_.
       case map_of objs (ref_digest ref) of
         Some (Regular bs) \<Rightarrow> Inr bs
       | _ \<Rightarrow> Inl (PlainError, ''read''))"

definition scrub :: "(bytes \<Rightarrow> jstring) \<Rightarrow> objects \<Rightarrow> jsval list \<Rightarrow> int res" where
  "scrub sha objs refs = bindR (eachR (verify sha objs) refs) (\<lambda>_. Inr (int (length refs)))"

definition listObjectDigests :: "objects \<Rightarrow> jstring list" where
  "listObjectDigests objs = sort (map fst objs)"

section \<open>Lemmas\<close>

lemma make_ref_fields [simp]:
  "ref_digest (make_ref sha bs m l) = sha bs" "ref_size (make_ref sha bs m l) = int (length bs)"
  by (simp_all add: ref_digest_def ref_size_def make_ref_def)



lemma verify_iff:
  "verify sha objs ref = Inr () \<longleftrightarrow>
     validateRef ref = Inr ()
     \<and> (\<exists>bs. map_of objs (ref_digest ref) = Some (Regular bs) \<and> int (length bs) = ref_size ref
            \<and> sha bs = ref_digest ref)"
  by (auto simp: verify_def res_simps split: option.splits node.splits)

text \<open>No operation of another writer removes or changes a published object.\<close>

definition no_clobber :: "(objects \<Rightarrow> objects) \<Rightarrow> bool" where
  "no_clobber f \<longleftrightarrow> (\<forall>objs. map_of objs \<subseteq>\<^sub>m map_of (f objs))"

lemma put_no_clobber: "no_clobber (\<lambda>objs. fst (put_object sha id objs bs m l))"
  by (auto simp: no_clobber_def put_object_def publish_def map_le_def Let_def split: option.splits)


section \<open>Properties\<close>



text \<open>
  Publication never changes or removes an object: after any \<open>put\<close>,
  successful or not, every digest that other writers or earlier puts had published still holds
  what it held.
\<close>

theorem put_never_overwrites:
  assumes "no_clobber meanwhile" "map_of objs d = Some n"
  shows "map_of (fst (put_object sha meanwhile objs bs m l)) d = Some n"
proof -
  have "map_of (meanwhile objs) d = Some n"
    using assms by (auto simp: no_clobber_def map_le_def dom_def)
  then show ?thesis
    using assms(2) by (auto simp: put_object_def publish_def Let_def split: option.splits)
qed

lemma put_never_overwrites_witness:
  "map_of (fst (put_object (\<lambda>_. js ''d'') id [(js ''d'', Special)] [1] (js ''m'') (js ''SEALED''))) (js ''d'')
     = Some Special"
  by (rule put_never_overwrites) (simp_all add: no_clobber_def)

text \<open>
  Bytes that are read are the bytes the reference names. They hash to
  the digest of the reference and have its size, so two reads under one digest agree or
  the hash collides.
\<close>

theorem read_object_authentic:
  "read_object sha objs ref = Inr bs \<longleftrightarrow>
     validateRef ref = Inr () \<and> map_of objs (ref_digest ref) = Some (Regular bs)
     \<and> sha bs = ref_digest ref \<and> int (length bs) = ref_size ref"
  by (auto simp: read_object_def bindR_Inr_iff verify_iff split: option.splits node.splits)

end
