(* ===== verification/TransitionTable.thy ===== *)
theory TransitionTable
  imports Prelude
begin

text \<open>
  The interface of a status field driven by a table of allowed edges, as the reducer has three
  of them (run phase, action, candidate): the statuses in their declaration order, and the
  fact that every edge goes forward in that order. \<open>Reducer\<close> interprets it for each table.
\<close>

locale transition_table =
  fixes edges :: "'s :: linorder \<Rightarrow> 's list"
  assumes forward: "t \<in> set (edges s) \<Longrightarrow> s < t"
begin

text \<open>A history: each status is the first, or reached from the one before it by an edge.\<close>

inductive history :: "'s list \<Rightarrow> bool" where
  start: "history [s]"
| move: "history (h @ [s]) \<Longrightarrow> t \<in> set (edges s) \<Longrightarrow> history (h @ [s, t])"

lemma history_sorted: "history h \<Longrightarrow> sorted_wrt (<) h"
proof (induction rule: history.induct)
  case (start s)
  then show ?case by simp
next
  case (move h s t)
  then have "s < t" by (intro forward)
  with move.IH show ?case by (fastforce simp: sorted_wrt_append)
qed

lemma history_distinct: "history h \<Longrightarrow> distinct h"
  using history_sorted strict_sorted_iff by blast

lemma no_edge_to_self: "s \<notin> set (edges s)"
  using forward by blast

text \<open>A status without edges ends every history it occurs in.\<close>

lemma terminal_last: "history h \<Longrightarrow> s \<in> set h \<Longrightarrow> edges s = [] \<Longrightarrow> last h = s"
proof (induction rule: history.induct)
  case (start r)
  then show ?case by simp
next
  case (move h r t)
  show ?case
  proof (cases "s = t")
    case False
    with move.prems have "last (h @ [r]) = s" by (intro move.IH) auto
    with move.hyps move.prems show ?thesis by auto
  qed simp
qed

end

end
