(* ===== verification/RunState.thy ===== *)
theory RunState
  imports Budget Rng ObjectStore TransitionTable
begin

text \<open>
  The state kept by \<^verbatim>\<open>packages/dsh-evolve-le/src/state/reducer.ts\<close>: phases, action and candidate
  statuses with their edge tables, the records of the state, and the initial state.
  Collections keyed by data are association lists; observations, RNG receipts, artifact
  references and budget items are kept as the values the events carry.
\<close>

section \<open>Phases, actions, candidates\<close>

datatype phase =
    DRAFT | PREFLIGHT | CALIBRATED | SEARCHING | CANDIDATE_LOCKED | SEALED_EVALUATED | PROMOTED
  | REJECTED | FULL_EVALUATED | RELEASED | PREFLIGHT_FAILED | CALIBRATION_INFEASIBLE
  | BUDGET_EXHAUSTED | SAFETY_ABORTED | EVIDENCE_CORRUPT | PROTOCOL_INVALID | OPERATOR_STOPPED
  | NO_DEVELOPMENT_IMPROVEMENT

definition ALL_PHASES :: "phase list" where
  "ALL_PHASES =
     [DRAFT, PREFLIGHT, CALIBRATED, SEARCHING, CANDIDATE_LOCKED, SEALED_EVALUATED, PROMOTED,
      REJECTED, FULL_EVALUATED, RELEASED, PREFLIGHT_FAILED, CALIBRATION_INFEASIBLE,
      BUDGET_EXHAUSTED, SAFETY_ABORTED, EVIDENCE_CORRUPT, PROTOCOL_INVALID, OPERATOR_STOPPED,
      NO_DEVELOPMENT_IMPROVEMENT]"

fun phase_name :: "phase \<Rightarrow> jstring" where
  "phase_name DRAFT = js ''DRAFT''"
| "phase_name PREFLIGHT = js ''PREFLIGHT''"
| "phase_name CALIBRATED = js ''CALIBRATED''"
| "phase_name SEARCHING = js ''SEARCHING''"
| "phase_name CANDIDATE_LOCKED = js ''CANDIDATE_LOCKED''"
| "phase_name SEALED_EVALUATED = js ''SEALED_EVALUATED''"
| "phase_name PROMOTED = js ''PROMOTED''"
| "phase_name REJECTED = js ''REJECTED''"
| "phase_name FULL_EVALUATED = js ''FULL_EVALUATED''"
| "phase_name RELEASED = js ''RELEASED''"
| "phase_name PREFLIGHT_FAILED = js ''PREFLIGHT_FAILED''"
| "phase_name CALIBRATION_INFEASIBLE = js ''CALIBRATION_INFEASIBLE''"
| "phase_name BUDGET_EXHAUSTED = js ''BUDGET_EXHAUSTED''"
| "phase_name SAFETY_ABORTED = js ''SAFETY_ABORTED''"
| "phase_name EVIDENCE_CORRUPT = js ''EVIDENCE_CORRUPT''"
| "phase_name PROTOCOL_INVALID = js ''PROTOCOL_INVALID''"
| "phase_name OPERATOR_STOPPED = js ''OPERATOR_STOPPED''"
| "phase_name NO_DEVELOPMENT_IMPROVEMENT = js ''NO_DEVELOPMENT_IMPROVEMENT''"

definition EARLY_TERMINALS :: "phase list" where
  "EARLY_TERMINALS =
     [PREFLIGHT_FAILED, CALIBRATION_INFEASIBLE, BUDGET_EXHAUSTED, SAFETY_ABORTED,
      EVIDENCE_CORRUPT, PROTOCOL_INVALID, OPERATOR_STOPPED, NO_DEVELOPMENT_IMPROVEMENT]"

fun PHASE_EDGES :: "phase \<Rightarrow> phase list" where
  "PHASE_EDGES DRAFT = PREFLIGHT # EARLY_TERMINALS"
| "PHASE_EDGES PREFLIGHT =
     CALIBRATED # PREFLIGHT_FAILED # filter (\<lambda>p. p \<noteq> PREFLIGHT_FAILED) EARLY_TERMINALS"
| "PHASE_EDGES CALIBRATED =
     SEARCHING # CALIBRATION_INFEASIBLE # filter (\<lambda>p. p \<noteq> CALIBRATION_INFEASIBLE) EARLY_TERMINALS"
| "PHASE_EDGES SEARCHING = CANDIDATE_LOCKED # EARLY_TERMINALS"
| "PHASE_EDGES CANDIDATE_LOCKED = SEALED_EVALUATED # EARLY_TERMINALS"
| "PHASE_EDGES SEALED_EVALUATED = PROMOTED # REJECTED # EARLY_TERMINALS"
| "PHASE_EDGES PROMOTED = FULL_EVALUATED # EARLY_TERMINALS"
| "PHASE_EDGES REJECTED = FULL_EVALUATED # EARLY_TERMINALS"
| "PHASE_EDGES FULL_EVALUATED = RELEASED # EARLY_TERMINALS"
| "PHASE_EDGES _ = []"

definition isTerminalPhase :: "phase \<Rightarrow> bool" where
  "isTerminalPhase p \<longleftrightarrow> PHASE_EDGES p = []"

datatype action_status =
  PLANNED | RESERVED | LAUNCHING | RUNNING | COLLECTING | COMMITTED | FAILED | CANCELLED | ABANDONED

definition ALL_ACTION_STATUSES :: "action_status list" where
  "ALL_ACTION_STATUSES =
     [PLANNED, RESERVED, LAUNCHING, RUNNING, COLLECTING, COMMITTED, FAILED, CANCELLED, ABANDONED]"

fun action_status_name :: "action_status \<Rightarrow> jstring" where
  "action_status_name PLANNED = js ''PLANNED''"
| "action_status_name RESERVED = js ''RESERVED''"
| "action_status_name LAUNCHING = js ''LAUNCHING''"
| "action_status_name RUNNING = js ''RUNNING''"
| "action_status_name COLLECTING = js ''COLLECTING''"
| "action_status_name COMMITTED = js ''COMMITTED''"
| "action_status_name FAILED = js ''FAILED''"
| "action_status_name CANCELLED = js ''CANCELLED''"
| "action_status_name ABANDONED = js ''ABANDONED''"

fun ACTION_EDGES :: "action_status \<Rightarrow> action_status list" where
  "ACTION_EDGES PLANNED = [RESERVED]"
| "ACTION_EDGES RESERVED = [LAUNCHING, RUNNING, FAILED, CANCELLED, ABANDONED]"
| "ACTION_EDGES LAUNCHING = [RUNNING, FAILED, CANCELLED, ABANDONED]"
| "ACTION_EDGES RUNNING = [COLLECTING, FAILED, CANCELLED, ABANDONED]"
| "ACTION_EDGES COLLECTING = [COMMITTED, FAILED, CANCELLED, ABANDONED]"
| "ACTION_EDGES _ = []"

datatype candidate_status =
  Registered | Admitted | DevChampion | Locked | SealedEvaluated | Promoted | Rejected | FullEvaluated

definition ALL_CANDIDATE_STATUSES :: "candidate_status list" where
  "ALL_CANDIDATE_STATUSES =
     [Registered, Admitted, DevChampion, Locked, SealedEvaluated, Promoted, Rejected, FullEvaluated]"

fun candidate_status_name :: "candidate_status \<Rightarrow> jstring" where
  "candidate_status_name Registered = js ''registered''"
| "candidate_status_name Admitted = js ''admitted''"
| "candidate_status_name DevChampion = js ''dev-champion''"
| "candidate_status_name Locked = js ''locked''"
| "candidate_status_name SealedEvaluated = js ''sealed-evaluated''"
| "candidate_status_name Promoted = js ''promoted''"
| "candidate_status_name Rejected = js ''rejected''"
| "candidate_status_name FullEvaluated = js ''full-evaluated''"

fun CANDIDATE_EDGES :: "candidate_status \<Rightarrow> candidate_status list" where
  "CANDIDATE_EDGES Registered = [Admitted, DevChampion]"
| "CANDIDATE_EDGES Admitted = [DevChampion]"
| "CANDIDATE_EDGES DevChampion = [Locked]"
| "CANDIDATE_EDGES Locked = [SealedEvaluated]"
| "CANDIDATE_EDGES SealedEvaluated = [Promoted, Rejected]"
| "CANDIDATE_EDGES Promoted = [FullEvaluated]"
| "CANDIDATE_EDGES Rejected = [FullEvaluated]"
| "CANDIDATE_EDGES FullEvaluated = []"

text \<open>
  The statuses in declaration order. Every edge of every table goes forward in it, so the
  interface of \<open>TransitionTable\<close> applies to all three.
\<close>

definition phase_rank :: "phase \<Rightarrow> nat" where
  "phase_rank p = length (takeWhile (\<lambda>q. q \<noteq> p) ALL_PHASES)"

definition action_rank :: "action_status \<Rightarrow> nat" where
  "action_rank a = length (takeWhile (\<lambda>b. b \<noteq> a) ALL_ACTION_STATUSES)"

definition candidate_rank :: "candidate_status \<Rightarrow> nat" where
  "candidate_rank c = length (takeWhile (\<lambda>d. d \<noteq> c) ALL_CANDIDATE_STATUSES)"

lemma phase_rank_nth: "ALL_PHASES ! phase_rank p = p"
  by (cases p) (simp_all add: phase_rank_def ALL_PHASES_def)

lemma action_rank_nth: "ALL_ACTION_STATUSES ! action_rank a = a"
  by (cases a) (simp_all add: action_rank_def ALL_ACTION_STATUSES_def)

lemma candidate_rank_nth: "ALL_CANDIDATE_STATUSES ! candidate_rank c = c"
  by (cases c) (simp_all add: candidate_rank_def ALL_CANDIDATE_STATUSES_def)

lemma rank_inject:
  "phase_rank p = phase_rank q \<longleftrightarrow> p = q" "action_rank a = action_rank b \<longleftrightarrow> a = b"
  "candidate_rank c = candidate_rank d \<longleftrightarrow> c = d"
  using phase_rank_nth action_rank_nth candidate_rank_nth by metis+

instantiation phase :: linorder
begin

definition less_eq_phase :: "phase \<Rightarrow> phase \<Rightarrow> bool" where
  "less_eq_phase p q \<longleftrightarrow> phase_rank p \<le> phase_rank q"

definition less_phase :: "phase \<Rightarrow> phase \<Rightarrow> bool" where
  "less_phase p q \<longleftrightarrow> phase_rank p < phase_rank q"

instance
  by standard (auto simp: less_eq_phase_def less_phase_def rank_inject)

end

instantiation action_status :: linorder
begin

definition less_eq_action_status :: "action_status \<Rightarrow> action_status \<Rightarrow> bool" where
  "less_eq_action_status p q \<longleftrightarrow> action_rank p \<le> action_rank q"

definition less_action_status :: "action_status \<Rightarrow> action_status \<Rightarrow> bool" where
  "less_action_status p q \<longleftrightarrow> action_rank p < action_rank q"

instance
  by standard (auto simp: less_eq_action_status_def less_action_status_def rank_inject)

end

instantiation candidate_status :: linorder
begin

definition less_eq_candidate_status :: "candidate_status \<Rightarrow> candidate_status \<Rightarrow> bool" where
  "less_eq_candidate_status p q \<longleftrightarrow> candidate_rank p \<le> candidate_rank q"

definition less_candidate_status :: "candidate_status \<Rightarrow> candidate_status \<Rightarrow> bool" where
  "less_candidate_status p q \<longleftrightarrow> candidate_rank p < candidate_rank q"

instance
  by standard (auto simp: less_eq_candidate_status_def less_candidate_status_def rank_inject)

end

interpretation pt: transition_table PHASE_EDGES
proof unfold_locales
  fix s t :: phase
  show "t \<in> set (PHASE_EDGES s) \<Longrightarrow> s < t"
    by (cases s) (auto simp: less_phase_def phase_rank_def ALL_PHASES_def EARLY_TERMINALS_def)
qed

interpretation act: transition_table ACTION_EDGES
proof unfold_locales
  fix s t :: action_status
  show "t \<in> set (ACTION_EDGES s) \<Longrightarrow> s < t"
    by (cases s) (auto simp: less_action_status_def action_rank_def ALL_ACTION_STATUSES_def)
qed

interpretation cd: transition_table CANDIDATE_EDGES
proof unfold_locales
  fix s t :: candidate_status
  show "t \<in> set (CANDIDATE_EDGES s) \<Longrightarrow> s < t"
    by (cases s) (auto simp: less_candidate_status_def candidate_rank_def ALL_CANDIDATE_STATUSES_def)
qed

text \<open>A string read as a status name.\<close>

definition as_phase :: "jstring \<Rightarrow> phase option" where
  "as_phase s = List.find (\<lambda>p. phase_name p = s) ALL_PHASES"

definition as_action_status :: "jstring \<Rightarrow> action_status option" where
  "as_action_status s = List.find (\<lambda>a. action_status_name a = s) ALL_ACTION_STATUSES"

definition as_candidate_status :: "jstring \<Rightarrow> candidate_status option" where
  "as_candidate_status s = List.find (\<lambda>c. candidate_status_name c = s) ALL_CANDIDATE_STATUSES"

section \<open>State\<close>

record action_state =
  act_actionId :: jstring
  act_kind :: jstring
  act_status :: action_status
  act_idempotencyKey :: jstring
  act_waveId :: "jstring option"
  act_reservationSeq :: int
  act_externalJobId :: "jstring option"
  act_artifacts :: "jsval list"
  act_requestHash :: jstring
  act_budgetReservations :: jsval
  act_failure :: "jstring option"

datatype wave_status = WaveOpen | WaveCommitted

record wave_state =
  wv_waveId :: jstring
  wv_split :: jsval
  wv_members :: "jstring list"
  wv_status :: wave_status
  wv_decisionSnapshotHash :: "jstring option"

record candidate_state =
  cd_candidateId :: jstring
  cd_sourceHash :: jstring
  cd_parentCandidateId :: "jstring option"
  cd_proposalActionId :: "jstring option"
  cd_status :: candidate_status

record run_state =
  rs_runId :: jstring
  rs_seq :: int
  rs_lastEventHash :: jsval
  rs_phase :: phase
  rs_phaseEnteredAtSeq :: int
  rs_actions :: "action_state dict"
  rs_waves :: "wave_state dict"
  rs_candidates :: "candidate_state dict"
  rs_observations :: "jsval dict"
  rs_rngReceipts :: "jsval dict"
  rs_budget :: "(budget_dimension \<times> budget_totals) list"
  rs_budgetByAction :: "(budget_dimension \<times> action_balance) list dict"
  rs_externalJobs :: "jstring dict"
  rs_candidateLock :: "(jstring \<times> jstring) option"
  rs_sealedRevealed :: "jstring option"
  rs_reservationCounter :: int
  rs_evidence :: "jsval dict option"

record reducer_config =
  rc_runId :: jstring
  rc_budgetLimits :: budget_limits

definition GENESIS_PREVIOUS_HASH :: jstring where
  "GENESIS_PREVIOUS_HASH = js ''sha256:'' @ replicate 64 (digit 0)"

definition initialState :: "reducer_config \<Rightarrow> run_state" where
  "initialState c =
     \<lparr>rs_runId = rc_runId c, rs_seq = 0, rs_lastEventHash = JStr GENESIS_PREVIOUS_HASH,
      rs_phase = DRAFT, rs_phaseEnteredAtSeq = 0, rs_actions = [], rs_waves = [],
      rs_candidates = [], rs_observations = [], rs_rngReceipts = [], rs_budget = [],
      rs_budgetByAction = [], rs_externalJobs = [], rs_candidateLock = None,
      rs_sealedRevealed = None, rs_reservationCounter = 0, rs_evidence = None\<rparr>"

end
