(* ===== verification/Payload.thy ===== *)
theory Payload
  imports RunState
begin

text \<open>
  Model of \<open>validatePayload\<close> and \<open>validateObservation\<close> of
  \<^verbatim>\<open>packages/dsh-evolve-le/src/state/reducer.ts\<close>: one validator per event type, and the dispatch on
  the type. Reading a collection also finds the names of \<open>Object.prototype\<close>
  (\<open>proto_names\<close>), as the code's plain objects do.
\<close>

section \<open>Payload validation\<close>

definition r_err :: "string \<Rightarrow> jserror" where
  "r_err m = (ReducerError, m)"

definition expect_fields :: "fields \<Rightarrow> string \<Rightarrow> unit res \<Rightarrow> unit res" where
  "expect_fields p wanted k = ensure (field_set p = js wanted) (r_err ''payload fields'') k"

text \<open>\<open>nonEmptyString(payload[f], f)\<close>.\<close>

definition need_str :: "fields \<Rightarrow> string \<Rightarrow> unit res \<Rightarrow> unit res" where
  "need_str p f k =
     ensure (is_nonempty_str (fget p (js f))) (r_err (f @ '' must be a non-empty string'')) k"

definition str_or_null :: "jsval \<Rightarrow> bool" where
  "str_or_null v \<longleftrightarrow> v = JNull \<or> is_str v"

definition validate_phase_changed :: "fields \<Rightarrow> unit res" where
  "validate_phase_changed p =
     expect_fields p ''reason,to'' (need_str p ''to''
       (ensure (is_str (fget p (js ''reason''))) (r_err ''reason must be a string'') (Inr ())))"

definition validate_budget_item :: "jsval \<Rightarrow> unit res" where
  "validate_budget_item item =
     bindR (shape_of item) (\<lambda>ks.
       ensure (ks = js ''amount,dimension'') (r_err ''budget item fields'')
         (ensure (is_safe_number (fget (obj_of item) (js ''amount''))
                  \<and> 0 < num_of (fget (obj_of item) (js ''amount'')))
            (r_err ''budget amount must be a positive safe integer'')
         (ensure (is_nonempty_str (fget (obj_of item) (js ''dimension'')))
            (r_err ''budget dimension must be non-empty'') (Inr ()))))"

text \<open>\<open>canonicalJson(v)\<close> called for its exception.\<close>

definition representable :: "jsval \<Rightarrow> unit res \<Rightarrow> unit res" where
  "representable v k = bindR (canonicalJson v) (\<lambda>_. k)"

definition validate_reserved :: "fields \<Rightarrow> unit res" where
  "validate_reserved p =
     expect_fields p ''actionId,budget,idempotencyKey,kind,request,waveId''
     (need_str p ''actionId'' (need_str p ''kind'' (need_str p ''idempotencyKey''
     (ensure (is_object (fget p (js ''request''))) (r_err ''request must be an object'')
     (ensure (str_or_null (fget p (js ''waveId''))) (r_err ''waveId must be a string or null'')
     (ensure (is_arr (fget p (js ''budget''))) (r_err ''budget must be an array'')
     (bindR (eachR validate_budget_item (arr_of (fget p (js ''budget'')))) (\<lambda>_.
       representable (fget p (js ''request'')) (Inr ())))))))))"

definition validate_launched :: "fields \<Rightarrow> unit res" where
  "validate_launched p =
     expect_fields p ''actionId,externalJobId,provider''
     (need_str p ''actionId'' (need_str p ''externalJobId'' (need_str p ''provider'' (Inr ()))))"

definition validate_observed_terminal :: "fields \<Rightarrow> unit res" where
  "validate_observed_terminal p =
     expect_fields p ''actionId,fact''
     (need_str p ''actionId''
     (ensure (is_object (fget p (js ''fact''))) (r_err ''fact must be an object'')
     (representable (fget p (js ''fact'')) (Inr ()))))"

definition validate_evidence :: "fields \<Rightarrow> unit res" where
  "validate_evidence p =
     expect_fields p ''artifact,key'' (need_str p ''key'' (validateRef (fget p (js ''artifact''))))"

definition validate_artifact_collected :: "fields \<Rightarrow> unit res" where
  "validate_artifact_collected p =
     expect_fields p ''actionId,artifact''
     (need_str p ''actionId''
     (ensure (is_object (fget p (js ''artifact''))) (r_err ''artifact must be an object ref'')
     (representable (fget p (js ''artifact'')) (Inr ()))))"

text \<open>\<open>/^DSHCANARY_[0-9a-f]{32}$/\<close> of \<^verbatim>\<open>proposer/canary.ts\<close>.\<close>

definition canary_pattern :: "jstring \<Rightarrow> bool" where
  "canary_pattern s \<longleftrightarrow>
     starts_with (js ''DSHCANARY_'') s \<and> length s = 42 \<and> list_all is_lower_hex (drop 10 s)"

definition one_of :: "jsval \<Rightarrow> string list \<Rightarrow> bool" where
  "one_of v ss \<longleftrightarrow> (\<exists>s\<in>set ss. v = JStr (js s))"

definition null_or_count :: "jsval \<Rightarrow> bool" where
  "null_or_count v \<longleftrightarrow> v = JNull \<or> (is_safe_number v \<and> 0 \<le> num_of v)"

definition observation_fields :: "jstring \<Rightarrow> bool" where
  "observation_fields ks \<longleftrightarrow>
     ks = js ''actionId,attempt,candidateId,costUsdMicros,durationMs,opaqueTaskId,outcome,reward,split''
     \<or> ks = js ''actionId,attempt,candidateId,costUsdMicros,durationMs,infoFlowGuardCanary,opaqueTaskId,outcome,reward,split''"

definition validateObservation :: "jsval \<Rightarrow> unit res" where
  "validateObservation v =
     (let g = (\<lambda>f. fget (obj_of v) (js f)) in
      bindR (shape_of v) (\<lambda>ks.
      ensure (observation_fields ks) (r_err ''observation fields'')
     (ensure (g ''infoFlowGuardCanary'' = JUndef
              \<or> (is_str (g ''infoFlowGuardCanary'') \<and> canary_pattern (str_of (g ''infoFlowGuardCanary''))))
        (r_err ''observation.infoFlowGuardCanary must be a canary token'')
     (ensure (is_nonempty_str (g ''actionId'') \<and> is_nonempty_str (g ''candidateId'')
              \<and> is_nonempty_str (g ''opaqueTaskId'')) (r_err ''observation field must be a non-empty string'')
     (ensure (one_of (g ''split'') [''dev-observed'', ''dev-guard''])
        (r_err ''observation.split must be dev-observed/dev-guard'')
     (ensure (is_safe_number (g ''attempt'') \<and> 1 \<le> num_of (g ''attempt''))
        (r_err ''observation.attempt must be a positive safe integer'')
     (ensure (one_of (g ''outcome'') [''success'', ''failure'', ''missing'', ''timeout''])
        (r_err ''observation.outcome is unknown'')
     (ensure (eq_num (g ''reward'') 0 \<or> eq_num (g ''reward'') 1) (r_err ''observation.reward must be 0 or 1'')
     (ensure (\<not> (eq_num (g ''reward'') 1 \<and> g ''outcome'' \<noteq> JStr (js ''success'')))
        (r_err ''reward 1 is only valid with outcome success'')
     (ensure (null_or_count (g ''costUsdMicros'') \<and> null_or_count (g ''durationMs''))
        (r_err ''observation field must be null or a non-negative integer'')
     (Inr ())))))))))))"

definition validate_committed :: "fields \<Rightarrow> unit res" where
  "validate_committed p =
     expect_fields p ''actionId,observation''
     (need_str p ''actionId''
     (if fget p (js ''observation'') \<noteq> JNull then validateObservation (fget p (js ''observation''))
      else Inr ()))"

definition validate_terminal :: "fields \<Rightarrow> unit res" where
  "validate_terminal p =
     expect_fields p ''actionId,reason,status''
     (need_str p ''actionId'' (need_str p ''reason''
     (ensure (one_of (fget p (js ''status'')) [''FAILED'', ''CANCELLED'', ''ABANDONED''])
        (r_err ''terminal status must be FAILED/CANCELLED/ABANDONED'') (Inr ()))))"

definition validate_wave_planned :: "fields \<Rightarrow> unit res" where
  "validate_wave_planned p =
     expect_fields p ''members,split,waveId''
     (need_str p ''waveId''
     (ensure (fget p (js ''split'') = JNull \<or> one_of (fget p (js ''split'')) [''dev-observed'', ''dev-guard''])
        (r_err ''split must be dev-observed/dev-guard/null'')
     (ensure (is_arr (fget p (js ''members'')) \<and> arr_of (fget p (js ''members'')) \<noteq> [])
        (r_err ''members must be a non-empty array'')
     (ensure (list_all is_nonempty_str (arr_of (fget p (js ''members''))))
        (r_err ''members must be non-empty strings'') (Inr ())))))"

definition validate_wave_committed :: "fields \<Rightarrow> unit res" where
  "validate_wave_committed p =
     expect_fields p ''decisionSnapshotHash,waveId''
     (need_str p ''waveId'' (need_str p ''decisionSnapshotHash'' (Inr ())))"

definition validate_rng_drawn :: "fields \<Rightarrow> unit res" where
  "validate_rng_drawn p = expect_fields p ''receipt'' (validateRngReceipt (fget p (js ''receipt'')))"

definition validate_registered :: "fields \<Rightarrow> unit res" where
  "validate_registered p =
     expect_fields p ''candidateId,parentCandidateId,proposalActionId,sourceHash''
     (need_str p ''candidateId'' (need_str p ''sourceHash''
     (ensure (str_or_null (fget p (js ''parentCandidateId'')))
        (r_err ''parentCandidateId must be a string or null'')
     (ensure (str_or_null (fget p (js ''proposalActionId'')))
        (r_err ''proposalActionId must be a string or null'') (Inr ())))))"

text \<open>\<open>to in CANDIDATE_EDGES\<close> also holds for the names of \<open>Object.prototype\<close>.\<close>

definition validate_status_changed :: "fields \<Rightarrow> unit res" where
  "validate_status_changed p =
     expect_fields p ''candidateId,reason,to''
     (need_str p ''candidateId'' (need_str p ''to''
     (ensure (is_str (fget p (js ''reason''))) (r_err ''reason must be a string'')
     (ensure (as_candidate_status (str_of (fget p (js ''to''))) \<noteq> None
              \<or> str_of (fget p (js ''to'')) \<in> set proto_names)
        (r_err ''unknown candidate status'') (Inr ())))))"

definition validate_locked :: "fields \<Rightarrow> unit res" where
  "validate_locked p =
     expect_fields p ''candidateId,lockHash'' (need_str p ''candidateId'' (need_str p ''lockHash'' (Inr ())))"

definition validate_revealed :: "fields \<Rightarrow> unit res" where
  "validate_revealed p =
     expect_fields p ''candidateId,revealReceiptHash''
     (need_str p ''candidateId'' (need_str p ''revealReceiptHash'' (Inr ())))"

definition validate_budget_entry :: "fields \<Rightarrow> unit res" where
  "validate_budget_entry p =
     (let amount = fget p (js ''amount''); units = fget p (js ''unpricedUnits'') in
      expect_fields p ''actionId,amount,dimension,entryHash,kind,unpricedUnits''
     (need_str p ''entryHash''
     (ensure (str_or_null (fget p (js ''actionId''))) (r_err ''actionId must be a string or null'')
     (ensure (isSafeCount amount) (r_err ''amount must be a non-negative safe integer'')
     (ensure (isSafeCount units) (r_err ''unpricedUnits must be a non-negative safe integer'')
     (ensure (\<not> (eq_num amount 0 \<and> eq_num units 0)) (r_err ''budget entry carries no accounting fact'')
     (Inr ())))))))"

definition payload_validators :: "(string \<times> (fields \<Rightarrow> unit res)) list" where
  "payload_validators =
     [(''run.phase.changed'', validate_phase_changed), (''action.reserved'', validate_reserved),
      (''action.launched'', validate_launched),
      (''action.observed-terminal'', validate_observed_terminal),
      (''evidence.published'', validate_evidence),
      (''artifact.collected'', validate_artifact_collected),
      (''action.committed'', validate_committed), (''action.terminal'', validate_terminal),
      (''wave.planned'', validate_wave_planned), (''wave.committed'', validate_wave_committed),
      (''rng.drawn'', validate_rng_drawn), (''candidate.registered'', validate_registered),
      (''candidate.status.changed'', validate_status_changed),
      (''candidate.locked'', validate_locked), (''sealed.revealed'', validate_revealed),
      (''budget.entry'', validate_budget_entry)]"

definition validatePayload :: "jstring \<Rightarrow> fields \<Rightarrow> unit res" where
  "validatePayload ty p =
     (case map_of (map (\<lambda>(n, v). (js n, v)) payload_validators) ty of
        None \<Rightarrow> Inl (r_err ''unknown event type'')
      | Some validate \<Rightarrow> validate p)"

end
