(* ===== verification/Reducer.thy ===== *)
theory Reducer
  imports Payload
begin

text \<open>
  Model of \<open>reduceEvent\<close>, \<open>replayEvents\<close>, \<open>waveDecisionSnapshot\<close>, \<open>hashableCore\<close> and
  \<open>stateHashOf\<close> of \<^verbatim>\<open>packages/dsh-evolve-le/src/state/reducer.ts\<close>: one handler per event type and
  the dispatch. Where the code would write to an inherited object (a budget entry whose owner
  is named like a property of \<open>Object.prototype\<close>) the result is an \<open>Unmodelled\<close> error.
\<close>

section \<open>Actions\<close>

definition observationKey :: "jstring \<Rightarrow> jstring \<Rightarrow> jstring \<Rightarrow> int \<Rightarrow> jstring" where
  "observationKey candidateId opaqueTaskId split attempt =
     candidateId @ 0 # opaqueTaskId @ 0 # split @ 0 # dec attempt"

text \<open>
  \<open>requireAction\<close>. A name of \<open>Object.prototype\<close> finds an object whose \<open>status\<close> is undefined,
  which no transition and no status test accepts.
\<close>

definition requireAction :: "run_state \<Rightarrow> jstring \<Rightarrow> action_state res" where
  "requireAction s actionId =
     (case rget (rs_actions s) actionId of
        Absent \<Rightarrow> Inl (r_err ''unknown action'')
      | Inherited \<Rightarrow> Inl (r_err ''action cannot go'')
      | Own a \<Rightarrow> Inr a)"

definition transitionAction :: "action_state \<Rightarrow> action_status \<Rightarrow> jstring \<Rightarrow> action_state res" where
  "transitionAction a to reason =
     ensure (to \<in> set (ACTION_EDGES (act_status a))) (r_err ''action cannot go'')
       (Inr (if to = FAILED \<or> to = CANCELLED \<or> to = ABANDONED
             then a\<lparr>act_status := to, act_failure := Some reason\<rparr> else a\<lparr>act_status := to\<rparr>))"

text \<open>The object behind \<open>next.actions[actionId]\<close> after it was mutated.\<close>

definition store_action :: "jstring \<Rightarrow> action_state \<Rightarrow> run_state \<Rightarrow> run_state" where
  "store_action i a s = s\<lparr>rs_actions := AList.update i a (rs_actions s)\<rparr>"

definition pstr :: "fields \<Rightarrow> string \<Rightarrow> jstring" where
  "pstr p f = str_of (fget p (js f))"

definition str_option :: "jsval \<Rightarrow> jstring option" where
  "str_option v = (case v of JStr s \<Rightarrow> Some s | _ \<Rightarrow> None)"

section \<open>Handlers\<close>

definition on_phase_changed :: "fields \<Rightarrow> run_state \<Rightarrow> run_state res" where
  "on_phase_changed p s =
     (case as_phase (pstr p ''to'') of
        None \<Rightarrow> Inl (r_err (if pstr p ''to'' \<in> set proto_names then ''phase is not a legal edge'' else ''unknown phase''))
      | Some to \<Rightarrow>
          ensure (to \<in> set (PHASE_EDGES (rs_phase s))) (r_err ''phase is not a legal edge'')
            (Inr (s\<lparr>rs_phase := to, rs_phaseEnteredAtSeq := rs_seq s\<rparr>)))"

definition new_action :: "fields \<Rightarrow> int \<Rightarrow> jstring \<Rightarrow> action_state" where
  "new_action p counter requestHash =
     \<lparr>act_actionId = pstr p ''actionId'', act_kind = pstr p ''kind'', act_status = RESERVED,
      act_idempotencyKey = pstr p ''idempotencyKey'',
      act_waveId = str_option (fget p (js ''waveId'')), act_reservationSeq = counter,
      act_externalJobId = None, act_artifacts = [], act_requestHash = requestHash,
      act_budgetReservations = fget p (js ''budget''), act_failure = None\<rparr>"

definition on_reserved :: "(jstring \<Rightarrow> jstring) \<Rightarrow> fields \<Rightarrow> run_state \<Rightarrow> run_state res" where
  "on_reserved sha p s =
     ensure (rget (rs_actions s) (pstr p ''actionId'') = Absent) (r_err ''action already exists'')
     (ensure (case str_option (fget p (js ''waveId'')) of
                None \<Rightarrow> True | Some w \<Rightarrow> rget (rs_waves s) w \<noteq> Absent)
        (r_err ''action reserved into unknown wave'')
     (bindR (canonicalHash sha (fget p (js ''request''))) (\<lambda>h.
        Inr (store_action (pstr p ''actionId'') (new_action p (rs_reservationCounter s + 1) h)
               (s\<lparr>rs_reservationCounter := rs_reservationCounter s + 1\<rparr>)))))"

definition on_launched :: "fields \<Rightarrow> run_state \<Rightarrow> run_state res" where
  "on_launched p s =
     bindR (requireAction s (pstr p ''actionId'')) (\<lambda>a.
     bindR (transitionAction a RUNNING []) (\<lambda>a'.
       Inr ((store_action (pstr p ''actionId'') (a'\<lparr>act_externalJobId := Some (pstr p ''externalJobId'')\<rparr>) s)
              \<lparr>rs_externalJobs :=
                 AList.update (act_actionId a') (pstr p ''externalJobId'') (rs_externalJobs s)\<rparr>)))"

definition on_observed_terminal :: "fields \<Rightarrow> run_state \<Rightarrow> run_state res" where
  "on_observed_terminal p s =
     bindR (requireAction s (pstr p ''actionId'')) (\<lambda>a.
     bindR (transitionAction a COLLECTING []) (\<lambda>a'.
       Inr (store_action (pstr p ''actionId'') a' s)))"

text \<open>
  \<open>evidence.published\<close>: an inherited entry is compared like any other; \<open>__proto__\<close> hashes as
  an empty object, every other inherited property is a function and cannot be hashed.
\<close>

definition on_evidence :: "(jstring \<Rightarrow> jstring) \<Rightarrow> fields \<Rightarrow> run_state \<Rightarrow> run_state res" where
  "on_evidence sha p s =
     (let key = pstr p ''key''; artifact = fget p (js ''artifact'');
          ev = (case rs_evidence s of None \<Rightarrow> [] | Some m \<Rightarrow> m);
          stored = Inr (s\<lparr>rs_evidence := Some (AList.update key artifact ev)\<rparr>) in
      bindR (validateRef artifact) (\<lambda>_.
        case rget ev key of
          Absent \<Rightarrow> stored
        | Inherited \<Rightarrow>
            (if key = js ''__proto__'' then Inl (r_err ''conflicting evidence publication'')
             else cj_err ''value is not representable'')
        | Own old \<Rightarrow>
            bindR (canonicalHash sha old) (\<lambda>h.
            bindR (canonicalHash sha artifact) (\<lambda>h'.
              ensure (h = h') (r_err ''conflicting evidence publication'') stored))))"

definition on_artifact_collected :: "fields \<Rightarrow> run_state \<Rightarrow> run_state res" where
  "on_artifact_collected p s =
     bindR (requireAction s (pstr p ''actionId'')) (\<lambda>a.
       ensure (act_status a = COLLECTING) (r_err ''artifact collected outside COLLECTING'')
         (bindR (validateRef (fget p (js ''artifact''))) (\<lambda>_.
           Inr (store_action (pstr p ''actionId'')
                  (a\<lparr>act_artifacts := act_artifacts a @ [fget p (js ''artifact'')]\<rparr>) s))))"

definition key_of_observation :: "jsval \<Rightarrow> jstring" where
  "key_of_observation v =
     (let o' = obj_of v in
      observationKey (pstr o' ''candidateId'') (pstr o' ''opaqueTaskId'') (pstr o' ''split'')
        (num_of (fget o' (js ''attempt''))))"

definition on_committed :: "fields \<Rightarrow> run_state \<Rightarrow> run_state res" where
  "on_committed p s =
     bindR (requireAction s (pstr p ''actionId'')) (\<lambda>a.
     bindR (transitionAction a COMMITTED []) (\<lambda>a'.
       (let s' = store_action (pstr p ''actionId'') a' s; obs = fget p (js ''observation'');
            key = key_of_observation obs in
        if obs = JNull then Inr s'
        else ensure (rget (rs_observations s) key = Absent) (r_err ''duplicate observation identity'')
               (Inr (s'\<lparr>rs_observations := AList.update key obs (rs_observations s)\<rparr>)))))"

definition on_terminal :: "fields \<Rightarrow> run_state \<Rightarrow> run_state res" where
  "on_terminal p s =
     bindR (requireAction s (pstr p ''actionId'')) (\<lambda>a.
       case as_action_status (pstr p ''status'') of
         None \<Rightarrow> Inl (r_err ''action cannot go'')
       | Some to \<Rightarrow>
           bindR (transitionAction a to (pstr p ''reason'')) (\<lambda>a'.
             Inr (store_action (pstr p ''actionId'') a' s)))"

text \<open>The loop over the members of a planned wave; \<open>seen\<close> is the set it fills.\<close>

definition wave_member_fresh :: "run_state \<Rightarrow> jstring list \<Rightarrow> jstring \<Rightarrow> jstring list res" where
  "wave_member_fresh s seen m =
     ensure (m \<notin> set seen) (r_err ''duplicate wave member'')
     (ensure (rget (rs_actions s) m = Absent) (r_err ''wave member reserved before wave.planned'')
     (Inr (seen @ [m])))"

definition wave_members_fresh :: "run_state \<Rightarrow> jstring list \<Rightarrow> jstring list res" where
  "wave_members_fresh s members = foldR (wave_member_fresh s) [] members"

definition on_wave_planned :: "fields \<Rightarrow> run_state \<Rightarrow> run_state res" where
  "on_wave_planned p s =
     (let waveId = pstr p ''waveId''; members = map str_of (arr_of (fget p (js ''members''))) in
      ensure (rget (rs_waves s) waveId = Absent) (r_err ''wave already exists'')
        (bindR (wave_members_fresh s members) (\<lambda>_.
          Inr (s\<lparr>rs_waves := AList.update waveId
                 \<lparr>wv_waveId = waveId, wv_split = fget p (js ''split''), wv_members = members,
                  wv_status = WaveOpen, wv_decisionSnapshotHash = None\<rparr> (rs_waves s)\<rparr>))))"

section \<open>Waves\<close>

definition member_terminal :: "run_state \<Rightarrow> jstring \<Rightarrow> bool" where
  "member_terminal s m \<longleftrightarrow>
     (case rget (rs_actions s) m of
        Own a \<Rightarrow> act_status a = COMMITTED \<or> act_status a = FAILED \<or> act_status a = CANCELLED
               \<or> act_status a = ABANDONED
      | _ \<Rightarrow> False)"

text \<open>\<open>waveDecisionSnapshot\<close>: the hash of the sorted canonical lines of the members' observations.\<close>

definition wave_lines :: "run_state \<Rightarrow> wave_state \<Rightarrow> jstring list res" where
  "wave_lines s w =
     bindR (seqR (map canonicalJson
       (filter (\<lambda>v. pstr (obj_of v) ''actionId'' \<in> set (wv_members w)) (map snd (rs_observations s)))))
       (\<lambda>ls. Inr (sort ls))"

definition waveDecisionSnapshot :: "(jstring \<Rightarrow> jstring) \<Rightarrow> run_state \<Rightarrow> wave_state \<Rightarrow> jstring res" where
  "waveDecisionSnapshot sha s w =
     bindR (wave_lines s w) (\<lambda>ls.
       canonicalHash sha
         (JObj [(js ''waveId'', JStr (wv_waveId w)), (js ''observations'', JArr (map JStr ls))]))"

definition on_wave_committed :: "(jstring \<Rightarrow> jstring) \<Rightarrow> fields \<Rightarrow> run_state \<Rightarrow> run_state res" where
  "on_wave_committed sha p s =
     (case rget (rs_waves s) (pstr p ''waveId'') of
        Absent \<Rightarrow> Inl (r_err ''unknown wave'')
      | Inherited \<Rightarrow> Inl (r_err ''wave already committed'')
      | Own w \<Rightarrow>
          ensure (wv_status w = WaveOpen) (r_err ''wave already committed'')
          (ensure (list_all (member_terminal s) (wv_members w)) (r_err ''wave still has nonterminal members'')
          (bindR (waveDecisionSnapshot sha s w) (\<lambda>snapshot.
            ensure (snapshot = pstr p ''decisionSnapshotHash'') (r_err ''wave decision snapshot'')
              (Inr (s\<lparr>rs_waves := AList.update (pstr p ''waveId'')
                     (w\<lparr>wv_status := WaveCommitted, wv_decisionSnapshotHash := Some snapshot\<rparr>)
                     (rs_waves s)\<rparr>))))))"

section \<open>Randomness, candidates, locks\<close>

definition receipt_key :: "jsval \<Rightarrow> jstring" where
  "receipt_key v =
     pstr (obj_of v) ''stream'' @ 0 # dec (num_of (fget (obj_of v) (js ''counter'')))"

definition on_rng_drawn :: "fields \<Rightarrow> run_state \<Rightarrow> run_state res" where
  "on_rng_drawn p s =
     (let receipt = fget p (js ''receipt''); key = receipt_key receipt in
      case rget (rs_rngReceipts s) key of
        Own existing \<Rightarrow>
          bindR (canonicalJson existing) (\<lambda>a.
          bindR (canonicalJson receipt) (\<lambda>b.
            ensure (a = b) (r_err ''conflicting rng receipt'') (Inr s)))
      | _ \<Rightarrow> Inr (s\<lparr>rs_rngReceipts := AList.update key receipt (rs_rngReceipts s)\<rparr>))"

definition on_registered :: "fields \<Rightarrow> run_state \<Rightarrow> run_state res" where
  "on_registered p s =
     (let candidateId = pstr p ''candidateId'' in
      ensure (rget (rs_candidates s) candidateId = Absent) (r_err ''candidate already exists'')
        (Inr (s\<lparr>rs_candidates := AList.update candidateId
           \<lparr>cd_candidateId = candidateId, cd_sourceHash = pstr p ''sourceHash'',
            cd_parentCandidateId = str_option (fget p (js ''parentCandidateId'')),
            cd_proposalActionId = str_option (fget p (js ''proposalActionId'')),
            cd_status = Registered\<rparr> (rs_candidates s)\<rparr>)))"

definition on_status_changed :: "fields \<Rightarrow> run_state \<Rightarrow> run_state res" where
  "on_status_changed p s =
     (case rget (rs_candidates s) (pstr p ''candidateId'') of
        Absent \<Rightarrow> Inl (r_err ''unknown candidate'')
      | Inherited \<Rightarrow> Inl (r_err ''candidate cannot go'')
      | Own c \<Rightarrow>
          (case as_candidate_status (pstr p ''to'') of
             None \<Rightarrow> Inl (r_err ''candidate cannot go'')
           | Some to \<Rightarrow>
               ensure (to \<in> set (CANDIDATE_EDGES (cd_status c))) (r_err ''candidate cannot go'')
                 (Inr (s\<lparr>rs_candidates :=
                    AList.update (pstr p ''candidateId'') (c\<lparr>cd_status := to\<rparr>) (rs_candidates s)\<rparr>))))"

text \<open>An inherited name counts as a known candidate here.\<close>

definition on_locked :: "fields \<Rightarrow> run_state \<Rightarrow> run_state res" where
  "on_locked p s =
     ensure (rs_candidateLock s = None) (r_err ''candidate lock is one-shot and already taken'')
     (ensure (rget (rs_candidates s) (pstr p ''candidateId'') \<noteq> Absent) (r_err ''unknown candidate'')
     (Inr (s\<lparr>rs_candidateLock := Some (pstr p ''candidateId'', pstr p ''lockHash'')\<rparr>)))"

definition on_revealed :: "fields \<Rightarrow> run_state \<Rightarrow> run_state res" where
  "on_revealed p s =
     ensure (rs_sealedRevealed s = None) (r_err ''sealed reveal is one-shot and already taken'')
       (Inr (s\<lparr>rs_sealedRevealed := Some (pstr p ''candidateId'')\<rparr>))"

section \<open>The budget mirror\<close>

text \<open>The accounting \<open>mirrorBudget\<close> rebuilds from the state.\<close>

definition mirror_accounting :: "run_state \<Rightarrow> budget_accounting" where
  "mirror_accounting s =
     \<lparr>dimensions = rs_budget s,
      actions = concat (map (\<lambda>(actionId, byDimension).
        map (\<lambda>(d, b). (action_key d actionId, b)) byDimension) (rs_budgetByAction s))\<rparr>"

definition mirror_entry :: "reducer_config \<Rightarrow> fields \<Rightarrow> budget_dimension \<Rightarrow> budget_kind \<Rightarrow> budget_entry" where
  "mirror_entry c p d k =
     \<lparr>be_runId = rc_runId c, be_seq = 0, be_occurredAt = JStr [], be_kind = k, be_dimension = d,
      be_actionId = str_option (fget p (js ''actionId'')), be_amount = num_of (fget p (js ''amount'')),
      be_unpricedUnits = num_of (fget p (js ''unpricedUnits'')),
      be_previousHash = GENESIS_PREVIOUS_HASH, be_entryHash = pstr p ''entryHash''\<rparr>"

definition store_balance ::
  "budget_accounting \<Rightarrow> budget_dimension \<Rightarrow> jstring option \<Rightarrow> run_state \<Rightarrow> run_state res" where
  "store_balance acc d actionId s =
     (case actionId of
        None \<Rightarrow> Inr s
      | Some i \<Rightarrow>
          (let put = (\<lambda>m. Inr (s\<lparr>rs_budgetByAction :=
                 AList.update i (AList.update d (balance_of acc d i) m) (rs_budgetByAction s)\<rparr>)) in
           case rget (rs_budgetByAction s) i of
             Inherited \<Rightarrow> Inl (Unmodelled, ''write to an inherited object'')
           | Absent \<Rightarrow> put []
           | Own m \<Rightarrow> put m))"

definition mirrorBudget :: "reducer_config \<Rightarrow> fields \<Rightarrow> run_state \<Rightarrow> run_state res" where
  "mirrorBudget c p s =
     (case as_kind (fget p (js ''kind'')) of
        None \<Rightarrow> Inl (r_err ''budget.entry kind is unknown'')
      | Some k \<Rightarrow>
          (case as_dimension (fget p (js ''dimension'')) of
             None \<Rightarrow> Inl (r_err ''budget.entry dimension is unknown'')
           | Some d \<Rightarrow>
               ensure (sha256_value (pstr p ''entryHash'')) (r_err ''budget.entry entryHash must be sha256:<64-hex>'')
               (bindR (applyBudgetEntry (mirror_accounting s) (rc_budgetLimits c) (mirror_entry c p d k)) (\<lambda>acc.
                  store_balance acc d (str_option (fget p (js ''actionId'')))
                    (s\<lparr>rs_budget := dimensions acc\<rparr>)))))"

section \<open>One event\<close>

definition event_handlers ::
  "(jstring \<Rightarrow> jstring) \<Rightarrow> reducer_config \<Rightarrow> (string \<times> (fields \<Rightarrow> run_state \<Rightarrow> run_state res)) list" where
  "event_handlers sha c =
     [(''run.phase.changed'', on_phase_changed), (''action.reserved'', on_reserved sha),
      (''action.launched'', on_launched), (''action.observed-terminal'', on_observed_terminal),
      (''evidence.published'', on_evidence sha), (''artifact.collected'', on_artifact_collected),
      (''action.committed'', on_committed), (''action.terminal'', on_terminal),
      (''wave.planned'', on_wave_planned), (''wave.committed'', on_wave_committed sha),
      (''rng.drawn'', on_rng_drawn), (''candidate.registered'', on_registered),
      (''candidate.status.changed'', on_status_changed), (''candidate.locked'', on_locked),
      (''sealed.revealed'', on_revealed), (''budget.entry'', mirrorBudget c)]"

text \<open>Validation and the \<open>switch\<close>, on the state that already carries the event's position.\<close>

definition apply_payload ::
  "(jstring \<Rightarrow> jstring) \<Rightarrow> reducer_config \<Rightarrow> run_state \<Rightarrow> jstring \<Rightarrow> fields \<Rightarrow> run_state res" where
  "apply_payload sha c s ty p =
     bindR (validatePayload ty p) (\<lambda>_.
       case map_of (map (\<lambda>(n, h). (js n, h)) (event_handlers sha c)) ty of
         None \<Rightarrow> Inl (r_err ''unknown event type'')
       | Some h \<Rightarrow> h p s)"

definition reduceEvent ::
  "(jstring \<Rightarrow> jstring) \<Rightarrow> reducer_config \<Rightarrow> run_state \<Rightarrow> fields \<Rightarrow> run_state res" where
  "reduceEvent sha c s ev =
     ensure (eq_num (fget ev (js ''schemaVersion'')) 1) (r_err ''event schemaVersion'')
     (ensure (fget ev (js ''runId'') = JStr (rc_runId c)) (r_err ''event runId mismatch'')
     (ensure (eq_num (fget ev (js ''seq'')) (rs_seq s + 1)) (r_err ''event seq'')
     (ensure (fget ev (js ''previousHash'') = rs_lastEventHash s) (r_err ''event does not chain onto state'')
     (ensure (is_str (fget ev (js ''type''))) (r_err ''event type must be a string'')
     (ensure (is_plain_object (fget ev (js ''payload''))) (r_err ''payload must be an object'')
     (apply_payload sha c
        (s\<lparr>rs_seq := rs_seq s + 1, rs_lastEventHash := fget ev (js ''eventHash'')\<rparr>)
        (pstr ev ''type'') (obj_of (fget ev (js ''payload''))))))))) "

definition replayEvents ::
  "(jstring \<Rightarrow> jstring) \<Rightarrow> reducer_config \<Rightarrow> fields list \<Rightarrow> run_state res" where
  "replayEvents sha c events = foldR (reduceEvent sha c) (initialState c) events"

section \<open>The hashed core\<close>

definition opt_value :: "jstring option \<Rightarrow> jsval" where
  "opt_value v = (case v of None \<Rightarrow> JNull | Some s \<Rightarrow> JStr s)"

definition core_action :: "action_state \<Rightarrow> jsval" where
  "core_action a = JObj
     [(js ''actionId'', JStr (act_actionId a)), (js ''kind'', JStr (act_kind a)),
      (js ''status'', JStr (action_status_name (act_status a))),
      (js ''idempotencyKey'', JStr (act_idempotencyKey a)), (js ''waveId'', opt_value (act_waveId a)),
      (js ''reservationSeq'', JNum (act_reservationSeq a)),
      (js ''externalJobId'', opt_value (act_externalJobId a)),
      (js ''artifacts'', JArr (sort_key ref_digest (act_artifacts a))),
      (js ''requestHash'', JStr (act_requestHash a)),
      (js ''budgetReservations'', act_budgetReservations a),
      (js ''failure'', case act_failure a of None \<Rightarrow> JNull | Some r \<Rightarrow> JObj [(js ''reason'', JStr r)])]"

definition core_wave :: "wave_state \<Rightarrow> jsval" where
  "core_wave w = JObj
     [(js ''waveId'', JStr (wv_waveId w)), (js ''split'', wv_split w),
      (js ''members'', JArr (map JStr (wv_members w))),
      (js ''status'', JStr (case wv_status w of WaveOpen \<Rightarrow> js ''open'' | WaveCommitted \<Rightarrow> js ''committed'')),
      (js ''decisionSnapshotHash'', opt_value (wv_decisionSnapshotHash w))]"

definition core_candidate :: "candidate_state \<Rightarrow> jsval" where
  "core_candidate c = JObj
     [(js ''candidateId'', JStr (cd_candidateId c)), (js ''sourceHash'', JStr (cd_sourceHash c)),
      (js ''parentCandidateId'', opt_value (cd_parentCandidateId c)),
      (js ''proposalActionId'', opt_value (cd_proposalActionId c)),
      (js ''status'', JStr (candidate_status_name (cd_status c)))]"

definition core_totals :: "budget_totals \<Rightarrow> jsval" where
  "core_totals t = JObj
     [(js ''reserved'', JNum (reserved t)), (js ''spent'', JNum (spent t)), (js ''unpriced'', JNum (unpriced t))]"

definition core_balance :: "action_balance \<Rightarrow> jsval" where
  "core_balance b = JObj [(js ''reserved'', JNum (a_reserved b)), (js ''spent'', JNum (a_spent b))]"

text \<open>\<open>Object.fromEntries(Object.entries(m).sort(byKey))\<close> with each value rendered.\<close>

definition sorted_object :: "('v \<Rightarrow> jsval) \<Rightarrow> 'v dict \<Rightarrow> jsval" where
  "sorted_object f m = JObj (sort_key fst (map (\<lambda>(k, v). (k, f v)) m))"

definition sorted_values :: "'v dict \<Rightarrow> 'v list" where
  "sorted_values m = map snd (sort_key fst m)"

definition core_locks :: "run_state \<Rightarrow> jsval" where
  "core_locks s = JObj
     [(js ''candidateLock'', case rs_candidateLock s of None \<Rightarrow> JNull
         | Some (i, h) \<Rightarrow> JObj [(js ''candidateId'', JStr i), (js ''lockHash'', JStr h)]),
      (js ''sealedRevealed'', case rs_sealedRevealed s of None \<Rightarrow> JNull
         | Some i \<Rightarrow> JObj [(js ''candidateId'', JStr i)])]"

definition by_name :: "(budget_dimension \<times> 'v) list \<Rightarrow> 'v dict" where
  "by_name m = map (\<lambda>(d, v). (dimension_name d, v)) m"

definition hashableCore :: "run_state \<Rightarrow> jsval" where
  "hashableCore s = JObj
     [(js ''schemaVersion'', JNum 1), (js ''runId'', JStr (rs_runId s)),
      (js ''phase'', JStr (phase_name (rs_phase s))),
      (js ''actions'', JArr (map core_action (sort_key act_actionId (map snd (rs_actions s))))),
      (js ''waves'', JArr (map core_wave (sort_key wv_waveId (map snd (rs_waves s))))),
      (js ''candidates'', JArr (map core_candidate (sort_key cd_candidateId (map snd (rs_candidates s))))),
      (js ''observations'', JArr (sorted_values (rs_observations s))),
      (js ''rngReceipts'', JArr (sorted_values (rs_rngReceipts s))),
      (js ''budget'', sorted_object core_totals (by_name (rs_budget s))),
      (js ''budgetByAction'',
         sorted_object (\<lambda>m. sorted_object core_balance (by_name m)) (rs_budgetByAction s)),
      (js ''externalJobs'', sorted_object JStr (rs_externalJobs s)),
      (js ''locks'', core_locks s),
      (js ''reservationCounter'', JNum (rs_reservationCounter s))]"

definition stateHashOf :: "(jstring \<Rightarrow> jstring) \<Rightarrow> run_state \<Rightarrow> jstring res" where
  "stateHashOf sha s = canonicalHash sha (hashableCore s)"

section \<open>Inversion\<close>

lemmas handler_defs =
  on_phase_changed_def on_reserved_def on_launched_def on_observed_terminal_def on_evidence_def
  on_artifact_collected_def on_committed_def on_terminal_def on_wave_planned_def
  on_wave_committed_def on_rng_drawn_def on_registered_def on_status_changed_def on_locked_def
  on_revealed_def mirrorBudget_def

lemma apply_payload_simps:
  "apply_payload sha c s (js ''run.phase.changed'') p = bindR (validate_phase_changed p) (\<lambda>_. on_phase_changed p s)"
  "apply_payload sha c s (js ''action.reserved'') p = bindR (validate_reserved p) (\<lambda>_. on_reserved sha p s)"
  "apply_payload sha c s (js ''action.launched'') p = bindR (validate_launched p) (\<lambda>_. on_launched p s)"
  "apply_payload sha c s (js ''action.observed-terminal'') p = bindR (validate_observed_terminal p) (\<lambda>_. on_observed_terminal p s)"
  "apply_payload sha c s (js ''evidence.published'') p = bindR (validate_evidence p) (\<lambda>_. on_evidence sha p s)"
  "apply_payload sha c s (js ''artifact.collected'') p = bindR (validate_artifact_collected p) (\<lambda>_. on_artifact_collected p s)"
  "apply_payload sha c s (js ''action.committed'') p = bindR (validate_committed p) (\<lambda>_. on_committed p s)"
  "apply_payload sha c s (js ''action.terminal'') p = bindR (validate_terminal p) (\<lambda>_. on_terminal p s)"
  "apply_payload sha c s (js ''wave.planned'') p = bindR (validate_wave_planned p) (\<lambda>_. on_wave_planned p s)"
  "apply_payload sha c s (js ''wave.committed'') p = bindR (validate_wave_committed p) (\<lambda>_. on_wave_committed sha p s)"
  "apply_payload sha c s (js ''rng.drawn'') p = bindR (validate_rng_drawn p) (\<lambda>_. on_rng_drawn p s)"
  "apply_payload sha c s (js ''candidate.registered'') p = bindR (validate_registered p) (\<lambda>_. on_registered p s)"
  "apply_payload sha c s (js ''candidate.status.changed'') p = bindR (validate_status_changed p) (\<lambda>_. on_status_changed p s)"
  "apply_payload sha c s (js ''candidate.locked'') p = bindR (validate_locked p) (\<lambda>_. on_locked p s)"
  "apply_payload sha c s (js ''sealed.revealed'') p = bindR (validate_revealed p) (\<lambda>_. on_revealed p s)"
  "apply_payload sha c s (js ''budget.entry'') p = bindR (validate_budget_entry p) (\<lambda>_. mirrorBudget c p s)"
  by (simp_all add: apply_payload_def validatePayload_def payload_validators_def event_handlers_def)

lemma apply_payload_type:
  assumes "apply_payload sha c s ty p = Inr s'"
  shows "ty \<in> set (map (\<lambda>(n, _). js n) payload_validators)"
proof -
  from assms obtain v where "map_of (map (\<lambda>(n, v). (js n, v)) payload_validators) ty = Some v"
    by (auto simp: apply_payload_def validatePayload_def bindR_Inr_iff split: option.splits)
  then have "(ty, v) \<in> set (map (\<lambda>(n, v). (js n, v)) payload_validators)" by (rule map_of_SomeD)
  then show ?thesis by auto
qed

text \<open>An accepted payload was accepted by its validator and by its handler.\<close>

lemma apply_payload_cases:
  assumes "apply_payload sha c s ty p = Inr s'"
  obtains
    (phase) "ty = js ''run.phase.changed''" "validate_phase_changed p = Inr ()" "on_phase_changed p s = Inr s'"
  | (reserved) "ty = js ''action.reserved''" "validate_reserved p = Inr ()" "on_reserved sha p s = Inr s'"
  | (launched) "ty = js ''action.launched''" "validate_launched p = Inr ()" "on_launched p s = Inr s'"
  | (observed) "ty = js ''action.observed-terminal''" "validate_observed_terminal p = Inr ()"
      "on_observed_terminal p s = Inr s'"
  | (evidence) "ty = js ''evidence.published''" "validate_evidence p = Inr ()" "on_evidence sha p s = Inr s'"
  | (artifact) "ty = js ''artifact.collected''" "validate_artifact_collected p = Inr ()"
      "on_artifact_collected p s = Inr s'"
  | (committed) "ty = js ''action.committed''" "validate_committed p = Inr ()" "on_committed p s = Inr s'"
  | (terminal) "ty = js ''action.terminal''" "validate_terminal p = Inr ()" "on_terminal p s = Inr s'"
  | (wave_planned) "ty = js ''wave.planned''" "validate_wave_planned p = Inr ()" "on_wave_planned p s = Inr s'"
  | (wave_committed) "ty = js ''wave.committed''" "validate_wave_committed p = Inr ()"
      "on_wave_committed sha p s = Inr s'"
  | (rng) "ty = js ''rng.drawn''" "validate_rng_drawn p = Inr ()" "on_rng_drawn p s = Inr s'"
  | (registered) "ty = js ''candidate.registered''" "validate_registered p = Inr ()" "on_registered p s = Inr s'"
  | (status) "ty = js ''candidate.status.changed''" "validate_status_changed p = Inr ()"
      "on_status_changed p s = Inr s'"
  | (locked) "ty = js ''candidate.locked''" "validate_locked p = Inr ()" "on_locked p s = Inr s'"
  | (revealed) "ty = js ''sealed.revealed''" "validate_revealed p = Inr ()" "on_revealed p s = Inr s'"
  | (budget) "ty = js ''budget.entry''" "validate_budget_entry p = Inr ()" "mirrorBudget c p s = Inr s'"
  using apply_payload_type [OF assms] assms that
  unfolding payload_validators_def list.map list.set insert_iff empty_iff prod.case simp_thms
  by (elim disjE) (simp_all add: apply_payload_simps bindR_Inr_iff)

text \<open>What the handlers that replace one action do to the map of actions.\<close>

lemma requireAction_iff: "requireAction s i = Inr a \<longleftrightarrow> map_of (rs_actions s) i = Some a"
  by (auto simp: requireAction_def rget_def split: option.splits)

lemma transitionAction_iff:
  "transitionAction a to r = Inr a' \<longleftrightarrow>
     to \<in> set (ACTION_EDGES (act_status a))
     \<and> a' = (if to = FAILED \<or> to = CANCELLED \<or> to = ABANDONED
             then a\<lparr>act_status := to, act_failure := Some r\<rparr> else a\<lparr>act_status := to\<rparr>)"
  by (auto simp: transitionAction_def ensure_Inr_iff)

text \<open>
  The events that touch one existing action: its identity and reservation stay, its status
  stays or follows an edge.
\<close>

definition same_reservation :: "action_state \<Rightarrow> action_state \<Rightarrow> bool" where
  "same_reservation a b \<longleftrightarrow>
     act_actionId a = act_actionId b \<and> act_kind a = act_kind b
     \<and> act_idempotencyKey a = act_idempotencyKey b \<and> act_waveId a = act_waveId b
     \<and> act_reservationSeq a = act_reservationSeq b \<and> act_requestHash a = act_requestHash b
     \<and> act_budgetReservations a = act_budgetReservations b"

definition action_moved :: "action_state \<Rightarrow> action_state \<Rightarrow> bool" where
  "action_moved a b \<longleftrightarrow>
     same_reservation a b
     \<and> (act_status b = act_status a \<or> act_status b \<in> set (ACTION_EDGES (act_status a)))"

lemma action_moved_refl [simp]: "action_moved a a"
  by (simp add: action_moved_def same_reservation_def)

lemma action_moved_transition: "transitionAction a to r = Inr b \<Longrightarrow> action_moved a b"
  by (auto simp: transitionAction_iff action_moved_def same_reservation_def)

text \<open>Handlers other than a reservation keep the set of actions and move each along an edge.\<close>

definition actions_advance :: "run_state \<Rightarrow> run_state \<Rightarrow> bool" where
  "actions_advance s s' \<longleftrightarrow>
     (\<forall>i a. map_of (rs_actions s) i = Some a \<longrightarrow>
        (\<exists>b. map_of (rs_actions s') i = Some b \<and> action_moved a b))"

lemma actions_advance_same: "rs_actions s' = rs_actions s \<Longrightarrow> actions_advance s s'"
  by (auto simp: actions_advance_def)

lemma actions_advance_update:
  assumes "rs_actions s' = AList.update i b (rs_actions s)"
    and "map_of (rs_actions s) i = None \<or> (\<exists>a. map_of (rs_actions s) i = Some a \<and> action_moved a b)"
  shows "actions_advance s s'"
  using assms by (auto simp: actions_advance_def)

lemma store_action_actions [simp]:
  "rs_actions (store_action i a s) = AList.update i a (rs_actions s)"
  by (simp add: store_action_def)

text \<open>What the handlers of one action did when they accepted.\<close>

lemma on_reservedD:
  assumes "on_reserved sha p s = Inr s'"
  shows "\<exists>h. rget (rs_actions s) (pstr p ''actionId'') = Absent
    \<and> canonicalHash sha (fget p (js ''request'')) = Inr h
    \<and> s' = store_action (pstr p ''actionId'') (new_action p (rs_reservationCounter s + 1) h)
             (s\<lparr>rs_reservationCounter := rs_reservationCounter s + 1\<rparr>)"
  using assms by (auto simp: on_reserved_def res_simps)

lemma on_launchedD:
  assumes "on_launched p s = Inr s'"
  shows "\<exists>a a'. map_of (rs_actions s) (pstr p ''actionId'') = Some a
    \<and> transitionAction a RUNNING [] = Inr a'
    \<and> s' = (store_action (pstr p ''actionId'') (a'\<lparr>act_externalJobId := Some (pstr p ''externalJobId'')\<rparr>) s)
             \<lparr>rs_externalJobs :=
                AList.update (act_actionId a') (pstr p ''externalJobId'') (rs_externalJobs s)\<rparr>"
  using assms by (auto simp: on_launched_def bindR_Inr_iff requireAction_iff)

lemma on_observed_terminalD:
  assumes "on_observed_terminal p s = Inr s'"
  shows "\<exists>a a'. map_of (rs_actions s) (pstr p ''actionId'') = Some a
    \<and> transitionAction a COLLECTING [] = Inr a' \<and> s' = store_action (pstr p ''actionId'') a' s"
  using assms by (auto simp: on_observed_terminal_def bindR_Inr_iff requireAction_iff)

lemma on_artifact_collectedD:
  assumes "on_artifact_collected p s = Inr s'"
  shows "\<exists>a. map_of (rs_actions s) (pstr p ''actionId'') = Some a \<and> act_status a = COLLECTING
    \<and> s' = store_action (pstr p ''actionId'')
             (a\<lparr>act_artifacts := act_artifacts a @ [fget p (js ''artifact'')]\<rparr>) s"
  using assms by (auto simp: on_artifact_collected_def res_simps requireAction_iff)

lemma on_committedD:
  assumes "on_committed p s = Inr s'"
  shows "\<exists>a a'. map_of (rs_actions s) (pstr p ''actionId'') = Some a
    \<and> transitionAction a COMMITTED [] = Inr a'
    \<and> (if fget p (js ''observation'') = JNull then s' = store_action (pstr p ''actionId'') a' s
       else rget (rs_observations s) (key_of_observation (fget p (js ''observation''))) = Absent
         \<and> s' = (store_action (pstr p ''actionId'') a' s)\<lparr>rs_observations :=
              AList.update (key_of_observation (fget p (js ''observation''))) (fget p (js ''observation''))
                (rs_observations s)\<rparr>)"
  using assms by (auto simp: on_committed_def res_simps requireAction_iff Let_def split: if_splits)

lemma on_terminalD:
  assumes "on_terminal p s = Inr s'"
  shows "\<exists>a a' to. map_of (rs_actions s) (pstr p ''actionId'') = Some a
    \<and> as_action_status (pstr p ''status'') = Some to
    \<and> transitionAction a to (pstr p ''reason'') = Inr a' \<and> s' = store_action (pstr p ''actionId'') a' s"
  using assms by (auto simp: on_terminal_def res_simps requireAction_iff split: option.splits)

definition with_balance ::
  "budget_accounting \<Rightarrow> budget_dimension \<Rightarrow> jstring option \<Rightarrow> run_state \<Rightarrow> run_state" where
  "with_balance acc d actionId s =
     (case actionId of
        None \<Rightarrow> s
      | Some i \<Rightarrow>
          s\<lparr>rs_budgetByAction := AList.update i
              (AList.update d (balance_of acc d i)
                 (case map_of (rs_budgetByAction s) i of None \<Rightarrow> [] | Some m \<Rightarrow> m))
              (rs_budgetByAction s)\<rparr>)"

lemma store_balanceD: "store_balance acc d i s = Inr s' \<Longrightarrow> s' = with_balance acc d i s"
  by (cases i) (auto simp: store_balance_def with_balance_def rget_def split: option.splits if_splits)

lemma mirrorBudgetD:
  assumes "mirrorBudget c p s = Inr s'"
  shows "\<exists>k d acc. as_kind (fget p (js ''kind'')) = Some k
    \<and> as_dimension (fget p (js ''dimension'')) = Some d
    \<and> applyBudgetEntry (mirror_accounting s) (rc_budgetLimits c) (mirror_entry c p d k) = Inr acc
    \<and> s' = with_balance acc d (str_option (fget p (js ''actionId''))) (s\<lparr>rs_budget := dimensions acc\<rparr>)"
  using assms
  by (auto simp: mirrorBudget_def res_simps split: option.splits dest: store_balanceD)

lemma on_phase_changedD:
  "on_phase_changed p s = Inr s' \<Longrightarrow>
   \<exists>to. as_phase (pstr p ''to'') = Some to \<and> to \<in> set (PHASE_EDGES (rs_phase s))
      \<and> s' = s\<lparr>rs_phase := to, rs_phaseEnteredAtSeq := rs_seq s\<rparr>"
  by (auto simp: on_phase_changed_def res_simps split: option.splits)

lemma on_evidenceD: "on_evidence sha p s = Inr s' \<Longrightarrow> \<exists>e. s' = s\<lparr>rs_evidence := e\<rparr>"
  by (auto simp: on_evidence_def cj_err_def res_simps Let_def split: found.splits if_splits)

lemma wave_members_fresh_iff:
  "foldR (wave_member_fresh s) seen ms = Inr out \<longleftrightarrow>
     out = seen @ ms \<and> distinct ms \<and> set ms \<inter> set seen = {} \<and> (\<forall>m\<in>set ms. rget (rs_actions s) m = Absent)"
  by (induction ms arbitrary: seen) (auto simp: wave_member_fresh_def res_simps)

lemma on_wave_plannedD:
  assumes "on_wave_planned p s = Inr s'"
  shows "\<exists>w. rget (rs_waves s) (wv_waveId w) = Absent \<and> distinct (wv_members w) \<and> wv_status w = WaveOpen
    \<and> (\<forall>m\<in>set (wv_members w). rget (rs_actions s) m = Absent)
    \<and> s' = s\<lparr>rs_waves := AList.update (wv_waveId w) w (rs_waves s)\<rparr>"
  using assms
  by (intro exI [of _ "\<lparr>wv_waveId = pstr p ''waveId'', wv_split = fget p (js ''split''),
      wv_members = map str_of (arr_of (fget p (js ''members''))), wv_status = WaveOpen,
      wv_decisionSnapshotHash = None\<rparr>"])
    (auto simp: on_wave_planned_def wave_members_fresh_def wave_members_fresh_iff res_simps Let_def)

lemma on_wave_committedD:
  assumes "on_wave_committed sha p s = Inr s'"
  shows "\<exists>w snapshot. map_of (rs_waves s) (pstr p ''waveId'') = Some w \<and> wv_status w = WaveOpen
    \<and> list_all (member_terminal s) (wv_members w) \<and> waveDecisionSnapshot sha s w = Inr snapshot
    \<and> snapshot = pstr p ''decisionSnapshotHash''
    \<and> s' = s\<lparr>rs_waves := AList.update (pstr p ''waveId'')
         (w\<lparr>wv_status := WaveCommitted, wv_decisionSnapshotHash := Some snapshot\<rparr>) (rs_waves s)\<rparr>"
  using assms by (auto simp: on_wave_committed_def res_simps rget_Own_iff split: found.splits)

lemma on_rng_drawnD:
  assumes "on_rng_drawn p s = Inr s'"
  shows "s' = s \<or> (map_of (rs_rngReceipts s) (receipt_key (fget p (js ''receipt''))) = None
    \<and> s' = s\<lparr>rs_rngReceipts := AList.update (receipt_key (fget p (js ''receipt''))) (fget p (js ''receipt''))
               (rs_rngReceipts s)\<rparr>)"
  using assms
  by (auto simp: on_rng_drawn_def res_simps Let_def rget_Absent_iff rget_Inherited_iff split: found.splits)

lemma on_registeredD:
  assumes "on_registered p s = Inr s'"
  shows "\<exists>cd. map_of (rs_candidates s) (cd_candidateId cd) = None \<and> cd_status cd = Registered
    \<and> s' = s\<lparr>rs_candidates := AList.update (cd_candidateId cd) cd (rs_candidates s)\<rparr>"
  using assms
  by (intro exI [of _ "\<lparr>cd_candidateId = pstr p ''candidateId'', cd_sourceHash = pstr p ''sourceHash'',
            cd_parentCandidateId = str_option (fget p (js ''parentCandidateId'')),
            cd_proposalActionId = str_option (fget p (js ''proposalActionId'')), cd_status = Registered\<rparr>"])
    (auto simp: on_registered_def res_simps Let_def rget_Absent_iff)

lemma on_status_changedD:
  assumes "on_status_changed p s = Inr s'"
  shows "\<exists>cd to. map_of (rs_candidates s) (pstr p ''candidateId'') = Some cd
    \<and> to \<in> set (CANDIDATE_EDGES (cd_status cd))
    \<and> s' = s\<lparr>rs_candidates := AList.update (pstr p ''candidateId'') (cd\<lparr>cd_status := to\<rparr>) (rs_candidates s)\<rparr>"
  using assms by (auto simp: on_status_changed_def res_simps rget_Own_iff split: found.splits option.splits)

text \<open>One accepted event, by what it did to the state.\<close>

lemma event_cases:
  assumes "apply_payload sha c s ty p = Inr s'"
  obtains
    (phase) to where "to \<in> set (PHASE_EDGES (rs_phase s))"
      "s' = s\<lparr>rs_phase := to, rs_phaseEnteredAtSeq := rs_seq s\<rparr>"
  | (reserved) a where "map_of (rs_actions s) (act_actionId a) = None" "act_status a = RESERVED"
      "act_reservationSeq a = rs_reservationCounter s + 1"
      "s' = store_action (act_actionId a) a (s\<lparr>rs_reservationCounter := rs_reservationCounter s + 1\<rparr>)"
      "act_actionId a \<noteq> []" "ty = js ''action.reserved''" "act_actionId a = pstr p ''actionId''"
  | (moved) i a b j where "map_of (rs_actions s) i = Some a" "action_moved a b"
      "s' = store_action i b s\<lparr>rs_externalJobs := AList.update (act_actionId a) j (rs_externalJobs s)\<rparr>"
  | (committed) i a b where "map_of (rs_actions s) i = Some a" "action_moved a b"
      "s' = store_action i b s"
  | (observed) i a b obs where "map_of (rs_actions s) i = Some a" "action_moved a b"
      "validateObservation obs = Inr ()" "map_of (rs_observations s) (key_of_observation obs) = None"
      "s' = store_action i b s\<lparr>rs_observations :=
              AList.update (key_of_observation obs) obs (rs_observations s)\<rparr>"
  | (evidence) e where "s' = s\<lparr>rs_evidence := e\<rparr>"
  | (wave_planned) w where "map_of (rs_waves s) (wv_waveId w) = None" "distinct (wv_members w)"
      "wv_status w = WaveOpen" "\<forall>m\<in>set (wv_members w). map_of (rs_actions s) m = None"
      "s' = s\<lparr>rs_waves := AList.update (wv_waveId w) w (rs_waves s)\<rparr>"
  | (wave_committed) i w h where "map_of (rs_waves s) i = Some w" "wv_status w = WaveOpen"
      "list_all (member_terminal s) (wv_members w)" "waveDecisionSnapshot sha s w = Inr h"
      "s' = s\<lparr>rs_waves := AList.update i
              (w\<lparr>wv_status := WaveCommitted, wv_decisionSnapshotHash := Some h\<rparr>) (rs_waves s)\<rparr>"
  | (rng) receipt where "validateRngReceipt receipt = Inr ()"
      "s' = s \<or> (map_of (rs_rngReceipts s) (receipt_key receipt) = None
        \<and> s' = s\<lparr>rs_rngReceipts := AList.update (receipt_key receipt) receipt (rs_rngReceipts s)\<rparr>)"
  | (registered) cd where "map_of (rs_candidates s) (cd_candidateId cd) = None" "cd_status cd = Registered"
      "s' = s\<lparr>rs_candidates := AList.update (cd_candidateId cd) cd (rs_candidates s)\<rparr>"
  | (status) i cd to where "map_of (rs_candidates s) i = Some cd" "to \<in> set (CANDIDATE_EDGES (cd_status cd))"
      "s' = s\<lparr>rs_candidates := AList.update i (cd\<lparr>cd_status := to\<rparr>) (rs_candidates s)\<rparr>"
  | (locked) x where "rs_candidateLock s = None" "s' = s\<lparr>rs_candidateLock := Some x\<rparr>"
  | (revealed) x where "rs_sealedRevealed s = None" "s' = s\<lparr>rs_sealedRevealed := Some x\<rparr>"
  | (budget) k d acc where
      "ty = js ''budget.entry''" "validate_budget_entry p = Inr ()"
      "as_kind (fget p (js ''kind'')) = Some k" "as_dimension (fget p (js ''dimension'')) = Some d"
      "applyBudgetEntry (mirror_accounting s) (rc_budgetLimits c) (mirror_entry c p d k) = Inr acc"
      "s' = with_balance acc d (str_option (fget p (js ''actionId''))) (s\<lparr>rs_budget := dimensions acc\<rparr>)"
  using assms
proof (cases rule: apply_payload_cases)
  case phase
  from on_phase_changedD [OF phase(3)] that(1) show thesis by blast
next
  case reserved
  from reserved(2) have "pstr p ''actionId'' \<noteq> []"
    by (auto simp: validate_reserved_def expect_fields_def need_str_def ensure_Inr_iff bindR_Inr_iff
        pstr_def dest!: is_nonempty_strE)
  with on_reservedD [OF reserved(3)] reserved(1) that(2) [of "new_action p (rs_reservationCounter s + 1) h" for h]
  show thesis by (auto simp: new_action_def rget_Absent_iff)
next
  case launched
  from on_launchedD [OF launched(3)] obtain a a' where a: "map_of (rs_actions s) (pstr p ''actionId'') = Some a"
    "transitionAction a RUNNING [] = Inr a'"
    and s': "s' = (store_action (pstr p ''actionId'') (a'\<lparr>act_externalJobId := Some (pstr p ''externalJobId'')\<rparr>) s)
             \<lparr>rs_externalJobs := AList.update (act_actionId a') (pstr p ''externalJobId'') (rs_externalJobs s)\<rparr>"
    by blast
  have "action_moved a (a'\<lparr>act_externalJobId := Some (pstr p ''externalJobId'')\<rparr>)" "act_actionId a' = act_actionId a"
    using a(2) by (auto simp: transitionAction_iff action_moved_def same_reservation_def)
  with that(3) [OF a(1)] s' show thesis by simp
next
  case observed
  from on_observed_terminalD [OF observed(3)] obtain a b where a: "map_of (rs_actions s) (pstr p ''actionId'') = Some a"
    "transitionAction a COLLECTING [] = Inr b" "s' = store_action (pstr p ''actionId'') b s" by blast
  from that(4) [OF a(1) action_moved_transition [OF a(2)] a(3)] show thesis .
next
  case evidence
  from on_evidenceD [OF evidence(3)] that(6) show thesis by blast
next
  case artifact
  from on_artifact_collectedD [OF artifact(3)] obtain a where a: "map_of (rs_actions s) (pstr p ''actionId'') = Some a"
    "s' = store_action (pstr p ''actionId'') (a\<lparr>act_artifacts := act_artifacts a @ [fget p (js ''artifact'')]\<rparr>) s"
    by blast
  have "action_moved a (a\<lparr>act_artifacts := act_artifacts a @ [fget p (js ''artifact'')]\<rparr>)"
    by (simp add: action_moved_def same_reservation_def)
  from that(4) [OF a(1) this a(2)] show thesis .
next
  case committed
  let ?o = "fget p (js ''observation'')"
  from on_committedD [OF committed(3)] obtain a b where a: "map_of (rs_actions s) (pstr p ''actionId'') = Some a"
    "transitionAction a COMMITTED [] = Inr b"
    "if ?o = JNull then s' = store_action (pstr p ''actionId'') b s
     else rget (rs_observations s) (key_of_observation ?o) = Absent
         \<and> s' = (store_action (pstr p ''actionId'') b s)\<lparr>rs_observations :=
              AList.update (key_of_observation ?o) ?o (rs_observations s)\<rparr>" by blast
  show thesis
  proof (cases "?o = JNull")
    case True
    with a(3) have "s' = store_action (pstr p ''actionId'') b s" by simp
    from that(4) [OF a(1) action_moved_transition [OF a(2)] this] show thesis .
  next
    case False
    have "validateObservation ?o = Inr ()"
      using committed(2) False by (auto simp: validate_committed_def expect_fields_def need_str_def ensure_Inr_iff)
    with a(3) False that(5) [OF a(1) action_moved_transition [OF a(2)], of ?o] show thesis
      by (simp add: rget_Absent_iff)
  qed
next
  case terminal
  from on_terminalD [OF terminal(3)] obtain a b to where a: "map_of (rs_actions s) (pstr p ''actionId'') = Some a"
    "transitionAction a to (pstr p ''reason'') = Inr b" "s' = store_action (pstr p ''actionId'') b s" by blast
  from that(4) [OF a(1) action_moved_transition [OF a(2)] a(3)] show thesis .
next
  case wave_planned
  from on_wave_plannedD [OF wave_planned(3)] that(7) show thesis by (auto simp: rget_Absent_iff)
next
  case wave_committed
  from on_wave_committedD [OF wave_committed(3)] that(8) show thesis by blast
next
  case rng
  have "validateRngReceipt (fget p (js ''receipt'')) = Inr ()"
    using rng(2) by (simp add: validate_rng_drawn_def expect_fields_def ensure_Inr_iff)
  from that(9) [OF this] on_rng_drawnD [OF rng(3)] show thesis by blast
next
  case registered
  from on_registeredD [OF registered(3)] that(10) show thesis by blast
next
  case status
  from on_status_changedD [OF status(3)] that(11) show thesis by blast
next
  case locked
  then have "rs_candidateLock s = None"
    "s' = s\<lparr>rs_candidateLock := Some (pstr p ''candidateId'', pstr p ''lockHash'')\<rparr>"
    by (simp_all add: on_locked_def ensure_Inr_iff)
  then show thesis by (rule that(12))
next
  case revealed
  then have "rs_sealedRevealed s = None" "s' = s\<lparr>rs_sealedRevealed := Some (pstr p ''candidateId'')\<rparr>"
    by (simp_all add: on_revealed_def ensure_Inr_iff)
  then show thesis by (rule that(13))
next
  case budget
  from mirrorBudgetD [OF budget(3)] that(14) [OF budget(1,2)] show thesis by blast
qed

lemma reduceEvent_apply:
  assumes "reduceEvent sha c s ev = Inr s'"
  shows "apply_payload sha c (s\<lparr>rs_seq := rs_seq s + 1, rs_lastEventHash := fget ev (js ''eventHash'')\<rparr>)
      (pstr ev ''type'') (obj_of (fget ev (js ''payload''))) = Inr s'"
    and "fget ev (js ''previousHash'') = rs_lastEventHash s" "eq_num (fget ev (js ''seq'')) (rs_seq s + 1)"
  using assms by (auto simp: reduceEvent_def ensure_Inr_iff)

end
