(* ===== verification/ReducerLaws.thy ===== *)
theory ReducerLaws
  imports Reducer
begin

text \<open>
  What holds of every run the reducer accepts: the three status tables, the one-shot locks, the
  permanence of recorded facts, committed waves, and the agreement of the mirrored budget with
  the ledger. The invariant of a run is \<open>run_ok\<close>; \<open>reduceEvent\<close> interprets the
  interface of \<open>EventFold\<close> with it.
\<close>

section \<open>One event at a time\<close>

lemma event_advances:
  assumes "apply_payload sha c s ty p = Inr s'"
  shows "actions_advance s s'"
  using assms
proof (cases rule: event_cases)
  case (reserved a)
  then show ?thesis by (auto intro: actions_advance_update)
next
  case (moved i a b j)
  then have "rs_actions s' = AList.update i b (rs_actions s)" by simp
  with moved(1,2) show ?thesis by (blast intro: actions_advance_update)
next
  case (committed i a b)
  then have "rs_actions s' = AList.update i b (rs_actions s)" by simp
  with committed(1,2) show ?thesis by (blast intro: actions_advance_update)
next
  case (observed i a b obs)
  then have "rs_actions s' = AList.update i b (rs_actions s)" by simp
  with observed(1,2) show ?thesis by (blast intro: actions_advance_update)
qed (auto simp: with_balance_def split: option.splits intro!: actions_advance_same)

definition frame :: "run_state \<Rightarrow> run_state \<Rightarrow> bool" where
  "frame s s' \<longleftrightarrow> rs_runId s' = rs_runId s \<and> rs_seq s' = rs_seq s \<and> rs_lastEventHash s' = rs_lastEventHash s"

lemma event_phase:
  assumes "apply_payload sha c s ty p = Inr s'"
  shows "rs_phase s' = rs_phase s \<or> rs_phase s' \<in> set (PHASE_EDGES (rs_phase s))"
  using assms
  by (cases rule: event_cases) (auto simp: store_action_def with_balance_def split: option.splits)

lemma event_locks:
  assumes "apply_payload sha c s ty p = Inr s'"
  shows "(rs_candidateLock s = Some x \<longrightarrow> rs_candidateLock s' = Some x)
    \<and> (rs_sealedRevealed s = Some y \<longrightarrow> rs_sealedRevealed s' = Some y)"
  using assms
  by (cases rule: event_cases) (auto simp: store_action_def with_balance_def split: option.splits)

lemma event_observations:
  assumes "apply_payload sha c s ty p = Inr s'"
  shows "map_of (rs_observations s) \<subseteq>\<^sub>m map_of (rs_observations s')"
  using assms
  by (cases rule: event_cases) (auto simp: store_action_def with_balance_def map_le_def split: option.splits)

lemma event_receipts:
  assumes "apply_payload sha c s ty p = Inr s'"
  shows "map_of (rs_rngReceipts s) \<subseteq>\<^sub>m map_of (rs_rngReceipts s')"
  using assms
  by (cases rule: event_cases) (auto simp: store_action_def with_balance_def map_le_def split: option.splits)

lemma event_frame:
  assumes "apply_payload sha c s ty p = Inr s'"
  shows "frame s s'"
  using assms
  by (cases rule: event_cases) (auto simp: store_action_def with_balance_def frame_def split: option.splits)

lemma event_candidates:
  assumes "apply_payload sha c s ty p = Inr s'" "map_of (rs_candidates s) i = Some cd"
  shows "\<exists>cd'. map_of (rs_candidates s') i = Some cd' \<and> cd_sourceHash cd' = cd_sourceHash cd
    \<and> cd_parentCandidateId cd' = cd_parentCandidateId cd \<and> cd_proposalActionId cd' = cd_proposalActionId cd
    \<and> (cd_status cd' = cd_status cd \<or> cd_status cd' \<in> set (CANDIDATE_EDGES (cd_status cd)))"
  using assms(1)
  by (cases rule: event_cases)
    (use assms(2) in \<open>auto simp: store_action_def with_balance_def split: option.splits\<close>)

text \<open>A wave keeps its members; once committed it never changes.\<close>

lemma event_waves:
  assumes "apply_payload sha c s ty p = Inr s'" "map_of (rs_waves s) i = Some w"
  shows "\<exists>w'. map_of (rs_waves s') i = Some w' \<and> wv_members w' = wv_members w
    \<and> (wv_status w = WaveCommitted \<longrightarrow> w' = w)"
  using assms(1)
  by (cases rule: event_cases)
    (use assms(2) in \<open>auto simp: store_action_def with_balance_def split: option.splits\<close>)

section \<open>The mirrored budget\<close>

lemma dimension_name_inject [simp]: "dimension_name d = dimension_name e \<longleftrightarrow> d = e"
  by (metis as_dimension_name option.inject)

lemma action_key_inject [simp]: "action_key d i = action_key e j \<longleftrightarrow> d = e \<and> i = j"
proof -
  have t: "takeWhile (\<lambda>u. u \<noteq> 0) (action_key d i) = dimension_name d" for d i
    by (cases d) (simp_all add: action_key_def js_def unit_of_def)
  show ?thesis
  proof
    assume eq: "action_key d i = action_key e j"
    from arg_cong [OF this, of "takeWhile (\<lambda>u. u \<noteq> 0)"] have "d = e" by (simp add: t)
    with eq show "d = e \<and> i = j" by (simp add: action_key_def)
  qed simp
qed

lemma map_of_action_keys:
  "map_of (map (\<lambda>(d, b). (action_key d j, b)) m) (action_key d i) = (if i = j then map_of m d else None)"
  by (induction m) auto

lemma map_of_concat_action_keys:
  assumes "distinct (map fst xs)"
  shows "map_of (concat (map (\<lambda>(i, m). map (\<lambda>(d, b). (action_key d i, b)) m) xs)) (action_key d i)
    = (case map_of xs i of None \<Rightarrow> None | Some m \<Rightarrow> map_of m d)"
  using assms
proof (induction xs)
  case Nil
  then show ?case by simp
next
  case (Cons x xs)
  obtain j m where x: "x = (j, m)" by (cases x)
  have "map_of xs j = None" using Cons.prems by (simp add: x map_of_eq_None_iff)
  with Cons show ?case
    by (auto simp: x map_add_def map_of_action_keys split: option.splits)
qed

lemma mirror_actions:
  assumes "distinct (map fst (rs_budgetByAction s))"
  shows "map_of (actions (mirror_accounting s)) (action_key d i)
    = (case map_of (rs_budgetByAction s) i of None \<Rightarrow> None | Some m \<Rightarrow> map_of m d)"
  unfolding mirror_accounting_def by (simp add: map_of_concat_action_keys [OF assms])

lemma mirror_keys: "map_of (actions (mirror_accounting s)) k = Some b \<Longrightarrow> \<exists>d i. k = action_key d i"
  by (drule map_of_SomeD) (auto simp: mirror_accounting_def)

lemma mirror_totals: "totals_of (mirror_accounting s) d
    = (case map_of (rs_budget s) d of None \<Rightarrow> zero_totals | Some t \<Rightarrow> t)"
  by (simp add: totals_of_def mirror_accounting_def split: option.splits)

lemma with_balance_simps [simp]:
  "rs_budget (with_balance acc d i s) = rs_budget s"
  "rs_actions (with_balance acc d i s) = rs_actions s" "rs_waves (with_balance acc d i s) = rs_waves s"
  "rs_observations (with_balance acc d i s) = rs_observations s"
  "rs_rngReceipts (with_balance acc d i s) = rs_rngReceipts s"
  "rs_runId (with_balance acc d i s) = rs_runId s" "rs_externalJobs (with_balance acc d i s) = rs_externalJobs s"
  "rs_reservationCounter (with_balance acc d i s) = rs_reservationCounter s"
  by (auto simp: with_balance_def split: option.splits)

text \<open>The balances after a mirrored entry: the owner's is the posted one, the others stay.\<close>

lemma mirror_balance_after:
  assumes "distinct (map fst (rs_budgetByAction s))"
  shows "map_of (actions (mirror_accounting (with_balance acc d i (s\<lparr>rs_budget := ds\<rparr>)))) (action_key e j)
    = (if i = Some j \<and> e = d then Some (balance_of acc d j)
       else map_of (actions (mirror_accounting s)) (action_key e j))"
proof -
  let ?s' = "with_balance acc d i (s\<lparr>rs_budget := ds\<rparr>)"
  have "distinct (map fst (rs_budgetByAction ?s'))"
    using assms by (auto simp: with_balance_def distinct_update split: option.splits)
  from mirror_actions [OF this] mirror_actions [OF assms] show ?thesis
    by (auto simp: with_balance_def split: option.splits)
qed

section \<open>The invariant of a run\<close>

text \<open>
  Every record sits under its own key, observations and receipts are valid and sit under the
  identity they carry, every member of a committed wave is terminal, and the mirrored budget
  is an accounting within the limits.
\<close>

definition run_ok :: "reducer_config \<Rightarrow> run_state \<Rightarrow> bool" where
  "run_ok c s \<longleftrightarrow>
     rs_runId s = rc_runId c
     \<and> (\<forall>i a. map_of (rs_actions s) i = Some a \<longrightarrow>
          act_actionId a = i \<and> act_reservationSeq a \<le> rs_reservationCounter s)
     \<and> (\<forall>k v. map_of (rs_observations s) k = Some v \<longrightarrow>
          k = key_of_observation v \<and> validateObservation v = Inr ())
     \<and> (\<forall>k v. map_of (rs_rngReceipts s) k = Some v \<longrightarrow> k = receipt_key v \<and> validateRngReceipt v = Inr ())
     \<and> (\<forall>i w m. map_of (rs_waves s) i = Some w \<and> wv_status w = WaveCommitted \<and> m \<in> set (wv_members w)
          \<longrightarrow> member_terminal s m)
     \<and> distinct (map fst (rs_actions s)) \<and> distinct (map fst (rs_observations s))
     \<and> distinct (map fst (rs_externalJobs s))
     \<and> distinct (map fst (rs_budgetByAction s))
     \<and> accounting_ok (rc_budgetLimits c) (mirror_accounting s)"

lemma terminal_status_stays:
  "action_moved a b \<Longrightarrow> act_status a \<in> {COMMITTED, FAILED, CANCELLED, ABANDONED} \<Longrightarrow> act_status b = act_status a"
  by (auto simp: action_moved_def)

lemma member_terminal_stays:
  assumes "actions_advance s s'" "member_terminal s m"
  shows "member_terminal s' m"
proof -
  from assms(2) obtain a where a: "map_of (rs_actions s) m = Some a"
    "act_status a \<in> {COMMITTED, FAILED, CANCELLED, ABANDONED}"
    by (auto simp: member_terminal_def rget_Own_iff split: found.splits)
  with assms(1) obtain b where "map_of (rs_actions s') m = Some b" "action_moved a b"
    by (auto simp: actions_advance_def)
  with terminal_status_stays [OF this(2) a(2)] a(2) show ?thesis
    by (auto simp: member_terminal_def rget_def)
qed

lemma run_ok_initial: "run_ok c (initialState c)"
  by (simp add: run_ok_def initialState_def mirror_accounting_def accounting_ok_def)

lemma mirror_entry_amounts:
  "validate_budget_entry p = Inr () \<Longrightarrow> amounts_ok (mirror_entry c p d k)"
proof -
  assume v: "validate_budget_entry p = Inr ()"
  have "0 \<le> num_of v \<and> num_of v \<le> max_safe" if "isSafeCount v" for v
    using that by (cases v rule: is_safe_number.cases) (auto simp: isSafeCount_def safe_int_def max_safe_def)
  with v show ?thesis
    by (auto simp: validate_budget_entry_def expect_fields_def need_str_def ensure_Inr_iff Let_def
        amounts_ok_def mirror_entry_def)
qed

lemma mirror_accounting_cong:
  "rs_budget s' = rs_budget s \<Longrightarrow> rs_budgetByAction s' = rs_budgetByAction s \<Longrightarrow>
   mirror_accounting s' = mirror_accounting s"
  by (simp add: mirror_accounting_def)

lemma mirror_ok_after:
  assumes "accounting_ok l (mirror_accounting s)" "distinct (map fst (rs_budgetByAction s))"
    and "applyBudgetEntry (mirror_accounting s) l e = Inr acc"
  shows "accounting_ok l (mirror_accounting (with_balance acc d i (s\<lparr>rs_budget := dimensions acc\<rparr>)))"
proof -
  let ?s' = "with_balance acc d i (s\<lparr>rs_budget := dimensions acc\<rparr>)"
  have acc: "accounting_ok l acc" by (rule applyBudgetEntry_ok [OF assms(1,3)])
  have "dimensions (mirror_accounting ?s') = dimensions acc" by (simp add: mirror_accounting_def)
  moreover have "0 \<le> a_reserved b \<and> 0 \<le> a_spent b"
    if "map_of (actions (mirror_accounting ?s')) k = Some b" for k b
  proof -
    from mirror_keys [OF that] obtain e j where k: "k = action_key e j" by blast
    show ?thesis
      using that assms(1) accounting_ok_balance [OF acc, of d j]
      unfolding k mirror_balance_after [OF assms(2)]
      by (auto simp: accounting_ok_def split: if_splits)
  qed
  ultimately show ?thesis using acc by (simp add: accounting_ok_def)
qed

lemma event_keys:
  assumes "apply_payload sha c s ty p = Inr s'"
  shows "(distinct (map fst (rs_actions s)) \<longrightarrow> distinct (map fst (rs_actions s')))
    \<and> (distinct (map fst (rs_observations s)) \<longrightarrow> distinct (map fst (rs_observations s')))
    \<and> (distinct (map fst (rs_externalJobs s)) \<longrightarrow> distinct (map fst (rs_externalJobs s')))"
  using assms
  by (cases rule: event_cases) (auto simp: store_action_def with_balance_def distinct_update split: option.splits)

lemma event_run_ok:
  assumes "run_ok c s" "apply_payload sha c s ty p = Inr s'"
  shows "run_ok c s'"
proof -
  have adv: "actions_advance s s'" by (rule event_advances [OF assms(2)])
  have ok: "rs_runId s = rc_runId c"
    "\<And>i a. map_of (rs_actions s) i = Some a \<Longrightarrow> act_actionId a = i \<and> act_reservationSeq a \<le> rs_reservationCounter s"
    "\<And>k v. map_of (rs_observations s) k = Some v \<Longrightarrow> k = key_of_observation v \<and> validateObservation v = Inr ()"
    "\<And>k v. map_of (rs_rngReceipts s) k = Some v \<Longrightarrow> k = receipt_key v \<and> validateRngReceipt v = Inr ()"
    "\<And>i w m. map_of (rs_waves s) i = Some w \<Longrightarrow> wv_status w = WaveCommitted \<Longrightarrow> m \<in> set (wv_members w)
      \<Longrightarrow> member_terminal s m"
    "distinct (map fst (rs_budgetByAction s))" "accounting_ok (rc_budgetLimits c) (mirror_accounting s)"
    and dist: "distinct (map fst (rs_actions s))" "distinct (map fst (rs_observations s))"
      "distinct (map fst (rs_externalJobs s))"
    using assms(1) unfolding run_ok_def by blast+
  have dist': "distinct (map fst (rs_actions s'))" "distinct (map fst (rs_observations s'))"
      "distinct (map fst (rs_externalJobs s'))"
    using event_keys [OF assms(2)] dist by auto
  have waves: "member_terminal s' m"
    if "map_of (rs_waves s) i = Some w" "wv_status w = WaveCommitted" "m \<in> set (wv_members w)" for i w m
    by (rule member_terminal_stays [OF adv ok(5) [OF that]])
  have keep: "act_actionId b = act_actionId a \<and> act_reservationSeq b = act_reservationSeq a"
    if "action_moved a b" for a b
    using that by (simp add: action_moved_def same_reservation_def)
  have same: "mirror_accounting s' = mirror_accounting s"
    if "rs_budget s' = rs_budget s" "rs_budgetByAction s' = rs_budgetByAction s"
    using that by (rule mirror_accounting_cong)
  show ?thesis
    using assms(2)
  proof (cases rule: event_cases)
    case (phase to)
    with ok dist' waves same show ?thesis unfolding run_ok_def by auto
  next
    case (reserved a)
    with ok dist' waves same show ?thesis unfolding run_ok_def
      by (auto simp: store_action_def split: if_splits) fastforce+
  next
    case (moved i a b j)
    with ok(2) [OF moved(1)] keep [OF moved(2)] ok dist' waves same show ?thesis unfolding run_ok_def
      by (auto simp: store_action_def split: if_splits)
  next
    case (committed i a b)
    with ok(2) [OF committed(1)] keep [OF committed(2)] ok dist' waves same show ?thesis unfolding run_ok_def
      by (auto simp: store_action_def split: if_splits)
  next
    case (observed i a b obs)
    with ok(2) [OF observed(1)] keep [OF observed(2)] ok dist' waves same show ?thesis unfolding run_ok_def
      by (auto simp: store_action_def split: if_splits)
  next
    case (wave_committed i w h)
    have "member_terminal s' m" if "m \<in> set (wv_members w)" for m
      using wave_committed(3) that member_terminal_stays [OF adv] by (simp add: list_all_iff)
    with wave_committed ok dist' waves same show ?thesis unfolding run_ok_def by (auto split: if_splits)
  next
    case (wave_planned w)
    with ok dist' waves same show ?thesis unfolding run_ok_def by (auto split: if_splits)
  next
    case (budget k d acc)
    have "distinct (map fst (rs_budgetByAction s'))"
      using ok(6) by (auto simp: budget(6) with_balance_def distinct_update split: option.splits)
    moreover have "accounting_ok (rc_budgetLimits c) (mirror_accounting s')"
      unfolding budget(6) by (rule mirror_ok_after [OF ok(7,6) budget(5)])
    ultimately show ?thesis using ok dist' waves unfolding run_ok_def by (auto simp: budget(6))
  next
    case (rng receipt)
    with ok dist' waves same show ?thesis unfolding run_ok_def by (auto split: if_splits)
  qed (use ok dist' waves same in \<open>auto simp: run_ok_def split: if_splits\<close>)
qed

lemma run_ok_position [simp]: "run_ok c (s\<lparr>rs_seq := n, rs_lastEventHash := h\<rparr>) \<longleftrightarrow> run_ok c s"
  by (simp add: run_ok_def mirror_accounting_def member_terminal_def)

lemma reduceEvent_run_ok:
  assumes "run_ok c s" "reduceEvent sha c s ev = Inr s'"
  shows "run_ok c s'"
  by (rule event_run_ok [OF _ reduceEvent_apply(1) [OF assms(2)]]) (simp add: assms(1))

interpretation rf: event_fold "reduceEvent sha c" "\<lambda>_. True" "run_ok c" for sha c
  by unfold_locales (rule reduceEvent_run_ok)

section \<open>The mirror follows the ledger\<close>

text \<open>A ledger accounting and a state that hold the same totals and balances.\<close>

definition mirrors :: "budget_accounting \<Rightarrow> run_state \<Rightarrow> bool" where
  "mirrors acc s \<longleftrightarrow>
     map_of (dimensions acc) = map_of (rs_budget s)
     \<and> (\<forall>d i. map_of (actions acc) (action_key d i) = map_of (actions (mirror_accounting s)) (action_key d i))"

text \<open>What an entry and a \<open>budget.entry\<close> payload have to share.\<close>

definition entry_facts :: "budget_entry \<Rightarrow> budget_kind \<times> budget_dimension \<times> jstring option \<times> int \<times> int" where
  "entry_facts e = (be_kind e, be_dimension e, be_actionId e, be_amount e, be_unpricedUnits e)"

lemma apply_same_facts:
  assumes "map_of (dimensions acc) = map_of (dimensions acc2)"
    and "\<And>d i. map_of (actions acc) (action_key d i) = map_of (actions acc2) (action_key d i)"
    and "entry_facts e = entry_facts e2"
    and "applyBudgetEntry acc l e = Inr r" "applyBudgetEntry acc2 l e2 = Inr r2"
  shows "map_of (dimensions r) = map_of (dimensions r2)"
    and "map_of (actions r) (action_key d i) = map_of (actions r2) (action_key d i)"
proof -
  have e: "be_kind e2 = be_kind e" "be_dimension e2 = be_dimension e" "be_actionId e2 = be_actionId e"
    "be_amount e2 = be_amount e" "be_unpricedUnits e2 = be_unpricedUnits e"
    using assms(3) by (simp_all add: entry_facts_def)
  have t: "totals_of acc2 = totals_of acc" "balance_of acc2 = balance_of acc"
    using assms(1,2) by (auto simp: totals_of_def balance_of_def fun_eq_iff split: option.splits)
  obtain t a where p: "post_entry (be_kind e) (be_amount e) (be_unpricedUnits e) (totals_of acc (be_dimension e))
       (map_option (balance_of acc (be_dimension e)) (be_actionId e)) = Inr (t, a)"
    and r: "r = acc\<lparr>dimensions := AList.update (be_dimension e) t (dimensions acc),
                actions := (case (a, be_actionId e) of
                    (Some b, Some i) \<Rightarrow> AList.update (action_key (be_dimension e) i) b (actions acc)
                  | _ \<Rightarrow> actions acc)\<rparr>"
    using assms(4) by (rule applyBudgetEntryE) blast
  obtain t2 a2 where p2: "post_entry (be_kind e2) (be_amount e2) (be_unpricedUnits e2) (totals_of acc2 (be_dimension e2))
       (map_option (balance_of acc2 (be_dimension e2)) (be_actionId e2)) = Inr (t2, a2)"
    and r2: "r2 = acc2\<lparr>dimensions := AList.update (be_dimension e2) t2 (dimensions acc2),
                actions := (case (a2, be_actionId e2) of
                    (Some b, Some i) \<Rightarrow> AList.update (action_key (be_dimension e2) i) b (actions acc2)
                  | _ \<Rightarrow> actions acc2)\<rparr>"
    using assms(5) by (rule applyBudgetEntryE) blast
  from p p2 have "t2 = t" "a2 = a" by (simp_all add: e t)
  with r r2 assms(1,2) show "map_of (dimensions r) = map_of (dimensions r2)"
    and "map_of (actions r) (action_key d i) = map_of (actions r2) (action_key d i)"
    by (auto simp: e split: option.splits)
qed

lemma applied_balance:
  assumes "applyBudgetEntry acc l e = Inr r"
  shows "map_of (actions r) (action_key d i)
    = (if be_actionId e = Some i \<and> be_dimension e = d then Some (balance_of r d i)
       else map_of (actions acc) (action_key d i))"
proof -
  obtain t a where p: "post_entry (be_kind e) (be_amount e) (be_unpricedUnits e) (totals_of acc (be_dimension e))
       (map_option (balance_of acc (be_dimension e)) (be_actionId e)) = Inr (t, a)"
    and r: "r = acc\<lparr>dimensions := AList.update (be_dimension e) t (dimensions acc),
                actions := (case (a, be_actionId e) of
                    (Some b, Some i) \<Rightarrow> AList.update (action_key (be_dimension e) i) b (actions acc)
                  | _ \<Rightarrow> actions acc)\<rparr>"
    using assms by (rule applyBudgetEntryE) blast
  have "be_actionId e \<noteq> None \<Longrightarrow> a \<noteq> None"
    using p by (cases "be_kind e") (auto simp: ensure_Inr_iff)
  then show ?thesis by (auto simp: r balance_of_def split: option.splits)
qed

lemma mirrors_step:
  assumes "mirrors acc s" "applyBudgetEntry acc l e = Inr r"
    and "applyBudgetEntry (mirror_accounting s) l e2 = Inr r2" "entry_facts e = entry_facts e2"
    and "distinct (map fst (rs_budgetByAction s))"
  shows "mirrors r (with_balance r2 (be_dimension e2) (be_actionId e2) (s\<lparr>rs_budget := dimensions r2\<rparr>))"
proof -
  note same = apply_same_facts [of acc "mirror_accounting s", OF _ _ assms(4,2,3)]
  have "map_of (dimensions acc) = map_of (dimensions (mirror_accounting s))"
    "\<And>d i. map_of (actions acc) (action_key d i) = map_of (actions (mirror_accounting s)) (action_key d i)"
    using assms(1) by (simp_all add: mirrors_def mirror_accounting_def)
  note same = same [OF this]
  show ?thesis
    unfolding mirrors_def mirror_balance_after [OF assms(5)] same(2)
    by (auto simp: same(1) applied_balance [OF assms(3)])
qed

text \<open>The \<open>budget.entry\<close> payloads among the events, as entry facts.\<close>

definition budget_facts :: "fields \<Rightarrow> (budget_kind \<times> budget_dimension \<times> jstring option \<times> int \<times> int) option" where
  "budget_facts ev =
     (let p = obj_of (fget ev (js ''payload'')) in
      if fget ev (js ''type'') = JStr (js ''budget.entry'')
      then (case (as_kind (fget p (js ''kind'')), as_dimension (fget p (js ''dimension''))) of
              (Some k, Some d) \<Rightarrow>
                Some (k, d, str_option (fget p (js ''actionId'')), num_of (fget p (js ''amount'')),
                      num_of (fget p (js ''unpricedUnits'')))
            | _ \<Rightarrow> None)
      else None)"

lemma mirrors_cong:
  "rs_budget s' = rs_budget s \<Longrightarrow> rs_budgetByAction s' = rs_budgetByAction s \<Longrightarrow> mirrors acc s' = mirrors acc s"
  by (simp add: mirrors_def mirror_accounting_def)

text \<open>An event that is not a budget entry leaves the mirror alone; a budget entry posts its facts.\<close>

lemma event_mirror:
  assumes "reduceEvent sha c s ev = Inr s'"
  shows "case budget_facts ev of
      None \<Rightarrow> rs_budget s' = rs_budget s \<and> rs_budgetByAction s' = rs_budgetByAction s
    | Some f \<Rightarrow> \<exists>e acc. entry_facts e = f
        \<and> applyBudgetEntry (mirror_accounting s) (rc_budgetLimits c) e = Inr acc
        \<and> mirrors a s' = mirrors a (with_balance acc (be_dimension e) (be_actionId e) (s\<lparr>rs_budget := dimensions acc\<rparr>))"
proof -
  let ?s = "s\<lparr>rs_seq := rs_seq s + 1, rs_lastEventHash := fget ev (js ''eventHash'')\<rparr>"
  let ?p = "obj_of (fget ev (js ''payload''))"
  have ty: "fget ev (js ''type'') = JStr (pstr ev ''type'')"
    using assms by (auto simp: reduceEvent_def ensure_Inr_iff pstr_def dest!: is_strE)
  have acc: "mirror_accounting ?s = mirror_accounting s" by (simp add: mirror_accounting_def)
  show ?thesis
  proof (cases "pstr ev ''type'' = js ''budget.entry''")
    case True
    with reduceEvent_apply(1) [OF assms] have "mirrorBudget c ?p ?s = Inr s'"
      by (auto simp: apply_payload_simps bindR_Inr_iff)
    from mirrorBudgetD [OF this] obtain k d r where r: "as_kind (fget ?p (js ''kind'')) = Some k"
      "as_dimension (fget ?p (js ''dimension'')) = Some d"
      "applyBudgetEntry (mirror_accounting s) (rc_budgetLimits c) (mirror_entry c ?p d k) = Inr r"
      "s' = with_balance r d (str_option (fget ?p (js ''actionId''))) (?s\<lparr>rs_budget := dimensions r\<rparr>)"
      by (auto simp: acc)
    have f: "budget_facts ev = Some (entry_facts (mirror_entry c ?p d k))"
      by (simp add: budget_facts_def ty True r(1,2) entry_facts_def mirror_entry_def Let_def)
    have "mirrors a s' = mirrors a (with_balance r d (str_option (fget ?p (js ''actionId''))) (s\<lparr>rs_budget := dimensions r\<rparr>))"
      unfolding r(4) by (rule mirrors_cong) (simp_all add: with_balance_def split: option.splits)
    then show ?thesis using r(3) by (auto simp: f mirror_entry_def intro!: exI [of _ "mirror_entry c ?p d k"])
  next
    case False
    have none: "budget_facts ev = None" by (simp add: budget_facts_def ty False)
    from reduceEvent_apply(1) [OF assms] have "rs_budget s' = rs_budget s \<and> rs_budgetByAction s' = rs_budgetByAction s"
      by (cases rule: event_cases) (use False in \<open>auto simp: store_action_def\<close>)
    then show ?thesis by (simp add: none)
  qed
qed

lemma replay_mirrors:
  assumes "foldR (\<lambda>acc. applyBudgetEntry acc (rc_budgetLimits c)) acc es = Inr acc'"
    and "foldR (reduceEvent sha c) s evs = Inr s'"
    and "mirrors acc s" "run_ok c s" "List.map_filter budget_facts evs = map entry_facts es"
  shows "mirrors acc' s'"
  using assms
proof (induction evs arbitrary: acc es s)
  case Nil
  then show ?case by (simp add: map_filter_simps)
next
  case (Cons ev evs)
  from Cons.prems(2) obtain m where m: "reduceEvent sha c s ev = Inr m" "foldR (reduceEvent sha c) m evs = Inr s'"
    by (auto simp: bindR_Inr_iff)
  have ok: "run_ok c m" by (rule reduceEvent_run_ok [OF Cons.prems(4) m(1)])
  note step = event_mirror [OF m(1)]
  show ?case
  proof (cases "budget_facts ev")
    case None
    with step [of acc] have "rs_budget m = rs_budget s" "rs_budgetByAction m = rs_budgetByAction s" by simp_all
    from mirrors_cong [OF this] Cons.prems(3) have "mirrors acc m" by simp
    with Cons.prems(5) None show ?thesis
      by (intro Cons.IH [OF Cons.prems(1) m(2) _ ok]) (simp_all add: map_filter_simps)
  next
    case (Some f)
    with Cons.prems(5) obtain e es' where es: "es = e # es'" "entry_facts e = f"
      and rest: "List.map_filter budget_facts evs = map entry_facts es'"
      by (auto simp: map_filter_simps Cons_eq_map_conv)
    from Cons.prems(1) obtain r where r: "applyBudgetEntry acc (rc_budgetLimits c) e = Inr r"
      "foldR (\<lambda>acc. applyBudgetEntry acc (rc_budgetLimits c)) r es' = Inr acc'"
      by (auto simp: es bindR_Inr_iff)
    from step [of r] Some obtain e2 r2 where e2: "entry_facts e2 = f"
      "applyBudgetEntry (mirror_accounting s) (rc_budgetLimits c) e2 = Inr r2"
      "mirrors r m = mirrors r (with_balance r2 (be_dimension e2) (be_actionId e2) (s\<lparr>rs_budget := dimensions r2\<rparr>))"
      by auto
    have "distinct (map fst (rs_budgetByAction s))" using Cons.prems(4) by (simp add: run_ok_def)
    from mirrors_step [OF Cons.prems(3) r(1) e2(2) _ this] e2(1,3) es(2) have "mirrors r m" by simp
    then show ?thesis by (rule Cons.IH [OF r(2) m(2) _ ok rest])
  qed
qed

end
