(* ===== verification/Interleaving.thy ===== *)
theory Interleaving
  imports ReducerLaws
begin

text \<open>
  The hashed core of the state does not depend on how the events of concurrent actions are
  interleaved: what \<^verbatim>\<open>state/reducer.ts\<close> promises for completion orders inside a wave. An event
  of a running action changes that action, its external job and at most one fresh observation;
  the final value of each is determined by the subsequence of the action's own events.
\<close>

section \<open>Events of one action\<close>

type_synonym event_body = "jstring \<times> fields"

definition body_of :: "fields \<Rightarrow> event_body" where
  "body_of ev = (pstr ev ''type'', obj_of (fget ev (js ''payload'')))"

definition action_event :: "event_body \<Rightarrow> bool" where
  "action_event e \<longleftrightarrow>
     fst e \<in> {js ''action.launched'', js ''action.observed-terminal'', js ''artifact.collected'',
              js ''action.committed'', js ''action.terminal''}"

definition owner :: "event_body \<Rightarrow> jstring" where
  "owner e = pstr (snd e) ''actionId''"

text \<open>What such an event makes of the action it names.\<close>

definition act_step :: "event_body \<Rightarrow> action_state \<Rightarrow> action_state res" where
  "act_step e a =
     (if fst e = js ''action.launched'' then
        bindR (transitionAction a RUNNING []) (\<lambda>b.
          Inr (b\<lparr>act_externalJobId := Some (pstr (snd e) ''externalJobId'')\<rparr>))
      else if fst e = js ''action.observed-terminal'' then transitionAction a COLLECTING []
      else if fst e = js ''artifact.collected'' then
        Inr (a\<lparr>act_artifacts := act_artifacts a @ [fget (snd e) (js ''artifact'')]\<rparr>)
      else if fst e = js ''action.committed'' then transitionAction a COMMITTED []
      else (case as_action_status (pstr (snd e) ''status'') of
              None \<Rightarrow> Inr a | Some to \<Rightarrow> transitionAction a to (pstr (snd e) ''reason'')))"

definition act_next :: "action_state \<Rightarrow> event_body \<Rightarrow> action_state" where
  "act_next a e = (case act_step e a of Inr b \<Rightarrow> b | Inl _ \<Rightarrow> a)"

definition job_next :: "jstring option \<Rightarrow> event_body \<Rightarrow> jstring option" where
  "job_next j e = (if fst e = js ''action.launched'' then Some (pstr (snd e) ''externalJobId'') else j)"

definition new_observation :: "event_body \<Rightarrow> (jstring \<times> jsval) option" where
  "new_observation e =
     (let obs = fget (snd e) (js ''observation'') in
      if fst e = js ''action.committed'' \<and> obs \<noteq> JNull then Some (key_of_observation obs, obs) else None)"

text \<open>Everything else in the state.\<close>

definition same_rest :: "run_state \<Rightarrow> run_state \<Rightarrow> bool" where
  "same_rest s s' \<longleftrightarrow>
     rs_runId s' = rs_runId s \<and> rs_phase s' = rs_phase s \<and> rs_waves s' = rs_waves s
     \<and> rs_candidates s' = rs_candidates s \<and> rs_rngReceipts s' = rs_rngReceipts s
     \<and> rs_budget s' = rs_budget s \<and> rs_budgetByAction s' = rs_budgetByAction s
     \<and> rs_candidateLock s' = rs_candidateLock s \<and> rs_sealedRevealed s' = rs_sealedRevealed s
     \<and> rs_reservationCounter s' = rs_reservationCounter s"

lemma action_event_effect:
  assumes "apply_payload sha c s ty p = Inr s'" "action_event (ty, p)"
    and "\<forall>i a. map_of (rs_actions s) i = Some a \<longrightarrow> act_actionId a = i"
  shows "\<exists>a. map_of (rs_actions s) (owner (ty, p)) = Some a
    \<and> rs_actions s' = AList.update (owner (ty, p)) (act_next a (ty, p)) (rs_actions s)
    \<and> rs_externalJobs s' = (if ty = js ''action.launched''
         then AList.update (owner (ty, p)) (pstr p ''externalJobId'') (rs_externalJobs s) else rs_externalJobs s)
    \<and> (case new_observation (ty, p) of
         None \<Rightarrow> rs_observations s' = rs_observations s
       | Some (k, v) \<Rightarrow> map_of (rs_observations s) k = None
           \<and> rs_observations s' = AList.update k v (rs_observations s))
    \<and> same_rest s s'"
  using assms(1)
proof (cases rule: apply_payload_cases)
  case launched
  from on_launchedD [OF launched(3)] obtain a b where a: "map_of (rs_actions s) (pstr p ''actionId'') = Some a"
    "transitionAction a RUNNING [] = Inr b"
    "s' = (store_action (pstr p ''actionId'') (b\<lparr>act_externalJobId := Some (pstr p ''externalJobId'')\<rparr>) s)
             \<lparr>rs_externalJobs := AList.update (act_actionId b) (pstr p ''externalJobId'') (rs_externalJobs s)\<rparr>"
    by blast
  have "act_actionId b = pstr p ''actionId''"
    using a(1,2) assms(3) by (auto simp: transitionAction_iff)
  with a launched(1) show ?thesis
    by (simp add: owner_def act_next_def act_step_def new_observation_def same_rest_def store_action_def Let_def)
next
  case observed
  from on_observed_terminalD [OF observed(3)] obtain a b where
    "map_of (rs_actions s) (pstr p ''actionId'') = Some a" "transitionAction a COLLECTING [] = Inr b"
    "s' = store_action (pstr p ''actionId'') b s" by blast
  with observed(1) show ?thesis
    by (simp add: owner_def act_next_def act_step_def new_observation_def same_rest_def store_action_def Let_def)
next
  case artifact
  from on_artifact_collectedD [OF artifact(3)] obtain a where
    "map_of (rs_actions s) (pstr p ''actionId'') = Some a"
    "s' = store_action (pstr p ''actionId'')
             (a\<lparr>act_artifacts := act_artifacts a @ [fget p (js ''artifact'')]\<rparr>) s" by blast
  with artifact(1) show ?thesis
    by (simp add: owner_def act_next_def act_step_def new_observation_def same_rest_def store_action_def Let_def)
next
  case committed
  let ?o = "fget p (js ''observation'')"
  from on_committedD [OF committed(3)] obtain a b where a: "map_of (rs_actions s) (pstr p ''actionId'') = Some a"
    "transitionAction a COMMITTED [] = Inr b"
    "if ?o = JNull then s' = store_action (pstr p ''actionId'') b s
     else rget (rs_observations s) (key_of_observation ?o) = Absent
         \<and> s' = (store_action (pstr p ''actionId'') b s)\<lparr>rs_observations :=
              AList.update (key_of_observation ?o) ?o (rs_observations s)\<rparr>" by blast
  show ?thesis
    by (cases "?o = JNull")
      (use a committed(1) in \<open>simp_all add: owner_def act_next_def act_step_def new_observation_def
        same_rest_def store_action_def Let_def rget_Absent_iff\<close>)
next
  case terminal
  from on_terminalD [OF terminal(3)] obtain a b to where
    "map_of (rs_actions s) (pstr p ''actionId'') = Some a" "as_action_status (pstr p ''status'') = Some to"
    "transitionAction a to (pstr p ''reason'') = Inr b" "s' = store_action (pstr p ''actionId'') b s" by blast
  with terminal(1) show ?thesis
    by (simp add: owner_def act_next_def act_step_def new_observation_def same_rest_def store_action_def Let_def)
qed (use assms(2) in \<open>auto simp: action_event_def\<close>)

section \<open>Sequences\<close>

definition own_events :: "jstring \<Rightarrow> event_body list \<Rightarrow> event_body list" where
  "own_events i es = filter (\<lambda>e. owner e = i) es"

lemma own_events_simps [simp]:
  "own_events i [] = []"
  "own_events i (e # es) = (if owner e = i then e # own_events i es else own_events i es)"
  by (simp_all add: own_events_def)

lemma same_rest_trans: "same_rest a b \<Longrightarrow> same_rest b c \<Longrightarrow> same_rest a c"
  by (simp add: same_rest_def)

lemma reduce_action_event:
  assumes "reduceEvent sha c s ev = Inr s'" "action_event (body_of ev)" "run_ok c s"
  shows "\<exists>a. map_of (rs_actions s) (owner (body_of ev)) = Some a
    \<and> map_of (rs_actions s') = (map_of (rs_actions s))(owner (body_of ev) \<mapsto> act_next a (body_of ev))
    \<and> (\<forall>i. map_of (rs_externalJobs s') i = (if owner (body_of ev) = i
         then job_next (map_of (rs_externalJobs s) i) (body_of ev) else map_of (rs_externalJobs s) i))
    \<and> (\<forall>k v. map_of (rs_observations s') k = Some v \<longleftrightarrow>
         map_of (rs_observations s) k = Some v \<or> new_observation (body_of ev) = Some (k, v))
    \<and> same_rest s s'"
proof -
  let ?s = "s\<lparr>rs_seq := rs_seq s + 1, rs_lastEventHash := fget ev (js ''eventHash'')\<rparr>"
  obtain ty p where b: "body_of ev = (ty, p)" by (cases "body_of ev")
  have app: "apply_payload sha c ?s ty p = Inr s'"
    using reduceEvent_apply(1) [OF assms(1)] b by (simp add: body_of_def)
  have keys: "\<forall>i a. map_of (rs_actions ?s) i = Some a \<longrightarrow> act_actionId a = i"
    using assms(3) by (auto simp: run_ok_def)
  have sel: "rs_actions ?s = rs_actions s" "rs_externalJobs ?s = rs_externalJobs s"
    "rs_observations ?s = rs_observations s" by simp_all
  have ae: "action_event (ty, p)" using assms(2) by (simp only: b)
  from action_event_effect [OF app ae keys, unfolded sel] obtain a where a:
    "map_of (rs_actions s) (owner (ty, p)) = Some a"
    "rs_actions s' = AList.update (owner (ty, p)) (act_next a (ty, p)) (rs_actions s)"
    "rs_externalJobs s' = (if ty = js ''action.launched''
         then AList.update (owner (ty, p)) (pstr p ''externalJobId'') (rs_externalJobs s) else rs_externalJobs s)"
    "case new_observation (ty, p) of
         None \<Rightarrow> rs_observations s' = rs_observations s
       | Some (k, v) \<Rightarrow> map_of (rs_observations s) k = None
           \<and> rs_observations s' = AList.update k v (rs_observations s)"
    "same_rest ?s s'" by blast
  have "same_rest s s'" using a(5) by (simp add: same_rest_def)
  moreover have "map_of (rs_observations s') k = Some v \<longleftrightarrow>
         map_of (rs_observations s) k = Some v \<or> new_observation (ty, p) = Some (k, v)" for k v
    using a(4) by (cases "new_observation (ty, p)") (auto split: if_splits)
  ultimately show ?thesis using a(1-3) by (auto simp: b job_next_def)
qed

lemma replay_action_events:
  assumes "foldR (reduceEvent sha c) s evs = Inr s'" "\<forall>ev\<in>set evs. action_event (body_of ev)" "run_ok c s"
  shows "map_of (rs_actions s') i
      = map_option (\<lambda>a. foldl act_next a (own_events i (map body_of evs))) (map_of (rs_actions s) i)
    \<and> map_of (rs_externalJobs s') i
      = foldl job_next (map_of (rs_externalJobs s) i) (own_events i (map body_of evs))
    \<and> (\<forall>k v. map_of (rs_observations s') k = Some v \<longleftrightarrow>
         map_of (rs_observations s) k = Some v \<or> (\<exists>ev\<in>set evs. new_observation (body_of ev) = Some (k, v)))
    \<and> same_rest s s' \<and> run_ok c s'"
  using assms
proof (induction evs arbitrary: s)
  case Nil
  then show ?case by (simp add: same_rest_def option.map_ident)
next
  case (Cons ev evs)
  from Cons.prems(1) obtain m where m: "reduceEvent sha c s ev = Inr m" "foldR (reduceEvent sha c) m evs = Inr s'"
    by (auto simp: bindR_Inr_iff)
  have ok: "run_ok c m" by (rule reduceEvent_run_ok [OF Cons.prems(3) m(1)])
  have ev: "action_event (body_of ev)" "\<forall>ev\<in>set evs. action_event (body_of ev)" using Cons.prems(2) by auto
  from reduce_action_event [OF m(1) ev(1) Cons.prems(3)] obtain a where a:
    "map_of (rs_actions s) (owner (body_of ev)) = Some a"
    "map_of (rs_actions m) = (map_of (rs_actions s))(owner (body_of ev) \<mapsto> act_next a (body_of ev))"
    "\<And>i. map_of (rs_externalJobs m) i = (if owner (body_of ev) = i
         then job_next (map_of (rs_externalJobs s) i) (body_of ev) else map_of (rs_externalJobs s) i)"
    "\<And>k v. map_of (rs_observations m) k = Some v \<longleftrightarrow>
         map_of (rs_observations s) k = Some v \<or> new_observation (body_of ev) = Some (k, v)"
    "same_rest s m" by blast
  from Cons.IH [OF m(2) ev(2) ok] a show ?case
    by (auto intro: same_rest_trans)
qed

section \<open>Dictionaries with the same content\<close>

lemma dict_mset_eq:
  assumes "distinct (map fst m)" "distinct (map fst n)" "map_of m = map_of n"
  shows "mset m = mset n"
proof -
  have "set m = set n"
    using map_of_eq_Some_iff [OF assms(1)] map_of_eq_Some_iff [OF assms(2)] by (auto simp: assms(3))
  moreover have "distinct m" "distinct n" using assms(1,2) by (auto simp: distinct_map)
  ultimately show ?thesis by (simp add: set_eq_iff_mset_eq_distinct)
qed

lemma sorted_dict_eq:
  assumes "distinct (map fst m)" "distinct (map fst n)" "map_of m = map_of n"
  shows "sort_key fst m = sort_key fst n"
  by (rule sort_key_inj_key_eq)
    (use dict_mset_eq [OF assms] assms(1) in \<open>simp_all add: distinct_map\<close>)

text \<open>Values that carry their own key, sorted by it.\<close>

lemma sorted_by_own_key:
  assumes "distinct (map fst m)" "distinct (map fst n)" "map_of m = map_of n"
    and key: "\<And>i a. map_of m i = Some a \<Longrightarrow> key a = i"
  shows "sort_key key (map snd m) = sort_key key (map snd n)"
proof (rule sort_key_inj_key_eq)
  show "mset (map snd m) = mset (sort_key key (map snd n))"
    using dict_mset_eq [OF assms(1-3)] by simp
  show "inj_on key (set (map snd m))"
  proof (rule inj_onI)
    fix a b
    assume "a \<in> set (map snd m)" "b \<in> set (map snd m)" and eq: "key a = key b"
    then obtain i j where "(i, a) \<in> set m" "(j, b) \<in> set m" by auto
    then have i: "map_of m i = Some a" "map_of m j = Some b" using assms(1) by simp_all
    with key [OF i(1)] key [OF i(2)] eq show "a = b" by simp
  qed
  show "sorted (map key (sort_key key (map snd n)))" by simp
qed

lemma sorted_object_eq:
  assumes "distinct (map fst m)" "distinct (map fst n)" "map_of m = map_of n"
  shows "sorted_object f m = sorted_object f n" "sorted_values m = sorted_values n"
  using sorted_dict_eq [OF assms]
  by (simp_all add: sorted_object_def sorted_values_def sort_key_map_value)

section \<open>Interleavings\<close>

lemma core_eq:
  assumes "run_ok c s1" "run_ok c s2" "same_rest s s1" "same_rest s s2"
    and "map_of (rs_actions s1) = map_of (rs_actions s2)"
    and "map_of (rs_observations s1) = map_of (rs_observations s2)"
    and "map_of (rs_externalJobs s1) = map_of (rs_externalJobs s2)"
  shows "hashableCore s1 = hashableCore s2"
proof -
  have d: "distinct (map fst (rs_actions s1))" "distinct (map fst (rs_actions s2))"
    "distinct (map fst (rs_observations s1))" "distinct (map fst (rs_observations s2))"
    "distinct (map fst (rs_externalJobs s1))" "distinct (map fst (rs_externalJobs s2))"
    and keys: "\<And>i a. map_of (rs_actions s1) i = Some a \<Longrightarrow> act_actionId a = i"
    using assms(1,2) by (simp_all add: run_ok_def)
  have rest: "rs_runId s1 = rs_runId s2" "rs_phase s1 = rs_phase s2" "rs_waves s1 = rs_waves s2"
    "rs_candidates s1 = rs_candidates s2" "rs_rngReceipts s1 = rs_rngReceipts s2"
    "rs_budget s1 = rs_budget s2" "rs_budgetByAction s1 = rs_budgetByAction s2" "core_locks s1 = core_locks s2"
    "rs_reservationCounter s1 = rs_reservationCounter s2"
    using assms(3,4) by (simp_all add: same_rest_def core_locks_def)
  show ?thesis
    using sorted_by_own_key [OF d(1,2) assms(5), of act_actionId, OF keys]
      sorted_object_eq(2) [OF d(3,4) assms(6)] sorted_object_eq(1) [OF d(5,6) assms(7)]
    by (simp add: hashableCore_def rest)
qed

lemma map_eqI_Some: "(\<And>k v. m k = Some v \<longleftrightarrow> n k = Some v) \<Longrightarrow> m = n"
  by (metis ext not_Some_eq)

lemma own_events_set: "(\<forall>i. own_events i es = own_events i fs) \<Longrightarrow> set es = set fs"
proof -
  have *: "e \<in> set es \<longleftrightarrow> e \<in> set (own_events (owner e) es)" for e es by (simp add: own_events_def)
  assume "\<forall>i. own_events i es = own_events i fs"
  with * [of _ es] * [of _ fs] show ?thesis by auto
qed

lemma interleaved_core:
  assumes "foldR (reduceEvent sha c) s evs = Inr s1" "foldR (reduceEvent sha c) s evs' = Inr s2" "run_ok c s"
    and "\<forall>ev\<in>set evs \<union> set evs'. action_event (body_of ev)"
    and own: "\<forall>i. own_events i (map body_of evs) = own_events i (map body_of evs')"
  shows "hashableCore s1 = hashableCore s2"
proof -
  note one = replay_action_events [OF assms(1) _ assms(3)]
  note two = replay_action_events [OF assms(2) _ assms(3)]
  have ae: "\<forall>ev\<in>set evs. action_event (body_of ev)" "\<forall>ev\<in>set evs'. action_event (body_of ev)"
    using assms(4) by auto
  have bodies: "body_of ` set evs = body_of ` set evs'"
    using own_events_set [OF own] by simp
  have obs: "(\<exists>ev\<in>set evs. new_observation (body_of ev) = Some (k, v))
      \<longleftrightarrow> (\<exists>ev\<in>set evs'. new_observation (body_of ev) = Some (k, v))" for k v
  proof -
    have "(\<exists>b\<in>body_of ` set evs. new_observation b = Some (k, v))
        \<longleftrightarrow> (\<exists>b\<in>body_of ` set evs'. new_observation b = Some (k, v))" by (simp only: bodies)
    then show ?thesis by simp
  qed
  show ?thesis
  proof (rule core_eq [where s = s and c = c])
    show "run_ok c s1" "run_ok c s2" "same_rest s s1" "same_rest s s2"
      using one [OF ae(1)] two [OF ae(2)] by blast+
    show "map_of (rs_actions s1) = map_of (rs_actions s2)"
      using one [OF ae(1)] two [OF ae(2)] own by (simp add: fun_eq_iff)
    show "map_of (rs_externalJobs s1) = map_of (rs_externalJobs s2)"
      using one [OF ae(1)] two [OF ae(2)] own by (simp add: fun_eq_iff)
    show "map_of (rs_observations s1) = map_of (rs_observations s2)"
      by (rule map_eqI_Some) (use one [OF ae(1)] two [OF ae(2)] obs in blast)
  qed
qed

end
