(* ===== verification/Samples.thy ===== *)
theory Samples
  imports Interleaving
begin

text \<open>
  A concrete run, evaluated once and used by the witnesses: two actions are reserved and
  launched, in both orders, and the run moves on to \<open>PREFLIGHT\<close>.
\<close>

definition sample_config :: reducer_config where
  "sample_config = \<lparr>rc_runId = js ''r'', rc_budgetLimits = (\<lambda>_. Some 100)\<rparr>"

definition sample_hash :: "int \<Rightarrow> jstring" where
  "sample_hash n = (if n = 0 then GENESIS_PREVIOUS_HASH else js ''h'' @ dec n)"

definition sample_event :: "int \<Rightarrow> string \<Rightarrow> fields \<Rightarrow> fields" where
  "sample_event n ty p =
     [(js ''schemaVersion'', JNum 1), (js ''runId'', JStr (js ''r'')), (js ''seq'', JNum n),
      (js ''type'', JStr (js ty)), (js ''payload'', JObj p),
      (js ''previousHash'', JStr (sample_hash (n - 1))), (js ''eventHash'', JStr (sample_hash n))]"

definition reserve_payload :: "string \<Rightarrow> fields" where
  "reserve_payload i =
     [(js ''actionId'', JStr (js i)), (js ''kind'', JStr (js ''trial'')), (js ''idempotencyKey'', JStr (js i)),
      (js ''request'', JObj []), (js ''waveId'', JNull), (js ''budget'', JArr [])]"

definition launch_payload :: "string \<Rightarrow> string \<Rightarrow> fields" where
  "launch_payload i j =
     [(js ''actionId'', JStr (js i)), (js ''externalJobId'', JStr (js j)), (js ''provider'', JStr (js ''p''))]"

definition phase_payload :: "string \<Rightarrow> fields" where
  "phase_payload to = [(js ''to'', JStr (js to)), (js ''reason'', JStr [])]"

lemma ensure_cong: "b = b' \<Longrightarrow> ensure b e k = ensure b' e k"
  by simp

lemma sample_shapes:
  "field_set (reserve_payload i) = js ''actionId,budget,idempotencyKey,kind,request,waveId''"
  "field_set (launch_payload i j) = js ''actionId,externalJobId,provider''"
  "field_set (phase_payload to) = js ''reason,to''"
proof -
  have "map fst (reserve_payload i)
      = map js [''actionId'', ''kind'', ''idempotencyKey'', ''request'', ''waveId'', ''budget'']"
    by (simp add: reserve_payload_def)
  then show "field_set (reserve_payload i) = js ''actionId,budget,idempotencyKey,kind,request,waveId''"
    unfolding field_set_def by (simp only:) code_simp
  have "map fst (launch_payload i j) = map js [''actionId'', ''externalJobId'', ''provider'']"
    by (simp add: launch_payload_def)
  then show "field_set (launch_payload i j) = js ''actionId,externalJobId,provider''"
    unfolding field_set_def by (simp only:) code_simp
  have "map fst (phase_payload to) = map js [''to'', ''reason'']"
    by (simp add: phase_payload_def)
  then show "field_set (phase_payload to) = js ''reason,to''"
    unfolding field_set_def by (simp only:) code_simp
qed

lemma sample_envelope:
  "fget (sample_event n ty p) (js ''schemaVersion'') = JNum 1"
  "fget (sample_event n ty p) (js ''runId'') = JStr (js ''r'')"
  "fget (sample_event n ty p) (js ''seq'') = JNum n"
  "fget (sample_event n ty p) (js ''type'') = JStr (js ty)"
  "fget (sample_event n ty p) (js ''payload'') = JObj p"
  "fget (sample_event n ty p) (js ''previousHash'') = JStr (sample_hash (n - 1))"
  "fget (sample_event n ty p) (js ''eventHash'') = JStr (sample_hash n)"
  "body_of (sample_event n ty p) = (js ty, p)"
  by (simp_all add: sample_event_def body_of_def pstr_def)

text \<open>An event that continues the state is reduced by its handler.\<close>

lemma reduce_sample:
  assumes "rs_seq s + 1 = n" "rs_lastEventHash s = JStr (sample_hash (n - 1))" "rc_runId c = js ''r''"
  shows "reduceEvent sha c s (sample_event n ty p)
    = apply_payload sha c (s\<lparr>rs_seq := n, rs_lastEventHash := JStr (sample_hash n)\<rparr>) (js ty) p"
  using assms by (auto simp: reduceEvent_def sample_envelope pstr_def eq_num_def)

lemmas sample_reduce = reduce_sample [where c = sample_config, simplified sample_config_def reducer_config.select_convs,
    OF _ _ refl, folded sample_config_def]

lemma reserve_valid: "i \<noteq> [] \<Longrightarrow> validate_reserved (reserve_payload i) = Inr ()"
proof -
  assume "i \<noteq> []"
  moreover have "\<exists>t. canonicalJson (JObj []) = Inr t" by (simp add: canonicalJson_JObj_ok)
  ultimately show ?thesis
    unfolding validate_reserved_def expect_fields_def sample_shapes
    by (auto simp: need_str_def reserve_payload_def str_or_null_def representable_def)
qed

lemma launch_valid: "i \<noteq> [] \<Longrightarrow> j \<noteq> [] \<Longrightarrow> validate_launched (launch_payload i j) = Inr ()"
  unfolding validate_launched_def expect_fields_def sample_shapes
  by (auto simp: need_str_def launch_payload_def)

lemma phase_valid: "to \<noteq> [] \<Longrightarrow> validate_phase_changed (phase_payload to) = Inr ()"
  unfolding validate_phase_changed_def expect_fields_def sample_shapes
  by (auto simp: need_str_def phase_payload_def)

definition sample_action :: "string \<Rightarrow> int \<Rightarrow> jstring option \<Rightarrow> action_state" where
  "sample_action i n j =
     \<lparr>act_actionId = js i, act_kind = js ''trial'', act_status = (if j = None then RESERVED else RUNNING),
      act_idempotencyKey = js i, act_waveId = None, act_reservationSeq = n, act_externalJobId = j,
      act_artifacts = [], act_requestHash = sample_sha (js ''{}''), act_budgetReservations = JArr [],
      act_failure = None\<rparr>"

lemma reserve_event:
  assumes "rs_seq s + 1 = n" "rs_lastEventHash s = JStr (sample_hash (n - 1))"
    and "i \<noteq> []" "rget (rs_actions s) (js i) = Absent"
  shows "reduceEvent sample_sha sample_config s (sample_event n ''action.reserved'' (reserve_payload i))
    = Inr (s\<lparr>rs_seq := n, rs_lastEventHash := JStr (sample_hash n),
             rs_actions := AList.update (js i) (sample_action i (rs_reservationCounter s + 1) None) (rs_actions s),
             rs_reservationCounter := rs_reservationCounter s + 1\<rparr>)"
proof -
  have "canonicalJson (JObj []) = Inr (js ''{}'')" by code_simp
  then show ?thesis
    unfolding sample_reduce [OF assms(1,2)] apply_payload_simps reserve_valid [OF assms(3)]
    using assms(4)
    by (simp add: on_reserved_def new_action_def reserve_payload_def pstr_def str_option_def
        canonicalHash_def store_action_def sample_action_def)
qed

lemma launch_event:
  assumes "rs_seq s + 1 = n" "rs_lastEventHash s = JStr (sample_hash (n - 1))"
    and "i \<noteq> []" "j \<noteq> []" "map_of (rs_actions s) (js i) = Some (sample_action i m None)"
  shows "reduceEvent sample_sha sample_config s (sample_event n ''action.launched'' (launch_payload i j))
    = Inr (s\<lparr>rs_seq := n, rs_lastEventHash := JStr (sample_hash n),
             rs_actions := AList.update (js i) (sample_action i m (Some (js j))) (rs_actions s),
             rs_externalJobs := AList.update (js i) (js j) (rs_externalJobs s)\<rparr>)"
  unfolding sample_reduce [OF assms(1,2)] apply_payload_simps launch_valid [OF assms(3,4)]
  using assms(5)
  by (simp add: on_launched_def requireAction_def rget_def transitionAction_def launch_payload_def pstr_def
      store_action_def sample_action_def)

lemma phase_event:
  assumes "rs_seq s + 1 = n" "rs_lastEventHash s = JStr (sample_hash (n - 1))"
    and "to \<noteq> []" "as_phase (js to) = Some t" "t \<in> set (PHASE_EDGES (rs_phase s))"
  shows "reduceEvent sha sample_config s (sample_event n ''run.phase.changed'' (phase_payload to))
    = Inr (s\<lparr>rs_seq := n, rs_lastEventHash := JStr (sample_hash n), rs_phase := t, rs_phaseEnteredAtSeq := n\<rparr>)"
  unfolding sample_reduce [OF assms(1,2)] apply_payload_simps phase_valid [OF assms(3)]
  using assms(4,5) by (simp add: on_phase_changed_def phase_payload_def pstr_def)

lemma sample_phases:
  "as_phase (js ''PREFLIGHT'') = Some PREFLIGHT" "as_phase (js ''OPERATOR_STOPPED'') = Some OPERATOR_STOPPED"
  by (simp_all add: as_phase_def ALL_PHASES_def)

definition sample_prefix :: "fields list" where
  "sample_prefix =
     [sample_event 1 ''run.phase.changed'' (phase_payload ''PREFLIGHT''),
      sample_event 2 ''action.reserved'' (reserve_payload ''a''),
      sample_event 3 ''action.reserved'' (reserve_payload ''b'')]"

definition sample_forward :: "fields list" where
  "sample_forward =
     [sample_event 4 ''action.launched'' (launch_payload ''a'' ''j''),
      sample_event 5 ''action.launched'' (launch_payload ''b'' ''k'')]"

definition sample_backward :: "fields list" where
  "sample_backward =
     [sample_event 4 ''action.launched'' (launch_payload ''b'' ''k''),
      sample_event 5 ''action.launched'' (launch_payload ''a'' ''j'')]"

definition sample_state :: run_state where
  "sample_state =
     (initialState sample_config)\<lparr>rs_seq := 3, rs_lastEventHash := JStr (sample_hash 3),
        rs_phase := PREFLIGHT, rs_phaseEnteredAtSeq := 1,
        rs_actions := [(js ''a'', sample_action ''a'' 1 None), (js ''b'', sample_action ''b'' 2 None)],
        rs_reservationCounter := 2\<rparr>"

lemma sample_prefix_replayed: "replayEvents sample_sha sample_config sample_prefix = Inr sample_state"
proof -
  have g: "sample_hash 0 = GENESIS_PREVIOUS_HASH" by (simp add: sample_hash_def)
  show ?thesis
    by (simp add: replayEvents_def sample_prefix_def phase_event [where t = PREFLIGHT] sample_phases reserve_event initialState_def g
        sample_state_def rget_def proto_names_def)
qed

lemma sample_forward_reduced:
  "\<exists>s. foldR (reduceEvent sample_sha sample_config) sample_state sample_forward = Inr s
     \<and> map fst (rs_externalJobs s) = [js ''a'', js ''b'']"
  by (simp add: sample_forward_def sample_state_def initialState_def launch_event)

lemma sample_backward_reduced:
  "\<exists>s. foldR (reduceEvent sample_sha sample_config) sample_state sample_backward = Inr s
     \<and> map fst (rs_externalJobs s) = [js ''b'', js ''a'']"
  by (simp add: sample_backward_def sample_state_def initialState_def launch_event)

text \<open>The run is stopped while the two actions are reserved; a launch still arrives.\<close>

definition sample_stop :: "fields list" where
  "sample_stop = [sample_event 4 ''run.phase.changed'' (phase_payload ''OPERATOR_STOPPED'')]"

definition sample_late :: "fields list" where
  "sample_late = [sample_event 5 ''action.launched'' (launch_payload ''a'' ''j'')]"

lemma sample_stop_reduced:
  "\<exists>s. replayEvents sample_sha sample_config (sample_prefix @ sample_stop) = Inr s
     \<and> rs_phase s = OPERATOR_STOPPED
     \<and> (\<exists>s'. replayEvents sample_sha sample_config ((sample_prefix @ sample_stop) @ sample_late) = Inr s')"
  using sample_prefix_replayed
  by (simp add: replayEvents_def foldR_append sample_stop_def sample_late_def sample_state_def initialState_def
      phase_event [where t = OPERATOR_STOPPED] sample_phases EARLY_TERMINALS_def launch_event)

text \<open>A wave whose only member fails, committed on its empty decision snapshot.\<close>

definition plan_payload :: fields where
  "plan_payload =
     [(js ''waveId'', JStr (js ''w'')), (js ''split'', JNull), (js ''members'', JArr [JStr (js ''c'')])]"

definition fail_payload :: fields where
  "fail_payload =
     [(js ''actionId'', JStr (js ''c'')), (js ''status'', JStr (js ''FAILED'')), (js ''reason'', JStr (js ''x''))]"

definition sample_snapshot :: jstring where
  "sample_snapshot = sample_sha (js ''{\"observations\":[],\"waveId\":\"w\"}'')"

definition commit_payload :: fields where
  "commit_payload =
     [(js ''waveId'', JStr (js ''w'')), (js ''decisionSnapshotHash'', JStr sample_snapshot)]"

lemma wave_shapes:
  "field_set plan_payload = js ''members,split,waveId''"
  "field_set fail_payload = js ''actionId,reason,status''"
  "field_set commit_payload = js ''decisionSnapshotHash,waveId''"
proof -
  have "map fst plan_payload = map js [''waveId'', ''split'', ''members'']" by (simp add: plan_payload_def)
  then show "field_set plan_payload = js ''members,split,waveId''"
    unfolding field_set_def by (simp only:) code_simp
  have "map fst fail_payload = map js [''actionId'', ''status'', ''reason'']" by (simp add: fail_payload_def)
  then show "field_set fail_payload = js ''actionId,reason,status''"
    unfolding field_set_def by (simp only:) code_simp
  have "map fst commit_payload = map js [''waveId'', ''decisionSnapshotHash'']" by (simp add: commit_payload_def)
  then show "field_set commit_payload = js ''decisionSnapshotHash,waveId''"
    unfolding field_set_def by (simp only:) code_simp
qed

definition sample_wave :: "wave_status \<Rightarrow> jstring option \<Rightarrow> wave_state" where
  "sample_wave st h =
     \<lparr>wv_waveId = js ''w'', wv_split = JNull, wv_members = [js ''c''], wv_status = st,
      wv_decisionSnapshotHash = h\<rparr>"

lemma plan_event:
  assumes "rs_seq s + 1 = n" "rs_lastEventHash s = JStr (sample_hash (n - 1))"
    and "rget (rs_waves s) (js ''w'') = Absent" "rget (rs_actions s) (js ''c'') = Absent"
  shows "reduceEvent sha sample_config s (sample_event n ''wave.planned'' plan_payload)
    = Inr (s\<lparr>rs_seq := n, rs_lastEventHash := JStr (sample_hash n),
             rs_waves := AList.update (js ''w'') (sample_wave WaveOpen None) (rs_waves s)\<rparr>)"
proof -
  have "validate_wave_planned plan_payload = Inr ()"
    unfolding validate_wave_planned_def expect_fields_def wave_shapes
    by (auto simp: need_str_def plan_payload_def)
  then show ?thesis
    unfolding sample_reduce [OF assms(1,2)] apply_payload_simps
    using assms(3,4)
    by (simp add: on_wave_planned_def wave_members_fresh_def wave_member_fresh_def plan_payload_def pstr_def
        sample_wave_def Let_def)
qed

lemma fail_event:
  assumes "rs_seq s + 1 = n" "rs_lastEventHash s = JStr (sample_hash (n - 1))"
    and "map_of (rs_actions s) (js ''c'') = Some (sample_action ''c'' m None)"
  shows "reduceEvent sha sample_config s (sample_event n ''action.terminal'' fail_payload)
    = Inr (s\<lparr>rs_seq := n, rs_lastEventHash := JStr (sample_hash n),
             rs_actions := AList.update (js ''c'')
               (sample_action ''c'' m None\<lparr>act_status := FAILED, act_failure := Some (js ''x'')\<rparr>) (rs_actions s)\<rparr>)"
proof -
  have "validate_terminal fail_payload = Inr ()"
    unfolding validate_terminal_def expect_fields_def wave_shapes
    by (auto simp: need_str_def fail_payload_def one_of_def)
  moreover have "as_action_status (js ''FAILED'') = Some FAILED"
    by (simp add: as_action_status_def ALL_ACTION_STATUSES_def)
  ultimately show ?thesis
    unfolding sample_reduce [OF assms(1,2)] apply_payload_simps
    using assms(3)
    by (simp add: on_terminal_def requireAction_def rget_def transitionAction_def fail_payload_def pstr_def
        store_action_def sample_action_def)
qed

lemma commit_event:
  assumes "rs_seq s + 1 = n" "rs_lastEventHash s = JStr (sample_hash (n - 1))"
    and "map_of (rs_waves s) (js ''w'') = Some (sample_wave WaveOpen None)"
    and "map_of (rs_actions s) (js ''c'') = Some a" "act_status a = FAILED" "rs_observations s = []"
  shows "reduceEvent sample_sha sample_config s (sample_event n ''wave.committed'' commit_payload)
    = Inr (s\<lparr>rs_seq := n, rs_lastEventHash := JStr (sample_hash n),
             rs_waves := AList.update (js ''w'')
               (sample_wave WaveCommitted (Some sample_snapshot)) (rs_waves s)\<rparr>)"
proof -
  have v: "validate_wave_committed commit_payload = Inr ()"
    unfolding validate_wave_committed_def expect_fields_def wave_shapes
    by (auto simp: need_str_def commit_payload_def sample_snapshot_def sample_sha_def)
  have "canonicalJson (JObj [(js ''waveId'', JStr (js ''w'')), (js ''observations'', JArr [])])
      = Inr (js ''{\"observations\":[],\"waveId\":\"w\"}'')" by code_simp
  then have "waveDecisionSnapshot sample_sha (s\<lparr>rs_seq := n, rs_lastEventHash := h\<rparr>) (sample_wave WaveOpen None)
      = Inr sample_snapshot" for h
    using assms(6)
    by (simp add: waveDecisionSnapshot_def wave_lines_def sample_wave_def canonicalHash_def sample_snapshot_def)
  moreover have "member_terminal (s\<lparr>rs_seq := n, rs_lastEventHash := h\<rparr>) (js ''c'')" for h
    using assms(4,5) by (simp add: member_terminal_def rget_def)
  ultimately show ?thesis
    unfolding sample_reduce [OF assms(1,2)] apply_payload_simps v
    using assms(3)
    by (simp add: on_wave_committed_def rget_def commit_payload_def pstr_def) (simp add: sample_wave_def)
qed

definition sample_waves :: "fields list" where
  "sample_waves =
     [sample_event 4 ''wave.planned'' plan_payload,
      sample_event 5 ''action.reserved'' (reserve_payload ''c''),
      sample_event 6 ''action.terminal'' fail_payload,
      sample_event 7 ''wave.committed'' commit_payload]"

definition sample_after_wave :: "fields list" where
  "sample_after_wave = [sample_event 8 ''action.launched'' (launch_payload ''a'' ''j'')]"

lemma sample_waves_reduced:
  "\<exists>s s'. replayEvents sample_sha sample_config (sample_prefix @ sample_waves) = Inr s
     \<and> map_of (rs_waves s) (js ''w'') = Some (sample_wave WaveCommitted (Some sample_snapshot))
     \<and> replayEvents sample_sha sample_config ((sample_prefix @ sample_waves) @ sample_after_wave) = Inr s'"
  using sample_prefix_replayed
  by (simp add: replayEvents_def foldR_append sample_waves_def sample_after_wave_def sample_state_def initialState_def
      plan_event reserve_event fail_event commit_event launch_event rget_def proto_names_def
      sample_action_def [where i = "''c''"] update_conv)

text \<open>A draw of one word on the split stream.\<close>

definition sample_receipt :: fields where
  "sample_receipt =
     [(js ''algorithm'', JStr RNG_ALGORITHM), (js ''stream'', JStr (js ''split'')), (js ''counter'', JNum 0),
      (js ''inputHash'', JStr (sample_sha [])), (js ''raw'', JArr [JNum 7]), (js ''result'', JNum 1)]"

definition sample_draws :: "fields list" where
  "sample_draws = [sample_event 4 ''rng.drawn'' [(js ''receipt'', JObj sample_receipt)]]"

lemma draw_shapes:
  "field_set sample_receipt = js ''algorithm,counter,inputHash,raw,result,stream''"
  "field_set [(js ''receipt'', v)] = js ''receipt''"
proof -
  have "map fst sample_receipt
      = map js [''algorithm'', ''stream'', ''counter'', ''inputHash'', ''raw'', ''result'']"
    by (simp add: sample_receipt_def)
  then show "field_set sample_receipt = js ''algorithm,counter,inputHash,raw,result,stream''"
    unfolding field_set_def by (simp only:) code_simp
  show "field_set [(js ''receipt'', v)] = js ''receipt''"
    unfolding field_set_def by simp
qed

lemma sample_draws_reduced:
  "\<exists>s. replayEvents sample_sha sample_config (sample_prefix @ sample_draws) = Inr s
     \<and> map_of (rs_rngReceipts s) (receipt_key (JObj sample_receipt)) = Some (JObj sample_receipt)"
proof -
  have "validateRngReceipt (JObj sample_receipt) = Inr ()"
    unfolding validateRngReceipt_def Let_def obj_of.simps draw_shapes
    using hex64_sample_sha
    by (auto simp: sample_receipt_def RNG_STREAMS_def max_safe_def safe_int_def uint32_value_def)
  then have v: "validate_rng_drawn [(js ''receipt'', JObj sample_receipt)] = Inr ()"
    unfolding validate_rng_drawn_def expect_fields_def draw_shapes by simp
  show ?thesis
    using sample_prefix_replayed
    by (simp add: replayEvents_def foldR_append sample_draws_def sample_state_def initialState_def
        sample_reduce apply_payload_simps v on_rng_drawn_def rget_def Let_def)
qed

text \<open>A journal with the one budget event that goes with the ledger of \<open>Budget\<close>.\<close>

definition ledger_config :: reducer_config where
  "ledger_config = \<lparr>rc_runId = js ''r'', rc_budgetLimits = bl_limits sample_ledger\<rparr>"

definition charge_payload :: fields where
  "charge_payload =
     [(js ''kind'', JStr (js ''reserve'')), (js ''dimension'', JStr (js ''usd'')),
      (js ''actionId'', JStr (js ''a1'')), (js ''amount'', JNum 60), (js ''unpricedUnits'', JNum 0),
      (js ''entryHash'', JStr (js ''sha256:'' @ sample_sha []))]"

definition sample_charge :: "fields list" where
  "sample_charge = [sample_event 1 ''budget.entry'' charge_payload]"

lemma charge_shape: "field_set charge_payload = js ''actionId,amount,dimension,entryHash,kind,unpricedUnits''"
proof -
  have "map fst charge_payload
      = map js [''kind'', ''dimension'', ''actionId'', ''amount'', ''unpricedUnits'', ''entryHash'']"
    by (simp add: charge_payload_def)
  then show ?thesis unfolding field_set_def by (simp only:) code_simp
qed

lemma charge_names:
  "as_kind (JStr (js ''reserve'')) = Some Reserve" "as_dimension (JStr (js ''usd'')) = Some Usd"
  using as_kind_name [of Reserve] as_dimension_name [of Usd] by simp_all

lemma sample_charge_replayed:
  "\<exists>s. replayEvents sample_sha ledger_config sample_charge = Inr s
     \<and> rs_budget s = [(Usd, \<lparr>reserved = 60, spent = 0, unpriced = 0\<rparr>)]"
proof -
  let ?s = "initialState ledger_config"
  have g: "sample_hash 0 = GENESIS_PREVIOUS_HASH" by (simp add: sample_hash_def)
  have v: "validate_budget_entry charge_payload = Inr ()"
    unfolding validate_budget_entry_def expect_fields_def charge_shape
    by (auto simp: need_str_def charge_payload_def str_or_null_def isSafeCount_def eq_num_def safe_int_def max_safe_def)
  have h: "sha256_value (js ''sha256:'' @ sample_sha [])"
    using hex64_sample_sha by (simp add: sha256_value_def hex64_def)
  have r: "reduceEvent sample_sha ledger_config ?s (sample_event 1 ''budget.entry'' charge_payload)
      = apply_payload sample_sha ledger_config (?s\<lparr>rs_seq := 1, rs_lastEventHash := JStr (sample_hash 1)\<rparr>)
          (js ''budget.entry'') charge_payload"
    by (rule reduce_sample) (simp_all add: initialState_def g ledger_config_def)
  have "\<exists>s. mirrorBudget ledger_config charge_payload (?s\<lparr>rs_seq := 1, rs_lastEventHash := JStr (sample_hash 1)\<rparr>) = Inr s
     \<and> rs_budget s = [(Usd, \<lparr>reserved = 60, spent = 0, unpriced = 0\<rparr>)]"
    using h
    by (simp add: mirrorBudget_def charge_names charge_payload_def pstr_def mirror_entry_def str_option_def
        mirror_accounting_def initialState_def applyBudgetEntry_def totals_of_def balance_of_def zero_totals_def
        zero_balance_def js_add_exact max_safe_def safe_int_def ledger_config_def sample_ledger_def
        store_balance_def rget_def proto_names_def Let_def)
  then show ?thesis by (simp add: replayEvents_def sample_charge_def r apply_payload_simps v)
qed

lemma sample_charge_facts:
  "List.map_filter budget_facts sample_charge = [(Reserve, Usd, Some (js ''a1''), 60, 0)]"
proof -
  have "budget_facts (sample_event 1 ''budget.entry'' charge_payload) = Some (Reserve, Usd, Some (js ''a1''), 60, 0)"
    by (simp add: budget_facts_def sample_envelope Let_def charge_payload_def charge_names str_option_def)
  then show ?thesis by (simp add: sample_charge_def map_filter_simps)
qed

lemma sample_ledger_opened:
  "\<exists>file s. replayBudgetLedger sample_sha file (js ''r'') (rc_budgetLimits ledger_config) = Inr s
     \<and> map entry_facts (ls_entries s) = [(Reserve, Usd, Some (js ''a1''), 60, 0)]"
proof -
  obtain l f e where a: "append_entry sample_sha None sample_ledger None (sample_append Reserve 60) = (l, f, Inr e)"
    "bl_runId l = js ''r''" "bl_limits l = bl_limits sample_ledger"
    "be_kind e = Reserve" "be_dimension e = Usd" "be_amount e = 60" "be_actionId e = Some (js ''a1'')"
    "be_unpricedUnits e = 0"
    using sample_appended by blast
  have "ledger_synced sample_sha l f ([] @ [e])"
    by (rule append_synced [OF sample_ledger_synced hex64_sample_sha _ a(1)]) (simp add: sample_append_def)
  with a show ?thesis by (auto simp: ledger_synced_def ledger_config_def entry_facts_def intro!: exI [of _ f])
qed

end
