(* ===== verification/ReducerSpec.thy ===== *)
theory ReducerSpec
  imports Samples
begin

text \<open>
  The properties of replayed runs: phases, actions, candidates, waves, recorded facts, locks and the
  mirrored budget.
\<close>

section \<open>Relations kept along a replay\<close>

lemma replay_run_ok: "replayEvents sha c es = Inr s \<Longrightarrow> run_ok c s"
  using rf.fold_inv [OF _ run_ok_initial] by (auto simp: replayEvents_def)

lemma replay_split:
  assumes "replayEvents sha c es = Inr s" "replayEvents sha c (es @ fs) = Inr s'"
  shows "foldR (reduceEvent sha c) s fs = Inr s'"
  using assms by (simp add: replayEvents_def foldR_append)

lemma fold_relation:
  assumes "foldR (reduceEvent sha c) s fs = Inr s'" "P s"
    and "\<And>s ty p s'. apply_payload sha c s ty p = Inr s' \<Longrightarrow> P s \<Longrightarrow> P s'"
    and "\<And>s n h. P (s\<lparr>rs_seq := n, rs_lastEventHash := h\<rparr>) = P s"
  shows "P s'"
proof (rule foldR_invariant [where P = P and f = "reduceEvent sha c" and xs = fs, OF assms(1,2)])
  fix t e t'
  assume "P t" "reduceEvent sha c t e = Inr t'"
  then show "P t'" using reduceEvent_apply assms(3,4) by metis
qed

section \<open>Phases\<close>

text \<open>The phases a log passes through, starting from the phase it is applied in.\<close>

fun phase_trace :: "(jstring \<Rightarrow> jstring) \<Rightarrow> reducer_config \<Rightarrow> run_state \<Rightarrow> fields list \<Rightarrow> phase list" where
  "phase_trace sha c s [] = []"
| "phase_trace sha c s (e # es) =
     (case reduceEvent sha c s e of
        Inl _ \<Rightarrow> []
      | Inr s' \<Rightarrow> (if rs_phase s' = rs_phase s then [] else [rs_phase s']) @ phase_trace sha c s' es)"

lemma phase_trace_history:
  assumes "foldR (reduceEvent sha c) s es = Inr s'" "pt.history (h @ [rs_phase s])"
  shows "pt.history (h @ rs_phase s # phase_trace sha c s es)
    \<and> last (rs_phase s # phase_trace sha c s es) = rs_phase s'"
  using assms
proof (induction es arbitrary: s h)
  case Nil
  then show ?case by simp
next
  case (Cons e es)
  then obtain m where m: "reduceEvent sha c s e = Inr m" "foldR (reduceEvent sha c) m es = Inr s'"
    by (auto simp: bindR_Inr_iff)
  from event_phase [OF reduceEvent_apply(1) [OF m(1)]]
  have ph: "rs_phase m = rs_phase s \<or> rs_phase m \<in> set (PHASE_EDGES (rs_phase s))" by simp
  show ?case
  proof (cases "rs_phase m = rs_phase s")
    case True
    with Cons.IH [OF m(2), of h] Cons.prems(2) m(1) show ?thesis by simp
  next
    case False
    with ph have "pt.history (h @ [rs_phase s, rs_phase m])"
      using pt.move [OF Cons.prems(2)] by simp
    with Cons.IH [OF m(2), of "h @ [rs_phase s]"] m(1) False show ?thesis by simp
  qed
qed

text \<open>
  C12: the phases of a run follow the edge table and only move forward. The
  phases a replayed log passes through form a history of the table that starts in \<open>DRAFT\<close>, ends in
  the state's phase and strictly increases, so no phase is ever entered twice.
\<close>

theorem run_phases_forward:
  assumes "replayEvents sha c es = Inr s"
  shows "pt.history (DRAFT # phase_trace sha c (initialState c) es)
    \<and> last (DRAFT # phase_trace sha c (initialState c) es) = rs_phase s
    \<and> sorted_wrt (<) (DRAFT # phase_trace sha c (initialState c) es)"
proof -
  have d: "rs_phase (initialState c) = DRAFT" by (simp add: initialState_def)
  have "pt.history ([] @ [rs_phase (initialState c)])" by (simp add: pt.start)
  from phase_trace_history [OF assms [unfolded replayEvents_def] this]
  have h: "pt.history (DRAFT # phase_trace sha c (initialState c) es)"
    and l: "last (DRAFT # phase_trace sha c (initialState c) es) = rs_phase s"
    unfolding d by simp_all
  from h l pt.history_sorted [OF h] show ?thesis by blast
qed

lemma run_phases_forward_witness:
  "rs_phase sample_state = PREFLIGHT
   \<and> last (DRAFT # phase_trace sample_sha sample_config (initialState sample_config) sample_prefix) = PREFLIGHT"
  using run_phases_forward [OF sample_prefix_replayed] by (simp add: sample_state_def)

text \<open>
  A run that has ended stays ended: no accepted continuation of a
  log changes a terminal phase.
\<close>

theorem terminal_phase_absorbing:
  assumes "replayEvents sha c es = Inr s" "isTerminalPhase (rs_phase s)"
    and "replayEvents sha c (es @ fs) = Inr s'"
  shows "rs_phase s' = rs_phase s"
proof (rule fold_relation [OF replay_split [OF assms(1,3)], where P = "\<lambda>t. rs_phase t = rs_phase s"])
  fix t ty p t'
  assume "apply_payload sha c t ty p = Inr t'" "rs_phase t = rs_phase s"
  then show "rs_phase t' = rs_phase s"
    using event_phase [of sha c t ty p t'] assms(2) by (auto simp: isTerminalPhase_def)
qed simp_all

lemma terminal_phase_absorbing_witness:
  "\<exists>s'. replayEvents sample_sha sample_config ((sample_prefix @ sample_stop) @ sample_late) = Inr s'
     \<and> rs_phase s' = OPERATOR_STOPPED"
proof -
  obtain s s' where s: "replayEvents sample_sha sample_config (sample_prefix @ sample_stop) = Inr s"
    "rs_phase s = OPERATOR_STOPPED"
    "replayEvents sample_sha sample_config ((sample_prefix @ sample_stop) @ sample_late) = Inr s'"
    using sample_stop_reduced by blast
  from terminal_phase_absorbing [OF s(1) _ s(3)] s show ?thesis by (simp add: isTerminalPhase_def)
qed

section \<open>Actions\<close>

definition action_reached :: "action_state \<Rightarrow> action_state \<Rightarrow> bool" where
  "action_reached a b \<longleftrightarrow>
     same_reservation a b
     \<and> (act_status a, act_status b) \<in> {(x, y). y \<in> set (ACTION_EDGES x)}\<^sup>*"

lemma action_reached_moved: "action_reached a b \<Longrightarrow> action_moved b d \<Longrightarrow> action_reached a d"
  by (auto simp: action_reached_def action_moved_def same_reservation_def intro: rtrancl.rtrancl_into_rtrancl)

lemma edges_rtrancl_le: "(x, y) \<in> {(x, y). y \<in> set (ACTION_EDGES x)}\<^sup>* \<Longrightarrow> x \<le> y"
  by (induction rule: rtrancl_induct) (auto dest!: act.forward)

text \<open>
  C11: an action only ever moves along the edges of the action table. An action
  present at some point of a replayed log is still there at every later point, with the same
  reservation (kind, key, wave, request and sequence number), in a status reached by edges; a
  committed, failed, cancelled or abandoned action keeps its status.
\<close>

theorem action_lifecycle:
  assumes "replayEvents sha c es = Inr s" "replayEvents sha c (es @ fs) = Inr s'"
    and "map_of (rs_actions s) i = Some a"
  shows "\<exists>b. map_of (rs_actions s') i = Some b \<and> action_reached a b \<and> act_status a \<le> act_status b
    \<and> (ACTION_EDGES (act_status a) = [] \<longrightarrow> act_status b = act_status a)"
proof -
  have "\<exists>b. map_of (rs_actions s') i = Some b \<and> action_reached a b"
  proof (rule fold_relation [OF replay_split [OF assms(1,2)],
        where P = "\<lambda>t. \<exists>b. map_of (rs_actions t) i = Some b \<and> action_reached a b"])
    show "\<exists>b. map_of (rs_actions s) i = Some b \<and> action_reached a b"
      using assms(3) by (auto simp: action_reached_def same_reservation_def)
  next
    fix t ty p t'
    assume "apply_payload sha c t ty p = Inr t'" "\<exists>b. map_of (rs_actions t) i = Some b \<and> action_reached a b"
    then show "\<exists>b. map_of (rs_actions t') i = Some b \<and> action_reached a b"
      using event_advances [of sha c t ty p t'] action_reached_moved by (fastforce simp: actions_advance_def)
  qed simp
  then obtain b where b: "map_of (rs_actions s') i = Some b" "action_reached a b" by blast
  moreover have "act_status b = act_status a" if "ACTION_EDGES (act_status a) = []"
  proof -
    from b(2) have "(act_status a, act_status b) \<in> {(x, y). y \<in> set (ACTION_EDGES x)}\<^sup>*"
      by (simp add: action_reached_def)
    then show ?thesis by (cases rule: converse_rtranclE) (use that in auto)
  qed
  ultimately show ?thesis using edges_rtrancl_le by (auto simp: action_reached_def)
qed

lemma sample_replayed_forward:
  "\<exists>s. replayEvents sample_sha sample_config (sample_prefix @ sample_forward) = Inr s
     \<and> map fst (rs_externalJobs s) = [js ''a'', js ''b'']"
  using sample_prefix_replayed sample_forward_reduced by (simp add: replayEvents_def foldR_append)

lemma sample_replayed_backward:
  "\<exists>s. replayEvents sample_sha sample_config (sample_prefix @ sample_backward) = Inr s
     \<and> map fst (rs_externalJobs s) = [js ''b'', js ''a'']"
  using sample_prefix_replayed sample_backward_reduced by (simp add: replayEvents_def foldR_append)

lemma action_lifecycle_witness:
  "\<exists>s b. replayEvents sample_sha sample_config (sample_prefix @ sample_forward) = Inr s
     \<and> map_of (rs_actions s) (js ''a'') = Some b \<and> action_reached (sample_action ''a'' 1 None) b"
proof -
  obtain s where s: "replayEvents sample_sha sample_config (sample_prefix @ sample_forward) = Inr s"
    using sample_replayed_forward by blast
  have "map_of (rs_actions sample_state) (js ''a'') = Some (sample_action ''a'' 1 None)"
    by (simp add: sample_state_def)
  from action_lifecycle [OF sample_prefix_replayed s this] s show ?thesis by blast
qed

definition reservations_unique :: "run_state \<Rightarrow> bool" where
  "reservations_unique s \<longleftrightarrow>
     (\<forall>i a. map_of (rs_actions s) i = Some a \<longrightarrow> act_reservationSeq a \<le> rs_reservationCounter s)
     \<and> (\<forall>i j a b. map_of (rs_actions s) i = Some a \<and> map_of (rs_actions s) j = Some b
          \<and> act_reservationSeq a = act_reservationSeq b \<longrightarrow> i = j)"

lemma reservations_unique_update:
  assumes "reservations_unique s" "map_of (rs_actions s) i = Some a" "action_moved a b"
    and "rs_actions s' = AList.update i b (rs_actions s)" "rs_reservationCounter s' = rs_reservationCounter s"
  shows "reservations_unique s'"
proof -
  have "act_reservationSeq b = act_reservationSeq a"
    using assms(3) by (simp add: action_moved_def same_reservation_def)
  with assms(1,2) show ?thesis
    unfolding reservations_unique_def assms(4,5) by (auto split: if_splits)
qed

lemma event_reservations:
  assumes "apply_payload sha c s ty p = Inr s'" "reservations_unique s"
  shows "reservations_unique s'"
  using assms(1)
proof (cases rule: event_cases)
  case (reserved a)
  have le: "act_reservationSeq b \<le> rs_reservationCounter s" if "map_of (rs_actions s) j = Some b" for j b
    using assms(2) that by (auto simp: reservations_unique_def)
  show ?thesis
    using assms(2) le unfolding reservations_unique_def reserved(4)
    by (auto simp: store_action_def reserved(3) split: if_splits) fastforce+
next
  case (moved i a b j)
  then show ?thesis by (intro reservations_unique_update [OF assms(2) moved(1,2)]) (simp_all add: store_action_def)
next
  case (committed i a b)
  then show ?thesis by (intro reservations_unique_update [OF assms(2) committed(1,2)]) (simp_all add: store_action_def)
next
  case (observed i a b obs)
  then show ?thesis by (intro reservations_unique_update [OF assms(2) observed(1,2)]) (simp_all add: store_action_def)
qed (use assms(2) in \<open>auto simp: reservations_unique_def\<close>)

text \<open>
  Reservation numbers identify actions: in a replayed state two actions
  with the same reservation number are the same action, and no number exceeds the counter.
\<close>

theorem reservation_order:
  assumes "replayEvents sha c es = Inr s"
    and "map_of (rs_actions s) i = Some a" "map_of (rs_actions s) j = Some b"
  shows "act_reservationSeq a \<le> rs_reservationCounter s
    \<and> (act_reservationSeq a = act_reservationSeq b \<longrightarrow> i = j)"
proof -
  have "reservations_unique s"
  proof (rule fold_relation [OF assms(1) [unfolded replayEvents_def], where P = reservations_unique])
    show "reservations_unique (initialState c)" by (simp add: reservations_unique_def initialState_def)
  qed (rule event_reservations, simp_all add: reservations_unique_def)
  with assms(2,3) show ?thesis by (auto simp: reservations_unique_def)
qed

lemma reservation_order_witness:
  "replayEvents sample_sha sample_config sample_prefix = Inr sample_state
   \<and> act_reservationSeq (sample_action ''b'' 2 None) \<le> rs_reservationCounter sample_state"
proof -
  have "map_of (rs_actions sample_state) (js ''b'') = Some (sample_action ''b'' 2 None)"
    by (simp add: sample_state_def)
  from reservation_order [OF sample_prefix_replayed this this] sample_prefix_replayed show ?thesis by blast
qed

section \<open>Recorded facts\<close>

definition facts_kept :: "run_state \<Rightarrow> run_state \<Rightarrow> bool" where
  "facts_kept s s' \<longleftrightarrow>
     map_of (rs_observations s) \<subseteq>\<^sub>m map_of (rs_observations s')
     \<and> map_of (rs_rngReceipts s) \<subseteq>\<^sub>m map_of (rs_rngReceipts s')
     \<and> (\<forall>x. rs_candidateLock s = Some x \<longrightarrow> rs_candidateLock s' = Some x)
     \<and> (\<forall>x. rs_sealedRevealed s = Some x \<longrightarrow> rs_sealedRevealed s' = Some x)
     \<and> (\<forall>i w. map_of (rs_waves s) i = Some w \<longrightarrow> (\<exists>w'. map_of (rs_waves s') i = Some w'
          \<and> wv_members w' = wv_members w \<and> (wv_status w = WaveCommitted \<longrightarrow> w' = w)))"

lemma facts_kept_refl: "facts_kept s s"
  by (simp add: facts_kept_def)

lemma facts_kept_trans: "facts_kept s t \<Longrightarrow> facts_kept t u \<Longrightarrow> facts_kept s u"
  unfolding facts_kept_def by (intro conjI allI impI) (blast intro: map_le_trans | fastforce)+

lemma event_facts_kept:
  assumes "apply_payload sha c s ty p = Inr s'"
  shows "facts_kept s s'"
  unfolding facts_kept_def
  using event_observations [OF assms] event_receipts [OF assms] event_locks [OF assms] event_waves [OF assms]
  by blast

text \<open>
  C13: what a log has recorded stays recorded. Along every accepted
  continuation no observation and no RNG receipt is lost or changed, the candidate lock and the
  sealed reveal keep the value they were first given, a wave keeps its members, and a committed
  wave stays as it is.
\<close>

theorem recorded_facts_permanent:
  assumes "replayEvents sha c es = Inr s" "replayEvents sha c (es @ fs) = Inr s'"
  shows "facts_kept s s'"
proof (rule fold_relation [OF replay_split [OF assms], where P = "facts_kept s"])
  show "facts_kept s s" by (rule facts_kept_refl)
  fix t ty p t'
  assume "apply_payload sha c t ty p = Inr t'" "facts_kept s t"
  then show "facts_kept s t'" by (blast intro: facts_kept_trans event_facts_kept)
qed (simp add: facts_kept_def)

lemma recorded_facts_permanent_witness:
  "\<exists>s s'. replayEvents sample_sha sample_config (sample_prefix @ sample_waves) = Inr s
     \<and> replayEvents sample_sha sample_config ((sample_prefix @ sample_waves) @ sample_after_wave) = Inr s'
     \<and> map_of (rs_waves s) (js ''w'') \<noteq> None \<and> facts_kept s s'"
proof -
  obtain s s' where s: "replayEvents sample_sha sample_config (sample_prefix @ sample_waves) = Inr s"
    "map_of (rs_waves s) (js ''w'') \<noteq> None"
    "replayEvents sample_sha sample_config ((sample_prefix @ sample_waves) @ sample_after_wave) = Inr s'"
    using sample_waves_reduced by auto
  from recorded_facts_permanent [OF s(1,3)] s show ?thesis by blast
qed

text \<open>
  C14: a committed wave is a barrier: in a replayed state every member of
  a committed wave is an action that has reached \<open>COMMITTED\<close>, \<open>FAILED\<close>, \<open>CANCELLED\<close> or
  \<open>ABANDONED\<close>, and none of them has an edge left.
\<close>

theorem committed_wave_barrier:
  assumes "replayEvents sha c es = Inr s"
    and "map_of (rs_waves s) i = Some w" "wv_status w = WaveCommitted" "m \<in> set (wv_members w)"
  shows "\<exists>a. map_of (rs_actions s) m = Some a \<and> ACTION_EDGES (act_status a) = []
    \<and> act_status a \<in> {COMMITTED, FAILED, CANCELLED, ABANDONED}"
proof -
  have "member_terminal s m" using replay_run_ok [OF assms(1)] assms(2-4) by (simp add: run_ok_def)
  then show ?thesis by (auto simp: member_terminal_def rget_Own_iff split: found.splits)
qed

lemma committed_wave_barrier_witness:
  "\<exists>s a. replayEvents sample_sha sample_config (sample_prefix @ sample_waves) = Inr s
     \<and> map_of (rs_actions s) (js ''c'') = Some a \<and> ACTION_EDGES (act_status a) = []"
proof -
  obtain s h where s: "replayEvents sample_sha sample_config (sample_prefix @ sample_waves) = Inr s"
    "map_of (rs_waves s) (js ''w'') = Some (sample_wave WaveCommitted h)"
    using sample_waves_reduced by blast
  from committed_wave_barrier [OF s, of "js ''c''"] s(1) show ?thesis by (auto simp: sample_wave_def)
qed

text \<open>
  C15: the reducer only ever holds valid observations and receipts, each under
  the identity it carries: an observation under candidate, task, split and attempt, a receipt
  under stream and counter.
\<close>

theorem observations_valid:
  assumes "replayEvents sha c es = Inr s"
  shows "(map_of (rs_observations s) k = Some v \<longrightarrow> k = key_of_observation v \<and> validateObservation v = Inr ())
    \<and> (map_of (rs_rngReceipts s) k = Some v \<longrightarrow> k = receipt_key v \<and> validateRngReceipt v = Inr ())"
  using replay_run_ok [OF assms] by (simp add: run_ok_def)

lemma observations_valid_witness:
  "\<exists>s. replayEvents sample_sha sample_config (sample_prefix @ sample_draws) = Inr s
     \<and> map_of (rs_rngReceipts s) (receipt_key (JObj sample_receipt)) = Some (JObj sample_receipt)
     \<and> validateRngReceipt (JObj sample_receipt) = Inr ()"
proof -
  obtain s where s: "replayEvents sample_sha sample_config (sample_prefix @ sample_draws) = Inr s"
    "map_of (rs_rngReceipts s) (receipt_key (JObj sample_receipt)) = Some (JObj sample_receipt)"
    using sample_draws_reduced by blast
  from observations_valid [OF s(1)] s show ?thesis by blast
qed

section \<open>The mirrored budget\<close>

text \<open>
  The budget the journal mirrors is never oversold either: in
  every replayed state, the totals of a dimension are non-negative and their sum is an exact safe
  integer within the frozen limit.
\<close>

theorem mirrored_budget_within_limits:
  assumes "replayEvents sha c es = Inr s" "map_of (rs_budget s) d = Some t"
  shows "0 \<le> reserved t \<and> 0 \<le> spent t
    \<and> reserved t + spent t \<le> (case rc_budgetLimits c d of None \<Rightarrow> max_safe | Some l \<Rightarrow> min max_safe l)"
proof -
  have "accounting_ok (rc_budgetLimits c) (mirror_accounting s)"
    using replay_run_ok [OF assms(1)] by (simp add: run_ok_def)
  with assms(2) show ?thesis
    by (auto simp: accounting_ok_def totals_ok_def mirror_accounting_def split: option.splits)
qed

lemma mirrored_budget_within_limits_witness:
  "\<exists>s t. replayEvents sample_sha ledger_config sample_charge = Inr s \<and> map_of (rs_budget s) Usd = Some t
     \<and> reserved t = 60 \<and> reserved t + spent t \<le> 100"
proof -
  obtain s where s: "replayEvents sample_sha ledger_config sample_charge = Inr s"
    "rs_budget s = [(Usd, \<lparr>reserved = 60, spent = 0, unpriced = 0\<rparr>)]"
    using sample_charge_replayed by blast
  from mirrored_budget_within_limits [OF s(1), of Usd] s show ?thesis
    by (auto simp: ledger_config_def sample_ledger_def max_safe_def)
qed

lemma crosscheck_passes:
  assumes "open_ledger sha file runId (rc_budgetLimits c) = Inr l"
    and "replayBudgetLedger sha file runId (rc_budgetLimits c) = Inr ls"
    and "replayEvents sha c evs = Inr s"
    and "List.map_filter budget_facts evs = map entry_facts (ls_entries ls)"
  shows "assertMatches l (by_name (rs_budget s)) = Inr ()"
proof -
  have acc: "bl_accounting l = ls_accounting ls"
    using assms(1,2) by (auto simp: open_ledger_def)
  have start: "mirrors emptyAccounting (initialState c)"
    by (simp add: mirrors_def mirror_accounting_def initialState_def emptyAccounting_def)
  have m: "mirrors (ls_accounting ls) s"
    by (rule replay_mirrors [OF replay_fold(1) [OF assms(2)] assms(3) [unfolded replayEvents_def] start
          run_ok_initial assms(4)])
  have names: "map_of (by_name m) (dimension_name d) = map_of m d" for m :: "(budget_dimension \<times> budget_totals) list" and d
    by (induction m) (auto simp: by_name_def)
  have "totals_of (bl_accounting l) d
      = (case map_of (by_name (rs_budget s)) (dimension_name d) of Some t \<Rightarrow> t | None \<Rightarrow> zero_totals)" for d
    using m by (simp add: names acc totals_of_def mirrors_def split: option.splits)
  then show ?thesis by (simp add: matches_iff)
qed

text \<open>
  C10: the recovery cross-check cannot misfire. If a ledger file replays and a
  journal replays, and the journal's \<open>budget.entry\<close> events carry the facts of the ledger's
  entries in the same order, then \<open>assertMatches\<close> passes on the opened ledger and the totals the
  reducer mirrors.
\<close>

theorem ledger_mirror_agree:
  assumes "open_ledger sha file runId (rc_budgetLimits c) = Inr l"
    and "replayBudgetLedger sha file runId (rc_budgetLimits c) = Inr ls"
    and "replayEvents sha c evs = Inr s"
    and "List.map_filter budget_facts evs = map entry_facts (ls_entries ls)"
  shows "assertMatches l (by_name (rs_budget s)) = Inr ()"
  using assms by (rule crosscheck_passes)

lemma ledger_mirror_agree_witness:
  "\<exists>file l s. open_ledger sample_sha file (js ''r'') (rc_budgetLimits ledger_config) = Inr l
     \<and> replayEvents sample_sha ledger_config sample_charge = Inr s \<and> rs_budget s \<noteq> []
     \<and> assertMatches l (by_name (rs_budget s)) = Inr ()"
proof -
  obtain f ls where f: "replayBudgetLedger sample_sha f (js ''r'') (rc_budgetLimits ledger_config) = Inr ls"
    "map entry_facts (ls_entries ls) = [(Reserve, Usd, Some (js ''a1''), 60, 0)]"
    using sample_ledger_opened by (elim exE conjE) (rule that)
  obtain s where s: "replayEvents sample_sha ledger_config sample_charge = Inr s" "rs_budget s \<noteq> []"
    using sample_charge_replayed by (elim exE conjE) (rule that, assumption, simp)
  obtain l where l: "open_ledger sample_sha f (js ''r'') (rc_budgetLimits ledger_config) = Inr l"
    using f(1) by (simp add: open_ledger_def)
  from ledger_mirror_agree [OF l f(1) s(1)] f(2) s l sample_charge_facts show ?thesis by auto
qed

section \<open>Interleaving\<close>

text \<open>
  C9: the state hash does not depend on how concurrent actions interleave.
  If two logs continue the same log with action events (launched, observed, collected, committed,
  terminal) and every action sees the same sequence of its own events in both, then both logs
  lead to the same state hash, whatever the order across actions.
\<close>

theorem interleaving_same_hash:
  assumes "replayEvents sha c (pre @ evs) = Inr s1" "replayEvents sha c (pre @ evs') = Inr s2"
    and "\<forall>ev\<in>set evs \<union> set evs'. action_event (body_of ev)"
    and "\<forall>i. own_events i (map body_of evs) = own_events i (map body_of evs')"
  shows "stateHashOf sha s1 = stateHashOf sha s2"
proof -
  obtain s where s: "replayEvents sha c pre = Inr s"
    using assms(1) by (auto simp: replayEvents_def foldR_append bindR_Inr_iff)
  have "hashableCore s1 = hashableCore s2"
    by (rule interleaved_core [OF replay_split [OF s assms(1)] replay_split [OF s assms(2)]
          replay_run_ok [OF s] assms(3,4)])
  then show ?thesis by (simp add: stateHashOf_def)
qed

lemma interleaving_same_hash_witness:
  "\<exists>s1 s2. replayEvents sample_sha sample_config (sample_prefix @ sample_forward) = Inr s1
     \<and> replayEvents sample_sha sample_config (sample_prefix @ sample_backward) = Inr s2
     \<and> map fst (rs_externalJobs s1) \<noteq> map fst (rs_externalJobs s2)
     \<and> stateHashOf sample_sha s1 = stateHashOf sample_sha s2"
proof -
  obtain s1 where s1: "replayEvents sample_sha sample_config (sample_prefix @ sample_forward) = Inr s1"
    "map fst (rs_externalJobs s1) = [js ''a'', js ''b'']" using sample_replayed_forward by (elim exE conjE) (rule that)
  obtain s2 where s2: "replayEvents sample_sha sample_config (sample_prefix @ sample_backward) = Inr s2"
    "map fst (rs_externalJobs s2) = [js ''b'', js ''a'']" using sample_replayed_backward by (elim exE conjE) (rule that)
  have "own_events i (map body_of sample_forward) = own_events i (map body_of sample_backward)" for i
    by (auto simp: sample_forward_def sample_backward_def sample_envelope owner_def launch_payload_def pstr_def
        js_def unit_of_def)
  moreover have "\<forall>ev\<in>set sample_forward \<union> set sample_backward. action_event (body_of ev)"
    by (simp add: sample_forward_def sample_backward_def sample_envelope action_event_def)
  ultimately have "stateHashOf sample_sha s1 = stateHashOf sample_sha s2"
    by (intro interleaving_same_hash [OF s1(1) s2(1)]) blast+
  with s1 s2 show ?thesis by (intro exI [of _ s1] exI [of _ s2]) simp
qed

section \<open>What the hash leaves out\<close>

text \<open>
  A published evidence entry changes the state and not its hash: \<open>hashableCore\<close> lists neither
  \<open>evidence\<close> nor \<open>phaseEnteredAtSeq\<close>.
\<close>

lemma evidence_outside_hash: "stateHashOf sha (s\<lparr>rs_evidence := e, rs_phaseEnteredAtSeq := n\<rparr>) = stateHashOf sha s"
  by (simp add: stateHashOf_def hashableCore_def core_locks_def)

text \<open>
  A lock on a name of \<open>Object.prototype\<close> is accepted although no such candidate was registered:
  the guard of \<open>candidate.locked\<close> is a plain property lookup.
\<close>

lemma inherited_name_locks:
  assumes "rs_candidateLock s = None" "pstr p ''candidateId'' = js ''constructor''" "rs_candidates s = []"
  shows "on_locked p s
    = Inr (s\<lparr>rs_candidateLock := Some (js ''constructor'', pstr p ''lockHash'')\<rparr>)"
  using assms by (simp add: on_locked_def rget_def proto_names_def)

end
