(* ===== verification/Journal.thy ===== *)
theory Journal
  imports Budget
begin

text \<open>
  Model of \<^verbatim>\<open>packages/dsh-evolve-le/src/state/journal.ts\<close>: names and records of the journal, the
  scan of a journal directory, and the writer with its rotation and its atomic commit point.

  A directory is an association list from names to nodes, in the order \<open>readdir\<close> returns it.
  A file is the text its bytes decode to; where the code counts bytes the model counts
  \<open>utf8_length\<close>. Every effect of an append on the directory is listed in order with the
  handle's state after it, so that an append can stop after any of them or in the middle of a
  write; the sync calls between them have no state that is read back.
\<close>

section \<open>Names\<close>

definition j_err :: "string \<Rightarrow> jserror" where
  "j_err m = (JournalError, m)"

definition GENESIS_HASH :: jstring where
  "GENESIS_HASH = js ''sha256:'' @ replicate 64 (digit 0)"

definition SUMMARY_SUFFIX :: jstring where
  "SUMMARY_SUFFIX = js ''.closed.json''"

definition STAGING_SUFFIX :: jstring where
  "STAGING_SUFFIX = js ''.tmp''"

definition HEAD_NAME :: jstring where
  "HEAD_NAME = js ''HEAD''"

definition HEAD_TMP :: jstring where
  "HEAD_TMP = js ''HEAD.tmp''"

definition segmentName :: "int \<Rightarrow> jstring" where
  "segmentName index = js ''events-'' @ pad_zero 6 (dec index) @ js ''.jsonl''"

text \<open>\<open>/^events-(\d{6})\.jsonl$/\<close>.\<close>

definition SEGMENT_NAME :: "jstring \<Rightarrow> bool" where
  "SEGMENT_NAME s \<longleftrightarrow>
     length s = 19 \<and> starts_with (js ''events-'') s \<and> list_all is_dec_digit (take 6 (drop 7 s))
     \<and> drop 13 s = js ''.jsonl''"

definition segmentIndexOf :: "jstring \<Rightarrow> int" where
  "segmentIndexOf name = value_of_digits 0 (take (length name - 13) (drop 7 name))"

definition summary_name :: "jstring \<Rightarrow> jstring" where
  "summary_name segment = segment @ SUMMARY_SUFFIX"

section \<open>Records\<close>

record journal_config =
  jc_runId :: jstring
  jc_segmentMaxBytes :: jsval

record journal_head =
  jh_seq :: int
  jh_eventHash :: jstring
  jh_segment :: jstring

record event_draft =
  ed_type :: jstring
  ed_actor :: jstring
  ed_payload :: fields
  ed_occurredAt :: jstring
  ed_causationId :: "jstring option"
  ed_correlationId :: "jstring option"
  ed_eventId :: "jstring option"

definition hashEvent :: "(jstring \<Rightarrow> jstring) \<Rightarrow> fields \<Rightarrow> jstring res" where
  "hashEvent sha env = bindR (canonicalJson (JObj env)) (\<lambda>t. Inr (js ''sha256:'' @ sha t))"

definition parseCanonicalRecord :: "jstring \<Rightarrow> jsval res" where
  "parseCanonicalRecord t =
     (case parseCanonicalJson (strip_newline t) of
        Inr v \<Rightarrow> Inr v
      | Inl e \<Rightarrow> Inl (if fst e = CanonicalJsonError then j_err ''is not canonical'' else e))"

definition is_hash_value :: "jsval \<Rightarrow> bool" where
  "is_hash_value v \<longleftrightarrow> is_str v \<and> sha256_value (str_of v)"

definition head_of :: "fields \<Rightarrow> journal_head" where
  "head_of r =
     \<lparr>jh_seq = num_of (fget r (js ''seq'')), jh_eventHash = str_of (fget r (js ''eventHash'')),
      jh_segment = str_of (fget r (js ''segment''))\<rparr>"

definition validateHead :: "journal_config \<Rightarrow> jsval \<Rightarrow> journal_head res" where
  "validateHead c raw =
     (let r = obj_of raw; n = fget r (js ''seq'') in
      ensure (is_plain_object raw) (j_err ''HEAD is not an object'')
     (ensure (field_set r = js ''eventHash,runId,schemaVersion,segment,seq'')
        (j_err ''HEAD has wrong field set'')
     (ensure (eq_num (fget r (js ''schemaVersion'')) 1) (j_err ''HEAD schemaVersion must be 1'')
     (ensure (fget r (js ''runId'') = JStr (jc_runId c)) (j_err ''HEAD runId mismatch'')
     (ensure (is_safe_number n \<and> 1 \<le> num_of n) (j_err ''HEAD seq must be a positive safe integer'')
     (ensure (is_hash_value (fget r (js ''eventHash''))) (j_err ''HEAD eventHash must be sha256:<64-hex>'')
     (ensure (is_str (fget r (js ''segment'')) \<and> SEGMENT_NAME (str_of (fget r (js ''segment''))))
        (j_err ''HEAD segment must be a canonical segment name'')
     (Inr (head_of r)))))))))"

definition validateDraft :: "event_draft \<Rightarrow> unit res" where
  "validateDraft d =
     ensure (ed_type d \<noteq> []) (j_err ''event type must be non-empty'')
     (ensure (ed_actor d \<noteq> []) (j_err ''event actor must be non-empty'')
     (ensure (isValidCanonicalTimestamp (ed_occurredAt d)) (j_err ''occurredAt is not a canonical ISO timestamp'')
     (ensure (ed_causationId d \<noteq> Some []) (j_err ''causationId must be null or non-empty'')
     (ensure (ed_correlationId d \<noteq> Some []) (j_err ''correlationId must be null or non-empty'')
     (bindR (canonicalJson (JObj (ed_payload d))) (\<lambda>_. Inr ()))))))"

definition null_or_nonempty :: "jsval \<Rightarrow> bool" where
  "null_or_nonempty v \<longleftrightarrow> v = JNull \<or> is_nonempty_str v"

definition EVENT_FIELDS :: jstring where
  "EVENT_FIELDS = js ''actor,causationId,correlationId,eventHash,eventId,occurredAt,payload,previousHash,runId,schemaVersion,seq,type''"

definition check_event_fields ::
  "(jstring \<Rightarrow> jstring) \<Rightarrow> journal_config \<Rightarrow> int \<Rightarrow> jstring \<Rightarrow> fields \<Rightarrow> fields res" where
  "check_event_fields sha c n previousHash r =
     (let g = (\<lambda>f. fget r (js f)) in
      ensure (eq_num (g ''schemaVersion'') 1) (j_err ''schemaVersion must be 1'')
     (ensure (g ''runId'' = JStr (jc_runId c)) (j_err ''runId mismatch'')
     (ensure (eq_num (g ''seq'') n) (j_err ''event seq is not the expected one'')
     (ensure (is_nonempty_str (g ''eventId'') \<and> is_nonempty_str (g ''type'') \<and> is_nonempty_str (g ''actor''))
        (j_err ''event field must be a non-empty string'')
     (ensure (is_str (g ''occurredAt'') \<and> isValidCanonicalTimestamp (str_of (g ''occurredAt'')))
        (j_err ''occurredAt is not canonical'')
     (ensure (null_or_nonempty (g ''causationId'') \<and> null_or_nonempty (g ''correlationId''))
        (j_err ''event field must be null or non-empty'')
     (ensure (is_plain_object (g ''payload'')) (j_err ''payload must be an object'')
     (ensure (g ''previousHash'' = JStr previousHash) (j_err ''previousHash does not chain'')
     (ensure (is_hash_value (g ''eventHash'')) (j_err ''eventHash must be sha256:<64-hex>'')
     (bindR (hashEvent sha (omit_field (js ''eventHash'') r)) (\<lambda>h.
        ensure (JStr h = g ''eventHash'') (j_err ''eventHash is not the recomputed one'') (Inr r))))))))))))"

definition validateEvent ::
  "(jstring \<Rightarrow> jstring) \<Rightarrow> journal_config \<Rightarrow> int \<Rightarrow> jstring \<Rightarrow> jsval \<Rightarrow> fields res" where
  "validateEvent sha c n previousHash raw =
     ensure (is_plain_object raw) (j_err ''event is not an object'')
     (ensure (field_set (obj_of raw) = EVENT_FIELDS) (j_err ''event has wrong field set'')
       (check_event_fields sha c n previousHash (obj_of raw)))"

definition event_seq :: "fields \<Rightarrow> int" where
  "event_seq e = num_of (fget e (js ''seq''))"

definition event_hash :: "fields \<Rightarrow> jstring" where
  "event_hash e = str_of (fget e (js ''eventHash''))"

section \<open>One segment\<close>

text \<open>\<open>committedBytes\<close> and \<open>residue\<close> as the two parts of the file they cut it into.\<close>

record parsed_segment =
  ps_events :: "fields list"
  ps_committed :: jstring
  ps_residue :: jstring

text \<open>
  The loop of \<open>parseSegment\<close>, from the cursor: \<open>acc\<close> holds the events and the text before it.
  The residue of a segment that is read to its end is what follows its last newline.
\<close>

lemma rest_shorter: "10 \<in> set t \<Longrightarrow> length (tl (dropWhile (\<lambda>u. u \<noteq> (10 :: jsunit)) t)) < length t"
proof -
  assume "10 \<in> set t"
  then have "dropWhile (\<lambda>u. u \<noteq> 10) t \<noteq> []" by (auto simp: dropWhile_eq_Nil_conv)
  then have "length (tl (dropWhile (\<lambda>u. u \<noteq> 10) t)) < length (dropWhile (\<lambda>u. u \<noteq> 10) t)" by simp
  also have "\<dots> \<le> length t" by (rule length_dropWhile_le)
  finally show ?thesis .
qed

function parse_records ::
  "(jstring \<Rightarrow> jstring) \<Rightarrow> journal_config \<Rightarrow> journal_head option \<Rightarrow> int \<Rightarrow> jstring
     \<Rightarrow> fields list \<times> jstring \<Rightarrow> jstring \<Rightarrow> parsed_segment res" where
  "parse_records sha c stopAt n previousHash acc t =
     (if 10 \<notin> set t then
        ensure (stopAt = None) (j_err ''committed tail not found before end of segment'')
          (Inr \<lparr>ps_events = fst acc, ps_committed = snd acc, ps_residue = t\<rparr>)
      else
        (let line = takeWhile (\<lambda>u. u \<noteq> 10) t; rest = tl (dropWhile (\<lambda>u. u \<noteq> 10) t) in
         ensure (line \<noteq> []) (j_err ''empty line inside committed prefix'')
         (bindR (parseCanonicalRecord line) (\<lambda>raw.
          bindR (validateEvent sha c n previousHash raw) (\<lambda>e.
            let acc' = (fst acc @ [e], snd acc @ line @ [10]) in
            case stopAt of
              None \<Rightarrow> parse_records sha c stopAt (n + 1) (event_hash e) acc' rest
            | Some head \<Rightarrow>
                if event_seq e = jh_seq head then
                  ensure (event_hash e = jh_eventHash head) (j_err ''record hash is not the HEAD hash'')
                    (Inr \<lparr>ps_events = fst acc', ps_committed = snd acc', ps_residue = rest\<rparr>)
                else parse_records sha c stopAt (n + 1) (event_hash e) acc' rest)))))"
  by pat_completeness auto

termination
  by (relation "measure (\<lambda>(_, _, _, _, _, _, t). length t)") (auto intro: rest_shorter [simplified length_tl One_nat_def])

declare parse_records.simps [simp del]

definition parseSegment ::
  "(jstring \<Rightarrow> jstring) \<Rightarrow> journal_config \<Rightarrow> journal_head option \<Rightarrow> int \<Rightarrow> jstring \<Rightarrow> jstring
     \<Rightarrow> parsed_segment res" where
  "parseSegment sha c stopAt n previousHash t = parse_records sha c stopAt n previousHash ([], []) t"

definition merkleRootOf :: "(jstring \<Rightarrow> jstring) \<Rightarrow> fields list \<Rightarrow> jstring" where
  "merkleRootOf sha events = js ''sha256:'' @ sha (join [10] (map event_hash events))"

definition summaryFor ::
  "(jstring \<Rightarrow> jstring) \<Rightarrow> jstring \<Rightarrow> fields list \<Rightarrow> int \<Rightarrow> jstring \<Rightarrow> jsval" where
  "summaryFor sha segment events committedBytes runId =
     (let seq_of = (\<lambda>pick. if events = [] then 0 else event_seq (pick events)) in
      JObj [(js ''schemaVersion'', JNum 1), (js ''runId'', JStr runId), (js ''segment'', JStr segment),
            (js ''firstSeq'', JNum (seq_of hd)), (js ''lastSeq'', JNum (seq_of last)),
            (js ''records'', JNum (int (length events))), (js ''sizeBytes'', JNum committedBytes),
            (js ''merkleRoot'', JStr (merkleRootOf sha events))])"

section \<open>Scanning a directory\<close>

datatype jnode = JFile jstring | JDir

type_synonym jfiles = "jnode dict"

definition readRegularFile :: "jfiles \<Rightarrow> jstring \<Rightarrow> jstring res" where
  "readRegularFile d name =
     (case map_of d name of
        None \<Rightarrow> Inl (j_err ''is missing'')
      | Some JDir \<Rightarrow> Inl (j_err ''is not a regular file'')
      | Some (JFile t) \<Rightarrow> Inr t)"

definition pathExists :: "jfiles \<Rightarrow> jstring \<Rightarrow> bool" where
  "pathExists d name \<longleftrightarrow> map_of d name \<noteq> None"

record entry_scan =
  en_indexes :: "int list"
  en_stray :: "jstring list"
  en_head :: "jstring option"

definition scan_entry :: "entry_scan \<Rightarrow> jstring \<times> jnode \<Rightarrow> entry_scan res" where
  "scan_entry s entry =
     (case entry of (name, node) \<Rightarrow>
        if name = js ''crash-residue'' then Inr s
        else if name = HEAD_NAME then
          (case node of JFile t \<Rightarrow> Inr (s\<lparr>en_head := Some t\<rparr>) | JDir \<Rightarrow> Inl (j_err ''HEAD is not a regular file''))
        else if name = HEAD_TMP \<or> ends_with (SUMMARY_SUFFIX @ STAGING_SUFFIX) name
          then Inr (s\<lparr>en_stray := en_stray s @ [name]\<rparr>)
        else
          (let isSummary = ends_with SUMMARY_SUFFIX name;
               base = (if isSummary then take (length name - length SUMMARY_SUFFIX) name else name) in
           ensure (SEGMENT_NAME base) (j_err ''illegal file in journal directory'')
             (if isSummary then Inr s
              else (case node of
                      JDir \<Rightarrow> Inl (j_err ''segment is not a regular file'')
                    | JFile _ \<Rightarrow> Inr (s\<lparr>en_indexes := en_indexes s @ [segmentIndexOf base]\<rparr>)))))"

fun consecutive :: "int list \<Rightarrow> bool" where
  "consecutive (a # b # xs) = (b = a + 1 \<and> consecutive (b # xs))"
| "consecutive _ = True"

record residue_report =
  rr_strayFiles :: "jstring list"
  rr_trailingBytesInActive :: int
  rr_laterSegments :: "jstring list"

record journal_layout =
  jl_head :: "journal_head option"
  jl_parsed :: "parsed_segment dict"
  jl_residue :: residue_report

definition noResidue :: residue_report where
  "noResidue = \<lparr>rr_strayFiles = [], rr_trailingBytesInActive = 0, rr_laterSegments = []\<rparr>"

definition expectSummary ::
  "(jstring \<Rightarrow> jstring) \<Rightarrow> journal_config \<Rightarrow> jfiles \<Rightarrow> jstring \<Rightarrow> parsed_segment \<Rightarrow> unit res" where
  "expectSummary sha c d name result =
     (case map_of d (summary_name name) of
        Some (JFile t) \<Rightarrow>
          bindR (parseCanonicalRecord t) (\<lambda>record.
          bindR (shape_of record) (\<lambda>keys.
          ensure (keys = js ''firstSeq,lastSeq,merkleRoot,records,runId,schemaVersion,segment,sizeBytes'')
            (j_err ''summary has wrong field set'')
          (bindR (canonicalJson record) (\<lambda>a.
           bindR (canonicalJson (summaryFor sha name (ps_events result) (utf8_length (ps_committed result)) (jc_runId c)))
             (\<lambda>b. ensure (a = b) (j_err ''summary does not match segment content'') (Inr ()))))))
      | _ \<Rightarrow> Inl (j_err ''closed segment is missing its close summary''))"

text \<open>The walk over the closed segments: parse results, next sequence number, last hash.\<close>

record closed_walk =
  cw_parsed :: "parsed_segment dict"
  cw_seq :: int
  cw_previousHash :: jstring

definition closed_segment ::
  "(jstring \<Rightarrow> jstring) \<Rightarrow> journal_config \<Rightarrow> jfiles \<Rightarrow> closed_walk \<Rightarrow> int \<Rightarrow> closed_walk res" where
  "closed_segment sha c d w index =
     (let name = segmentName index in
      bindR (readRegularFile d name) (\<lambda>t.
      ensure (t \<noteq> []) (j_err ''closed segment is empty'')
      (bindR (parseSegment sha c None (cw_seq w) (cw_previousHash w) t) (\<lambda>result.
       ensure (ps_residue result = []) (j_err ''closed segment has a torn final record'')
       (bindR (expectSummary sha c d name result) (\<lambda>_.
        Inr \<lparr>cw_parsed = cw_parsed w @ [(name, result)],
             cw_seq = (if ps_events result = [] then cw_seq w else event_seq (last (ps_events result)) + 1),
             cw_previousHash = (if ps_events result = [] then cw_previousHash w
                                else event_hash (last (ps_events result)))\<rparr>))))))"

definition active_segment ::
  "(jstring \<Rightarrow> jstring) \<Rightarrow> journal_config \<Rightarrow> jfiles \<Rightarrow> journal_head \<Rightarrow> closed_walk \<Rightarrow> parsed_segment res" where
  "active_segment sha c d head w =
     bindR (readRegularFile d (jh_segment head)) (\<lambda>t.
     ensure (t \<noteq> []) (j_err ''active segment is empty'')
     (bindR (parseSegment sha c (Some head) (cw_seq w) (cw_previousHash w) t) (\<lambda>result.
      if pathExists d (summary_name (jh_segment head))
      then bindR (expectSummary sha c d (jh_segment head) result) (\<lambda>_. Inr result)
      else Inr result)))"

definition scan_committed ::
  "(jstring \<Rightarrow> jstring) \<Rightarrow> journal_config \<Rightarrow> jfiles \<Rightarrow> entry_scan \<Rightarrow> jstring \<Rightarrow> journal_layout res" where
  "scan_committed sha c d s headText =
     bindR (parseCanonicalRecord headText) (\<lambda>raw.
     bindR (validateHead c raw) (\<lambda>head.
       let indexes = sort (en_indexes s); headIndex = segmentIndexOf (jh_segment head) in
       ensure (1 \<le> headIndex \<and> headIndex \<le> int (length indexes) \<and> indexes ! nat (headIndex - 1) = headIndex)
         (j_err ''HEAD segment is missing'')
       (bindR (foldR (closed_segment sha c d)
                 \<lparr>cw_parsed = [], cw_seq = 1, cw_previousHash = GENESIS_HASH\<rparr> [1..headIndex - 1]) (\<lambda>w.
        bindR (active_segment sha c d head w) (\<lambda>result.
          Inr \<lparr>jl_head = Some head, jl_parsed = cw_parsed w @ [(jh_segment head, result)],
               jl_residue = \<lparr>rr_strayFiles = en_stray s,
                             rr_trailingBytesInActive = utf8_length (ps_residue result),
                             rr_laterSegments = map segmentName (drop (nat headIndex) indexes)\<rparr>\<rparr>)))))"

definition scanJournal ::
  "(jstring \<Rightarrow> jstring) \<Rightarrow> journal_config \<Rightarrow> jfiles option \<Rightarrow> journal_layout res" where
  "scanJournal sha c dir =
     (case dir of
        None \<Rightarrow> Inr \<lparr>jl_head = None, jl_parsed = [], jl_residue = noResidue\<rparr>
      | Some d \<Rightarrow>
          bindR (foldR scan_entry \<lparr>en_indexes = [], en_stray = [], en_head = None\<rparr> d) (\<lambda>s.
            let indexes = sort (en_indexes s) in
            ensure (indexes = [] \<or> hd indexes = 1) (j_err ''segment numbering must start at 1'')
            (ensure (consecutive indexes) (j_err ''segment numbering gap'')
            (case en_head s of
               None \<Rightarrow>
                 Inr \<lparr>jl_head = None, jl_parsed = [],
                      jl_residue = \<lparr>rr_strayFiles = en_stray s, rr_trailingBytesInActive = 0,
                                    rr_laterSegments = map segmentName indexes\<rparr>\<rparr>
             | Some headText \<Rightarrow> scan_committed sha c d s headText))))"

record read_result =
  rd_events :: "fields list"
  rd_head :: "journal_head option"
  rd_residue :: residue_report

text \<open>The loop of \<open>readJournal\<close> over the parsed segments, which it leaves at the first missing one.\<close>

fun collect_events :: "parsed_segment dict \<Rightarrow> int list \<Rightarrow> fields list" where
  "collect_events parsed [] = []"
| "collect_events parsed (i # is) =
     (case map_of parsed (segmentName i) of
        None \<Rightarrow> []
      | Some p \<Rightarrow> ps_events p @ collect_events parsed is)"

definition readJournal ::
  "(jstring \<Rightarrow> jstring) \<Rightarrow> journal_config \<Rightarrow> jfiles option \<Rightarrow> read_result res" where
  "readJournal sha c dir =
     bindR (scanJournal sha c dir) (\<lambda>l.
       Inr \<lparr>rd_events = (case jl_head l of
                           None \<Rightarrow> []
                         | Some h \<Rightarrow> collect_events (jl_parsed l) [1..segmentIndexOf (jh_segment h)]),
            rd_head = jl_head l, rd_residue = jl_residue l\<rparr>)"

section \<open>The writer\<close>

record journal =
  jw_config :: journal_config
  jw_head :: "journal_head option"
  jw_lastSeq :: int
  jw_lastHash :: jstring
  jw_activeSegment :: jstring
  jw_activeSize :: int
  jw_activeEvents :: "fields list"
  jw_handleOpen :: bool

text \<open>
  The effects of the writer on the directory. \<open>WriteAt\<close> writes at a byte position of an
  existing file and keeps what the file holds beyond the bytes written.
\<close>

datatype effect =
    WriteFile jstring jstring
  | CreateFile jstring
  | Rename jstring jstring
  | Truncate jstring int
  | WriteAt jstring int jstring

text \<open>A text cut after a number of bytes.\<close>

function byte_split :: "int \<Rightarrow> jstring \<Rightarrow> jstring \<times> jstring" where
  "n \<le> 0 \<Longrightarrow> byte_split n t = ([], t)"
| "0 < n \<Longrightarrow> byte_split n [] = ([], [])"
| "0 < n \<Longrightarrow> byte_split n (u # us) =
     (case us of
        v # vs \<Rightarrow>
          if is_high u \<and> is_low v then (case byte_split (n - 4) vs of (a, b) \<Rightarrow> (u # v # a, b))
          else (case byte_split (n - utf8_length [u]) us of (a, b) \<Rightarrow> (u # a, b))
      | [] \<Rightarrow> ([u], []))"
  by (metis linorder_not_le neq_Nil_conv prod.exhaust) auto
termination
  by (relation "measure (\<lambda>(n, t). length t)") auto

definition file_text :: "jfiles \<Rightarrow> jstring \<Rightarrow> jstring" where
  "file_text d name = (case map_of d name of Some (JFile t) \<Rightarrow> t | _ \<Rightarrow> [])"

fun apply_effect :: "effect \<Rightarrow> jfiles \<Rightarrow> jfiles" where
  "apply_effect (WriteFile name t) d = AList.update name (JFile t) d"
| "apply_effect (CreateFile name) d = AList.update name (JFile []) d"
| "apply_effect (Rename a b) d = AList.update b (JFile (file_text d a)) (AList.delete a d)"
| "apply_effect (Truncate name n) d =
     AList.update name (JFile (fst (byte_split n (file_text d name)))) d"
| "apply_effect (WriteAt name pos t) d =
     AList.update name
       (JFile (case byte_split pos (file_text d name) of (a, b) \<Rightarrow> a @ t @ snd (byte_split (utf8_length t) b))) d"

text \<open>A write that stops after \<open>k\<close> units; the other effects happen or do not happen.\<close>

fun torn_effect :: "nat \<Rightarrow> effect \<Rightarrow> jfiles \<Rightarrow> jfiles" where
  "torn_effect k (WriteFile name t) d = apply_effect (WriteFile name (take k t)) d"
| "torn_effect k (WriteAt name pos t) d = apply_effect (WriteAt name pos (take k t)) d"
| "torn_effect k _ d = d"

text \<open>Steps of an append: an effect and the handle's state once it is done.\<close>

type_synonym plan = "(effect \<times> journal) list"

definition last_handle :: "journal \<Rightarrow> plan \<Rightarrow> journal" where
  "last_handle j p = (if p = [] then j else snd (last p))"

definition write_summary :: "(jstring \<Rightarrow> jstring) \<Rightarrow> journal \<Rightarrow> plan res" where
  "write_summary sha j =
     (let name = summary_name (jw_activeSegment j) in
      bindR (canonicalJson (summaryFor sha (jw_activeSegment j) (jw_activeEvents j) (jw_activeSize j)
               (jc_runId (jw_config j)))) (\<lambda>t.
        Inr [(WriteFile (name @ STAGING_SUFFIX) (t @ [10]), j), (Rename (name @ STAGING_SUFFIX) name, j\<lparr>jw_handleOpen := False\<rparr>)]))"

definition rotate_plan :: "(jstring \<Rightarrow> jstring) \<Rightarrow> jfiles \<Rightarrow> journal \<Rightarrow> plan res" where
  "rotate_plan sha d j =
     (let next = segmentName (segmentIndexOf (jw_activeSegment j) + 1) in
      ensure (\<not> pathExists d next) (j_err ''rotation target already exists'')
      (bindR (write_summary sha j) (\<lambda>p.
        Inr (p @ [(CreateFile next, j\<lparr>jw_activeSegment := next, jw_activeEvents := [], jw_activeSize := 0,
                                     jw_handleOpen := True\<rparr>)]))))"

definition ensure_handle :: "jfiles \<Rightarrow> journal \<Rightarrow> plan res" where
  "ensure_handle d j =
     (if jw_handleOpen j then Inr []
      else if jw_activeSize j = 0 then
        ensure (\<not> pathExists d (jw_activeSegment j)) (j_err ''active segment exists but is uncommitted'')
          (Inr [(CreateFile (jw_activeSegment j), j\<lparr>jw_handleOpen := True\<rparr>)])
      else Inr [(Truncate (jw_activeSegment j) (jw_activeSize j), j\<lparr>jw_handleOpen := True\<rparr>)])"

definition head_fields :: "jstring \<Rightarrow> journal_head \<Rightarrow> fields" where
  "head_fields runId h =
     [(js ''schemaVersion'', JNum 1), (js ''runId'', JStr runId), (js ''seq'', JNum (jh_seq h)),
      (js ''eventHash'', JStr (jh_eventHash h)), (js ''segment'', JStr (jh_segment h))]"

definition publishHead :: "journal \<Rightarrow> int \<Rightarrow> jstring \<Rightarrow> plan res" where
  "publishHead j n h =
     (let head = \<lparr>jh_seq = n, jh_eventHash = h, jh_segment = jw_activeSegment j\<rparr> in
      bindR (canonicalJson (JObj (head_fields (jc_runId (jw_config j)) head))) (\<lambda>t.
        Inr [(WriteFile HEAD_TMP (t @ [10]), j),
             (Rename HEAD_TMP HEAD_NAME, j\<lparr>jw_head := Some head, jw_lastSeq := n, jw_lastHash := h\<rparr>)]))"

definition opt_string :: "jstring option \<Rightarrow> jsval" where
  "opt_string v = (case v of None \<Rightarrow> JNull | Some s \<Rightarrow> JStr s)"

text \<open>The envelope of a draft; \<open>fresh\<close> is the identifier drawn when the draft brings none.\<close>

definition event_envelope :: "jstring \<Rightarrow> journal \<Rightarrow> event_draft \<Rightarrow> fields" where
  "event_envelope fresh j d =
     [(js ''schemaVersion'', JNum 1), (js ''runId'', JStr (jc_runId (jw_config j))),
      (js ''seq'', JNum (jw_lastSeq j + 1)),
      (js ''eventId'', JStr (case ed_eventId d of None \<Rightarrow> fresh | Some i \<Rightarrow> i)),
      (js ''occurredAt'', JStr (ed_occurredAt d)), (js ''type'', JStr (ed_type d)),
      (js ''causationId'', opt_string (ed_causationId d)),
      (js ''correlationId'', opt_string (ed_correlationId d)), (js ''actor'', JStr (ed_actor d)),
      (js ''payload'', JObj (ed_payload d)), (js ''previousHash'', JStr (jw_lastHash j))]"

definition draft_event :: "(jstring \<Rightarrow> jstring) \<Rightarrow> jstring \<Rightarrow> journal \<Rightarrow> event_draft \<Rightarrow> fields res" where
  "draft_event sha fresh j d =
     bindR (validateDraft d) (\<lambda>_.
     bindR (hashEvent sha (event_envelope fresh j d)) (\<lambda>h.
       Inr (event_envelope fresh j d @ [(js ''eventHash'', JStr h)])))"

text \<open>
  \<open>appendExclusive\<close> as the list of its effects: an optional rotation, the handle, the record,
  the new \<open>HEAD\<close>.
\<close>

definition append_plan ::
  "(jstring \<Rightarrow> jstring) \<Rightarrow> jstring \<Rightarrow> jfiles \<Rightarrow> journal \<Rightarrow> event_draft \<Rightarrow> (plan \<times> fields) res" where
  "append_plan sha fresh d j draft =
     bindR (draft_event sha fresh j draft) (\<lambda>e.
     bindR (canonicalJson (JObj e)) (\<lambda>t.
       let line = t @ [10] in
       bindR (if jw_activeSize j > 0 \<and> jw_activeSize j + utf8_length line > num_of (jc_segmentMaxBytes (jw_config j))
              then rotate_plan sha d j else Inr []) (\<lambda>rot.
       let j1 = last_handle j rot in
       bindR (ensure_handle d j1) (\<lambda>opened.
       let j2 = last_handle j1 opened;
           j3 = j2\<lparr>jw_activeSize := jw_activeSize j2 + utf8_length line,
                   jw_activeEvents := jw_activeEvents j2 @ [e]\<rparr> in
       bindR (publishHead j3 (event_seq e) (event_hash e)) (\<lambda>commit.
         Inr (rot @ opened @ (WriteAt (jw_activeSegment j2) (jw_activeSize j2) line, j3) # commit, e))))))"

text \<open>
  An append under an I/O schedule: \<open>Some (n, k)\<close> lets \<open>n\<close> effects happen and stops the next one
  after \<open>k\<close> units.
\<close>

definition append_journal ::
  "(jstring \<Rightarrow> jstring) \<Rightarrow> jstring \<Rightarrow> (nat \<times> nat) option \<Rightarrow> jfiles \<Rightarrow> journal \<Rightarrow> event_draft
     \<Rightarrow> jfiles \<times> journal \<times> fields res" where
  "append_journal sha fresh io d j draft =
     (case append_plan sha fresh d j draft of
        Inl err \<Rightarrow> (d, j, Inl err)
      | Inr (p, e) \<Rightarrow>
          (case io of
             Some (n, k) \<Rightarrow>
               if n < length p
               then (torn_effect k (fst (p ! n)) (fold apply_effect (map fst (take n p)) d),
                     last_handle j (take n p), Inl (PlainError, ''write failed''))
               else (fold apply_effect (map fst p) d, last_handle j p, Inr e)
           | None \<Rightarrow> (fold apply_effect (map fst p) d, last_handle j p, Inr e)))"

section \<open>Opening\<close>

text \<open>
  \<open>park\<close>: the bytes move to \<open>crash-residue\<close> under their hash, unless they are already there;
  an empty file is only removed. Removing a directory fails silently.
\<close>

definition unlink_file :: "jstring \<Rightarrow> jfiles \<Rightarrow> jfiles" where
  "unlink_file name d = (if map_of d name = Some JDir then d else AList.delete name d)"

definition park ::
  "(jstring \<Rightarrow> jstring) \<Rightarrow> jstring \<Rightarrow> jstring \<Rightarrow> jfiles \<times> jstring dict \<Rightarrow> jfiles \<times> jstring dict" where
  "park sha name bytes dr =
     (case dr of (d, r) \<Rightarrow>
        if bytes = [] then (unlink_file name d, r)
        else (unlink_file name d,
              (let target = sha bytes @ js ''-'' @ name in
               case map_of r target of None \<Rightarrow> r @ [(target, bytes)] | Some _ \<Rightarrow> r)))"

definition park_file ::
  "(jstring \<Rightarrow> jstring) \<Rightarrow> jstring \<Rightarrow> jfiles \<times> jstring dict \<Rightarrow> jfiles \<times> jstring dict" where
  "park_file sha name dr = park sha name (file_text (fst dr) name) dr"

definition quarantineResidue ::
  "(jstring \<Rightarrow> jstring) \<Rightarrow> journal_layout \<Rightarrow> jfiles \<times> jstring dict \<Rightarrow> jfiles \<times> jstring dict" where
  "quarantineResidue sha l dr =
     (let stray = fold (park_file sha) (rr_strayFiles (jl_residue l)) dr;
          later = fold (\<lambda>name dr. park_file sha (summary_name name) (park_file sha name dr))
                    (rr_laterSegments (jl_residue l)) stray in
      case jl_head l of
        None \<Rightarrow> later
      | Some h \<Rightarrow>
          (case map_of (jl_parsed l) (jh_segment h) of
             Some p \<Rightarrow>
               if rr_trailingBytesInActive (jl_residue l) > 0
               then (case park sha (jh_segment h @ js ''.suffix'') (ps_residue p) later of
                       (d, r) \<Rightarrow> (AList.update (jh_segment h) (JFile (ps_committed p)) d, r))
               else later
           | None \<Rightarrow> later))"

definition journal_of :: "journal_config \<Rightarrow> journal_layout \<Rightarrow> journal" where
  "journal_of c l =
     (let segment = (case jl_head l of None \<Rightarrow> segmentName 1 | Some h \<Rightarrow> jh_segment h);
          active = map_of (jl_parsed l) segment in
      \<lparr>jw_config = c, jw_head = jl_head l,
       jw_lastSeq = (case jl_head l of None \<Rightarrow> 0 | Some h \<Rightarrow> jh_seq h),
       jw_lastHash = (case jl_head l of None \<Rightarrow> GENESIS_HASH | Some h \<Rightarrow> jh_eventHash h),
       jw_activeSegment = segment,
       jw_activeSize = (case active of None \<Rightarrow> 0 | Some p \<Rightarrow> utf8_length (ps_committed p)),
       jw_activeEvents = (case active of None \<Rightarrow> [] | Some p \<Rightarrow> ps_events p),
       jw_handleOpen = False\<rparr>)"

definition open_journal ::
  "(jstring \<Rightarrow> jstring) \<Rightarrow> journal_config \<Rightarrow> jfiles option \<times> jstring dict
     \<Rightarrow> (journal \<times> residue_report \<times> jfiles \<times> jstring dict) res" where
  "open_journal sha c disk =
     ensure (jc_runId c \<noteq> []) (j_err ''runId must be non-empty'')
     (ensure (is_safe_number (jc_segmentMaxBytes c) \<and> 0 < num_of (jc_segmentMaxBytes c))
        (j_err ''segmentMaxBytes must be a positive safe integer'')
     (let d = (case fst disk of None \<Rightarrow> [] | Some d \<Rightarrow> d) in
      bindR (scanJournal sha c (Some d)) (\<lambda>l.
        case quarantineResidue sha l (d, snd disk) of
          (d', r') \<Rightarrow> Inr (journal_of c l, jl_residue l, d', r'))))"

end
