(* ===== verification/JournalNames.thy ===== *)
theory JournalNames
  imports Journal
begin

text \<open>The names of a journal directory: every kind of name is told apart from the others by the scan.\<close>

lemma length_digits: "0 \<le> n \<Longrightarrow> n < 10 ^ Suc k \<Longrightarrow> length (digits n) \<le> Suc k"
proof (induction k arbitrary: n)
  case 0
  then show ?case by (subst digits.simps) simp
next
  case (Suc k)
  have "length (digits (n div 10)) \<le> Suc k" using Suc.prems by (intro Suc.IH) auto
  then show ?case by (subst digits.simps) simp
qed

lemma value_of_zeros: "value_of_digits 0 (replicate k (digit 0) @ s) = value_of_digits 0 s"
  by (induction k) simp_all

definition segment_index :: "int \<Rightarrow> bool" where
  "segment_index i \<longleftrightarrow> 1 \<le> i \<and> i < 1000000"

lemma padded:
  assumes "segment_index i"
  shows "length (pad_zero 6 (dec i)) = 6" "list_all is_dec_digit (pad_zero 6 (dec i))"
    "value_of_digits 0 (pad_zero 6 (dec i)) = i"
proof -
  have i: "dec i = digits i" "0 \<le> i" using assms by (auto simp: dec_def segment_index_def)
  have "length (digits i) \<le> 6"
    using length_digits [of i 5] assms by (simp add: segment_index_def)
  then show "length (pad_zero 6 (dec i)) = 6" by (simp add: pad_zero_def i)
  show "list_all is_dec_digit (pad_zero 6 (dec i))"
    using list_all_digits [OF i(2)] by (auto simp: pad_zero_def i list_all_iff)
  show "value_of_digits 0 (pad_zero 6 (dec i)) = i"
    by (simp add: pad_zero_def i(1) value_of_zeros value_of_digits_digits [OF i(2)])
qed

lemma segmentName_parts:
  assumes "segment_index i"
  shows "length (segmentName i) = 19" "SEGMENT_NAME (segmentName i)" "segmentIndexOf (segmentName i) = i"
proof -
  have l: "length (js ''events-'') = 7" "length (js ''.jsonl'') = 6" by simp_all
  show len: "length (segmentName i) = 19" using padded(1) [OF assms] by (simp add: segmentName_def)
  have d7: "drop 7 (segmentName i) = pad_zero 6 (dec i) @ js ''.jsonl''"
    unfolding segmentName_def by (subst l(1) [symmetric]) simp
  have d13: "drop 13 (segmentName i) = js ''.jsonl''"
  proof -
    have "drop 13 (segmentName i) = drop 6 (drop 7 (segmentName i))" by simp
    then show ?thesis using padded(1) [OF assms] by (simp add: d7)
  qed
  have t6: "take 6 (drop 7 (segmentName i)) = pad_zero 6 (dec i)"
    using padded(1) [OF assms] by (simp add: d7)
  show "SEGMENT_NAME (segmentName i)"
    unfolding SEGMENT_NAME_def t6 d13 using padded(2) [OF assms] len
    by (simp add: segmentName_def)
  show "segmentIndexOf (segmentName i) = i"
    unfolding segmentIndexOf_def len using t6 padded(3) [OF assms] by simp
qed

lemma segmentName_inject: "segment_index i \<Longrightarrow> segment_index k \<Longrightarrow> segmentName i = segmentName k \<longleftrightarrow> i = k"
  using segmentName_parts(3) by metis

lemma ends_with_iff: "ends_with p s \<longleftrightarrow> (\<exists>a. s = a @ p)"
proof
  assume "ends_with p s"
  then have "s = take (length s - length p) s @ p" by (metis ends_with_def append_take_drop_id)
  then show "\<exists>a. s = a @ p" by blast
qed (auto simp: ends_with_def)

lemma last_units:
  "segment_index i \<Longrightarrow> last (segmentName i) = unit_of (CHR ''l'')"
  "last (summary_name s) = unit_of (CHR ''n'')"
  "last (s @ STAGING_SUFFIX) = unit_of (CHR ''p'')"
  by (simp_all add: segmentName_def summary_name_def SUMMARY_SUFFIX_def STAGING_SUFFIX_def js_def)

lemma ends_with_last: "ends_with p s \<Longrightarrow> p \<noteq> [] \<Longrightarrow> last s = last p"
  by (auto simp: ends_with_iff)

lemma not_staging:
  "segment_index i \<Longrightarrow> \<not> ends_with (SUMMARY_SUFFIX @ STAGING_SUFFIX) (segmentName i)"
  "\<not> ends_with (SUMMARY_SUFFIX @ STAGING_SUFFIX) (summary_name s)"
  using ends_with_last [of "SUMMARY_SUFFIX @ STAGING_SUFFIX" "segmentName i"]
    ends_with_last [of "SUMMARY_SUFFIX @ STAGING_SUFFIX" "summary_name s"]
  by (auto simp: last_units STAGING_SUFFIX_def js_def)

lemma not_summary: "segment_index i \<Longrightarrow> \<not> ends_with SUMMARY_SUFFIX (segmentName i)"
  using ends_with_last [of SUMMARY_SUFFIX "segmentName i"]
  by (auto simp: last_units SUMMARY_SUFFIX_def js_def)

lemma summary_name_parts:
  "ends_with SUMMARY_SUFFIX (summary_name s)" "take (length (summary_name s) - length SUMMARY_SUFFIX) (summary_name s) = s"
  by (auto simp: summary_name_def ends_with_iff)

lemma summary_name_inject [simp]: "summary_name a = summary_name b \<longleftrightarrow> a = b"
  by (simp add: summary_name_def)

lemma hd_segmentName: "hd (segmentName i) = unit_of (CHR ''e'')"
  by (simp add: segmentName_def js_def)

lemma special_names:
  "HEAD_NAME \<noteq> HEAD_TMP" "HEAD_NAME \<noteq> js ''crash-residue''" "HEAD_TMP \<noteq> js ''crash-residue''"
  by (simp_all add: HEAD_NAME_def HEAD_TMP_def)

lemma segmentName_special:
  "segmentName i \<noteq> HEAD_NAME" "segmentName i \<noteq> HEAD_TMP" "segmentName i \<noteq> js ''crash-residue''"
  using hd_segmentName [of i] by (auto simp: HEAD_NAME_def HEAD_TMP_def js_def)

lemma summary_name_special:
  "summary_name (segmentName i) \<noteq> HEAD_NAME" "summary_name (segmentName i) \<noteq> HEAD_TMP"
  "summary_name (segmentName i) \<noteq> js ''crash-residue''"
  using hd_segmentName [of i]
  by (auto simp: summary_name_def HEAD_NAME_def HEAD_TMP_def js_def segmentName_def)

lemma segment_not_summary: "segment_index i \<Longrightarrow> segmentName i \<noteq> summary_name s"
  using last_units(1) [of i] last_units(2) [of s] by auto

text \<open>A name the scan sets aside: the staging name of \<open>HEAD\<close> or of a summary.\<close>

definition staging_name :: "jstring \<Rightarrow> bool" where
  "staging_name s \<longleftrightarrow> s = HEAD_TMP \<or> (\<exists>i. s = summary_name (segmentName i) @ STAGING_SUFFIX)"

lemma staging_other:
  assumes "staging_name s"
  shows "s \<noteq> HEAD_NAME" "s \<noteq> js ''crash-residue''" "s \<noteq> summary_name b" "segment_index i \<Longrightarrow> s \<noteq> segmentName i"
    "s = HEAD_TMP \<or> ends_with (SUMMARY_SUFFIX @ STAGING_SUFFIX) s"
proof -
  have l: "last s = unit_of (CHR ''p'')"
    using assms by (auto simp: staging_name_def last_units HEAD_TMP_def js_def)
  show "s \<noteq> HEAD_NAME" using l by (auto simp: HEAD_NAME_def js_def)
  show "s \<noteq> js ''crash-residue''" using l by (auto simp: js_def)
  show "s \<noteq> summary_name b" using l last_units(2) by auto
  show "segment_index i \<Longrightarrow> s \<noteq> segmentName i" using l last_units(1) by auto
  show "s = HEAD_TMP \<or> ends_with (SUMMARY_SUFFIX @ STAGING_SUFFIX) s"
    using assms by (auto simp: staging_name_def ends_with_iff summary_name_def)
qed

end
