(* ===== verification/JournalRead.thy ===== *)
theory JournalRead
  imports JournalNames
begin

text \<open>
  What the scan of a journal directory accepts: \<open>journal_dir\<close> describes a directory whose
  committed prefix is a list of segments of events, with whatever a crash may leave beside it,
  and reading such a directory gives exactly these events.
\<close>

section \<open>Lines and chains\<close>

definition line_of :: "fields \<Rightarrow> jstring" where
  "line_of e = (case canonicalJson (JObj e) of Inr t \<Rightarrow> t | Inl _ \<Rightarrow> [])"

definition seg_text :: "fields list \<Rightarrow> jstring" where
  "seg_text evs = concat (map (\<lambda>e. line_of e @ [10]) evs)"

text \<open>An event as a reader returns it: its line parses to it, and it continues the chain.\<close>

definition readable :: "(jstring \<Rightarrow> jstring) \<Rightarrow> journal_config \<Rightarrow> int \<Rightarrow> jstring \<Rightarrow> fields \<Rightarrow> bool" where
  "readable sha c n h e \<longleftrightarrow>
     parseCanonicalJson (line_of e) = Inr (JObj e) \<and> validateEvent sha c n h (JObj e) = Inr e"

fun chain :: "(jstring \<Rightarrow> jstring) \<Rightarrow> journal_config \<Rightarrow> int \<Rightarrow> jstring \<Rightarrow> fields list \<Rightarrow> bool" where
  "chain sha c n h [] = True"
| "chain sha c n h (e # es) = (readable sha c n h e \<and> chain sha c (n + 1) (event_hash e) es)"

fun chain_head :: "jstring \<Rightarrow> fields list \<Rightarrow> jstring" where
  "chain_head h [] = h"
| "chain_head h (e # es) = chain_head (event_hash e) es"

lemma seg_text_simps [simp]:
  "seg_text [] = []" "seg_text (e # es) = line_of e @ 10 # seg_text es"
  "seg_text (es @ fs) = seg_text es @ seg_text fs"
  by (simp_all add: seg_text_def)

lemma seg_text_Nil_iff [simp]: "seg_text es = [] \<longleftrightarrow> es = []"
  by (cases es) simp_all

lemma chain_append:
  "chain sha c n h (es @ fs) \<longleftrightarrow> chain sha c n h es \<and> chain sha c (n + int (length es)) (chain_head h es) fs"
  by (induction es arbitrary: n h) (auto simp: algebra_simps)

lemma chain_head_append [simp]: "chain_head h (es @ fs) = chain_head (chain_head h es) fs"
  by (induction es arbitrary: h) auto

lemma chain_head_last: "chain_head h es = (if es = [] then h else event_hash (last es))"
  by (induction es arbitrary: h) auto

lemma validateEvent_facts:
  assumes "validateEvent sha c n h (JObj e) = Inr e'"
  shows "e' = e" "event_seq e = n" "fget e (js ''previousHash'') = JStr h" "sha256_value (event_hash e)"
    "is_str (fget e (js ''eventHash''))" "eq_num (fget e (js ''seq'')) n" "eq_num (fget e (js ''schemaVersion'')) 1"
    "fget e (js ''runId'') = JStr (jc_runId c)" "is_str (fget e (js ''type''))"
    "is_plain_object (fget e (js ''payload''))"
    "\<exists>t. canonicalJson (JObj (omit_field (js ''eventHash'') e)) = Inr t
       \<and> JStr (js ''sha256:'' @ sha t) = fget e (js ''eventHash'')"
  using assms
  by (auto simp: validateEvent_def check_event_fields_def ensure_Inr_iff bindR_Inr_iff Let_def event_seq_def
      event_hash_def eq_num_def is_hash_value_def hashEvent_def dest!: is_nonempty_strE)

lemma readable_facts:
  assumes "readable sha c n h e"
  shows "event_seq e = n" "sha256_value (event_hash e)" "10 \<notin> set (line_of e)" "line_of e \<noteq> []"
    "parseCanonicalRecord (line_of e) = Inr (JObj e)"
proof -
  have p: "parseCanonicalJson (line_of e) = Inr (JObj e)" and v: "validateEvent sha c n h (JObj e) = Inr e"
    using assms by (simp_all add: readable_def)
  from validateEvent_facts [OF v] show "event_seq e = n" "sha256_value (event_hash e)" by blast+
  have c: "serialize (JObj e) = Inr (line_of e)"
    using parseCanonicalJson_sound(1) [OF p] by (simp add: canonicalJson_def)
  from serialize_no_newline [OF c] show nl: "10 \<notin> set (line_of e)" .
  from canonicalJson_length [OF c] show "line_of e \<noteq> []" .
  have "strip_newline (line_of e) = line_of e"
    using nl by (auto simp: strip_newline_def ends_with_newline)
  then show "parseCanonicalRecord (line_of e) = Inr (JObj e)" by (simp add: parseCanonicalRecord_def p)
qed

section \<open>Parsing a segment\<close>

lemma line_split:
  assumes "10 \<notin> set l"
  shows "takeWhile (\<lambda>u. u \<noteq> (10 :: jsunit)) (l @ 10 # r) = l" "tl (dropWhile (\<lambda>u. u \<noteq> 10) (l @ 10 # r)) = r"
  using assms by (induction l) auto

lemma parse_records_step:
  assumes "readable sha c n h e"
  shows "parse_records sha c stopAt n h acc (line_of e @ 10 # rest)
    = (let acc' = (fst acc @ [e], snd acc @ line_of e @ [10]) in
       case stopAt of
         None \<Rightarrow> parse_records sha c stopAt (n + 1) (event_hash e) acc' rest
       | Some head \<Rightarrow>
           if event_seq e = jh_seq head then
             ensure (event_hash e = jh_eventHash head) (j_err ''record hash is not the HEAD hash'')
               (Inr \<lparr>ps_events = fst acc', ps_committed = snd acc', ps_residue = rest\<rparr>)
           else parse_records sha c stopAt (n + 1) (event_hash e) acc' rest)"
proof -
  have v: "validateEvent sha c n h (JObj e) = Inr e" using assms by (simp add: readable_def)
  show ?thesis
    by (subst parse_records.simps)
      (simp add: line_split [OF readable_facts(3) [OF assms]] readable_facts(4,5) [OF assms] v Let_def)
qed

lemma parse_records_closed:
  assumes "chain sha c n h es"
  shows "parse_records sha c None n h acc (seg_text es)
    = Inr \<lparr>ps_events = fst acc @ es, ps_committed = snd acc @ seg_text es, ps_residue = []\<rparr>"
  using assms
proof (induction es arbitrary: n h acc)
  case Nil
  then show ?case by (subst parse_records.simps) simp
next
  case (Cons e es)
  then show ?case by (simp add: parse_records_step Let_def)
qed

lemma parse_records_active:
  assumes "chain sha c n h (es @ [e])" "jh_seq head = event_seq e" "jh_eventHash head = event_hash e"
  shows "parse_records sha c (Some head) n h acc (seg_text (es @ [e]) @ rest)
    = Inr \<lparr>ps_events = fst acc @ es @ [e], ps_committed = snd acc @ seg_text (es @ [e]), ps_residue = rest\<rparr>"
  using assms
proof (induction es arbitrary: n h acc)
  case Nil
  then show ?case by (simp add: parse_records_step Let_def)
next
  case (Cons f es)
  have "event_seq f = n" "event_seq e = n + 1 + int (length es)"
    using Cons.prems(1) readable_facts(1) by (auto simp: chain_append)
  with Cons.prems Cons.IH show ?case by (simp add: parse_records_step Let_def)
qed

section \<open>Summaries and the head\<close>

definition summary_text :: "(jstring \<Rightarrow> jstring) \<Rightarrow> journal_config \<Rightarrow> int \<Rightarrow> fields list \<Rightarrow> jstring \<Rightarrow> bool" where
  "summary_text sha c i evs t \<longleftrightarrow>
     (\<exists>u. canonicalJson (summaryFor sha (segmentName i) evs (utf8_length (seg_text evs)) (jc_runId c)) = Inr u
        \<and> t = u @ [10])"

lemma strip_newline_snoc [simp]: "strip_newline (u @ [10]) = u"
  by (simp add: strip_newline_def ends_with_newline)

lemma parse_written_record:
  assumes "plain_keys (JObj r)" "canonicalJson (JObj r) = Inr u"
  shows "parseCanonicalRecord (u @ [10]) = Inr (JObj (canon_fields r))"
proof -
  have "parseCanonicalJson u = Inr (JObj (canon_fields r))"
    using parse_of_serialized [OF assms] by (simp only: canon_JObj)
  then show ?thesis by (simp add: parseCanonicalRecord_def)
qed

lemma shape_of_canon: "shape_of (JObj (canon_fields r)) = Inr (field_set r)"
  using field_set_canon_fields [of r] by (simp add: shape_of_def field_set_def)

lemma expectSummary_ok:
  assumes "map_of d (summary_name (segmentName i)) = Some (JFile t)" "summary_text sha c i evs t"
    and "ps_events p = evs" "ps_committed p = seg_text evs"
  shows "expectSummary sha c d (segmentName i) p = Inr ()"
proof -
  let ?s = "summaryFor sha (segmentName i) evs (utf8_length (seg_text evs)) (jc_runId c)"
  obtain u where u: "canonicalJson ?s = Inr u" "t = u @ [10]" using assms(2) by (auto simp: summary_text_def)
  obtain r where r: "?s = JObj r" "map fst r = map js
      [''schemaVersion'', ''runId'', ''segment'', ''firstSeq'', ''lastSeq'', ''records'', ''sizeBytes'', ''merkleRoot'']"
    "plain_keys (JObj r)"
    by (simp add: summaryFor_def Let_def)
  have "field_set r = js ''firstSeq,lastSeq,merkleRoot,records,runId,schemaVersion,segment,sizeBytes''"
    unfolding field_set_def r(2) by code_simp
  then show ?thesis
    using u r(1,3) assms(1,3,4)
    by (simp add: expectSummary_def parse_written_record shape_of_canon canonicalJson_canon_fields)
qed

definition head_text :: "journal_config \<Rightarrow> journal_head \<Rightarrow> jstring \<Rightarrow> bool" where
  "head_text c h t \<longleftrightarrow>
     (\<exists>u. canonicalJson (JObj (head_fields (jc_runId c) h)) = Inr u \<and> t = u @ [10])"

lemma head_read:
  assumes "head_text c h t" "1 \<le> jh_seq h" "sha256_value (jh_eventHash h)" "SEGMENT_NAME (jh_segment h)"
  shows "bindR (parseCanonicalRecord t) (validateHead c) = Inr h"
proof -
  let ?r = "head_fields (jc_runId c) h"
  obtain u where u: "canonicalJson (JObj ?r) = Inr u" "t = u @ [10]" using assms(1) by (auto simp: head_text_def)
  have keys: "map fst ?r = map js [''schemaVersion'', ''runId'', ''seq'', ''eventHash'', ''segment'']"
    by (simp add: head_fields_def)
  have plain: "plain_keys (JObj ?r)" "distinct (map fst ?r)" by (simp_all add: head_fields_def)
  have shape: "field_set (canon_fields ?r) = js ''eventHash,runId,schemaVersion,segment,seq''"
    unfolding field_set_canon_fields field_set_def keys by code_simp
  have "\<exists>v. serialize (JNum (jh_seq h)) = Inr v"
    by (rule serialize_member [OF u(1), of "js ''seq''"]) (simp add: head_fields_def)
  then have "safe_int (jh_seq h)" by (auto simp: cj_err_def split: if_splits)
  with assms(2-4) show ?thesis
    unfolding u(2) parse_written_record [OF plain(1) u(1)] bindR_simps validateHead_def Let_def obj_of.simps shape
      head_of_def fget_canon_fields [OF plain(2)]
    by (simp add: head_fields_def eq_num_def is_hash_value_def)
qed

section \<open>Directories\<close>

definition committed_head :: "fields list list \<Rightarrow> journal_head option" where
  "committed_head segs =
     (if segs = [] then None
      else Some \<lparr>jh_seq = int (length (concat segs)), jh_eventHash = event_hash (last (concat segs)),
                 jh_segment = segmentName (int (length segs))\<rparr>)"

definition legal_entry :: "int \<Rightarrow> jstring \<times> jnode \<Rightarrow> bool" where
  "legal_entry m p \<longleftrightarrow>
     (case p of (name, node) \<Rightarrow>
        name = js ''crash-residue'' \<or> (name = HEAD_NAME \<and> (\<exists>t. node = JFile t)) \<or> staging_name name
        \<or> (\<exists>i. segment_index i \<and> name = summary_name (segmentName i))
        \<or> (\<exists>i. 1 \<le> i \<and> i \<le> m \<and> name = segmentName i \<and> (\<exists>t. node = JFile t)))"

text \<open>The names of a directory with segment files \<open>1\<close> to \<open>m\<close>.\<close>

definition legal_dir :: "int \<Rightarrow> jfiles \<Rightarrow> bool" where
  "legal_dir m d \<longleftrightarrow>
     0 \<le> m \<and> m < 1000000 \<and> distinct (map fst d) \<and> (\<forall>p\<in>set d. legal_entry m p)
     \<and> (\<forall>i. 1 \<le> i \<and> i \<le> m \<longrightarrow> segmentName i \<in> fst ` set d)"

text \<open>
  A directory whose committed prefix is \<open>segs\<close>: no \<open>HEAD\<close> when there is none, otherwise closed
  segments with their summaries, an active segment that starts with its committed records and
  a \<open>HEAD\<close> that names the last of them. \<open>m\<close> counts the segment files.
\<close>

definition closed_ok :: "(jstring \<Rightarrow> jstring) \<Rightarrow> journal_config \<Rightarrow> jfiles \<Rightarrow> int \<Rightarrow> fields list \<Rightarrow> bool" where
  "closed_ok sha c d i evs \<longleftrightarrow>
     evs \<noteq> [] \<and> map_of d (segmentName i) = Some (JFile (seg_text evs))
     \<and> (\<exists>t. map_of d (summary_name (segmentName i)) = Some (JFile t) \<and> summary_text sha c i evs t)"

definition active_ok :: "(jstring \<Rightarrow> jstring) \<Rightarrow> journal_config \<Rightarrow> jfiles \<Rightarrow> int \<Rightarrow> fields list \<Rightarrow> bool" where
  "active_ok sha c d i evs \<longleftrightarrow>
     evs \<noteq> [] \<and> (\<exists>junk. map_of d (segmentName i) = Some (JFile (seg_text evs @ junk)))
     \<and> (map_of d (summary_name (segmentName i)) = None
        \<or> (\<exists>t. map_of d (summary_name (segmentName i)) = Some (JFile t) \<and> summary_text sha c i evs t))"

definition journal_dir ::
  "(jstring \<Rightarrow> jstring) \<Rightarrow> journal_config \<Rightarrow> int \<Rightarrow> jfiles \<Rightarrow> fields list list \<Rightarrow> bool" where
  "journal_dir sha c m d segs \<longleftrightarrow>
     legal_dir m d \<and> int (length segs) \<le> m \<and> chain sha c 1 GENESIS_HASH (concat segs)
     \<and> (case committed_head segs of
          None \<Rightarrow> map_of d HEAD_NAME = None
        | Some h \<Rightarrow> (\<exists>t. map_of d HEAD_NAME = Some (JFile t) \<and> head_text c h t))
     \<and> (\<forall>i<length segs - 1. closed_ok sha c d (int i + 1) (segs ! i))
     \<and> (segs \<noteq> [] \<longrightarrow> active_ok sha c d (int (length segs)) (last segs))"

section \<open>The scan\<close>

definition is_segment :: "int \<Rightarrow> jstring \<times> jnode \<Rightarrow> bool" where
  "is_segment m p \<longleftrightarrow> (\<exists>i. 1 \<le> i \<and> i \<le> m \<and> fst p = segmentName i)"

lemma scan_entry_legal:
  assumes "legal_entry m p" "m < 1000000"
  shows "\<exists>s'. scan_entry s p = Inr s'
    \<and> en_indexes s' = en_indexes s @ (if is_segment m p then [segmentIndexOf (fst p)] else [])
    \<and> (en_head s' = (if fst p = HEAD_NAME then Some (case snd p of JFile t \<Rightarrow> t | JDir \<Rightarrow> []) else en_head s))"
proof -
  obtain name node where p: "p = (name, node)" by (cases p)
  have seg: "segment_index i" if "1 \<le> i" "i \<le> m" for i
    using that assms(2) by (simp add: segment_index_def)
  consider "name = js ''crash-residue''" | t where "name = HEAD_NAME" "node = JFile t" | "staging_name name"
    | i where "segment_index i" "name = summary_name (segmentName i)"
    | i t where "1 \<le> i" "i \<le> m" "name = segmentName i" "node = JFile t"
    using assms(1) by (auto simp: legal_entry_def p)
  then show ?thesis
  proof cases
    case 1
    then show ?thesis using segmentName_special(3) [THEN not_sym] special_names(2)
      by (auto simp: scan_entry_def p is_segment_def)
  next
    case (2 t)
    then show ?thesis using segmentName_special(1) [THEN not_sym] special_names
      by (auto simp: scan_entry_def p is_segment_def)
  next
    case 3
    with staging_other [OF 3] have "name \<noteq> segmentName i" if "1 \<le> i" "i \<le> m" for i using seg [OF that] by blast
    with staging_other [OF 3] show ?thesis by (auto simp: scan_entry_def p is_segment_def)
  next
    case (4 i)
    have "name \<noteq> segmentName k" if "1 \<le> k" "k \<le> m" for k
      using segment_not_summary [OF seg [OF that], of "segmentName i"] 4(2) by metis
    with 4 show ?thesis
      using summary_name_special [of i] not_staging(2) [of "segmentName i"] summary_name_parts [of "segmentName i"]
        segmentName_parts(2) [of i]
      by (auto simp: scan_entry_def p is_segment_def Let_def)
  next
    case (5 i t)
    have i: "segment_index i" by (rule seg [OF 5(1,2)])
    have "is_segment m p" using 5 by (auto simp: is_segment_def p)
    with 5 show ?thesis
      using segmentName_special [of i] not_staging(1) [OF i] not_summary [OF i] segmentName_parts(2) [OF i]
      by (simp add: scan_entry_def p Let_def)
  qed
qed

lemma scan_entries:
  assumes "\<forall>p\<in>set d. legal_entry m p" "m < 1000000"
  shows "\<exists>s'. foldR scan_entry s d = Inr s'
    \<and> en_indexes s' = en_indexes s @ map (segmentIndexOf \<circ> fst) (filter (is_segment m) d)
    \<and> (distinct (map fst d) \<longrightarrow>
        en_head s' = (case map_of d HEAD_NAME of None \<Rightarrow> en_head s
                      | Some node \<Rightarrow> Some (case node of JFile t \<Rightarrow> t | JDir \<Rightarrow> [])))"
  using assms(1)
proof (induction d arbitrary: s)
  case Nil
  then show ?case by simp
next
  case (Cons p d)
  from scan_entry_legal [OF _ assms(2), of p s] Cons.prems obtain s1 where s1: "scan_entry s p = Inr s1"
    "en_indexes s1 = en_indexes s @ (if is_segment m p then [segmentIndexOf (fst p)] else [])"
    "en_head s1 = (if fst p = HEAD_NAME then Some (case snd p of JFile t \<Rightarrow> t | JDir \<Rightarrow> []) else en_head s)"
    by auto
  from Cons.IH [of s1] Cons.prems obtain s2 where s2: "foldR scan_entry s1 d = Inr s2"
    "en_indexes s2 = en_indexes s1 @ map (segmentIndexOf \<circ> fst) (filter (is_segment m) d)"
    "distinct (map fst d) \<longrightarrow> en_head s2 = (case map_of d HEAD_NAME of None \<Rightarrow> en_head s1
        | Some node \<Rightarrow> Some (case node of JFile t \<Rightarrow> t | JDir \<Rightarrow> []))" by auto
  have "map_of d HEAD_NAME = None" if "fst p \<notin> set (map fst d)" "fst p = HEAD_NAME"
    using that by (simp add: map_of_eq_None_iff)
  with s1 s2 show ?case by (cases p) (auto split: option.splits)
qed

lemma indexes_sorted:
  assumes "legal_dir m d"
  shows "sort (map (segmentIndexOf \<circ> fst) (filter (is_segment m) d)) = [1..m]"
proof -
  let ?xs = "map (segmentIndexOf \<circ> fst) (filter (is_segment m) d)"
  have m: "segment_index i" if "1 \<le> i" "i \<le> m" for i
    using assms that by (simp add: legal_dir_def segment_index_def)
  have "set ?xs = {1..m}"
  proof (intro set_eqI iffI)
    fix i assume "i \<in> set ?xs"
    then show "i \<in> {1..m}" using segmentName_parts(3) m by (auto simp: is_segment_def)
  next
    fix i assume i: "i \<in> {1..m}"
    then obtain node where "(segmentName i, node) \<in> set d" using assms by (force simp: legal_dir_def)
    with i have "segmentIndexOf (segmentName i) \<in> set ?xs" by (force simp: is_segment_def)
    then show "i \<in> set ?xs" using segmentName_parts(3) m i by simp
  qed
  moreover have "distinct ?xs"
  proof -
    have "distinct (map fst (filter (is_segment m) d))"
      using assms by (simp add: legal_dir_def distinct_map_filter)
    moreover have "inj_on segmentIndexOf (fst ` set (filter (is_segment m) d))"
      by (rule inj_onI) (use segmentName_parts(3) m in \<open>auto simp: is_segment_def\<close>)
    ultimately show ?thesis by (simp add: distinct_map comp_inj_on)
  qed
  ultimately show ?thesis by (intro sorted_distinct_set_unique) simp_all
qed

lemma consecutive_upto: "consecutive [i..j]"
proof (induction i j rule: upto.induct)
  case (1 i j)
  show ?case
  proof (cases "i < j")
    case True
    then have "[i..j] = i # (i + 1) # [i + 1 + 1..j]" by (simp add: upto_rec1)
    moreover have "[i + 1..j] = (i + 1) # [i + 1 + 1..j]" using True by (simp add: upto_rec1)
    ultimately show ?thesis using 1 True by simp
  qed (cases "i = j", simp_all)
qed

definition parsed_of :: "fields list \<Rightarrow> jstring \<Rightarrow> parsed_segment" where
  "parsed_of evs junk = \<lparr>ps_events = evs, ps_committed = seg_text evs, ps_residue = junk\<rparr>"

fun parsed_segments :: "int \<Rightarrow> fields list list \<Rightarrow> parsed_segment dict" where
  "parsed_segments i [] = []"
| "parsed_segments i (evs # segs) = (segmentName i, parsed_of evs []) # parsed_segments (i + 1) segs"

lemma last_chain: "chain sha c n h evs \<Longrightarrow> evs \<noteq> [] \<Longrightarrow> event_seq (last evs) + 1 = n + int (length evs)"
proof (induction evs arbitrary: n h)
  case (Cons e evs)
  then show ?case
    using readable_facts(1) [of sha c n h e] Cons.IH [of "n + 1" "event_hash e"] by auto
qed simp

lemma closed_walk_ok:
  assumes "\<forall>i<length segs. closed_ok sha c d (b + int i) (segs ! i)" "chain sha c n h (concat segs)"
  shows "foldR (closed_segment sha c d) \<lparr>cw_parsed = P, cw_seq = n, cw_previousHash = h\<rparr> [b..b + int (length segs) - 1]
    = Inr \<lparr>cw_parsed = P @ parsed_segments b segs, cw_seq = n + int (length (concat segs)),
           cw_previousHash = chain_head h (concat segs)\<rparr>"
  using assms
proof (induction segs arbitrary: b n h P)
  case Nil
  then show ?case by simp
next
  case (Cons evs segs)
  have ev: "closed_ok sha c d b evs" using Cons.prems(1) [rule_format, of 0] by simp
  have ch: "chain sha c n h evs" "chain sha c (n + int (length evs)) (chain_head h evs) (concat segs)"
    using Cons.prems(2) by (simp_all add: chain_append)
  from ev obtain t where t: "map_of d (summary_name (segmentName b)) = Some (JFile t)" "summary_text sha c b evs t"
    "evs \<noteq> []" "map_of d (segmentName b) = Some (JFile (seg_text evs))" by (auto simp: closed_ok_def)
  have "expectSummary sha c d (segmentName b) (parsed_of evs []) = Inr ()"
    by (rule expectSummary_ok [OF t(1,2)]) (simp_all add: parsed_of_def)
  then have step: "closed_segment sha c d \<lparr>cw_parsed = P, cw_seq = n, cw_previousHash = h\<rparr> b
      = Inr \<lparr>cw_parsed = P @ [(segmentName b, parsed_of evs [])], cw_seq = n + int (length evs),
             cw_previousHash = chain_head h evs\<rparr>"
    using t(3,4) parse_records_closed [OF ch(1), of "([], [])"] last_chain [OF ch(1)]
    by (simp add: closed_segment_def readRegularFile_def parseSegment_def parsed_of_def chain_head_last)
  have rest: "\<forall>i<length segs. closed_ok sha c d (b + 1 + int i) (segs ! i)"
    using Cons.prems(1) by (metis (no_types, lifting) add.assoc add.commute length_Cons not_less_eq nth_Cons_Suc of_nat_Suc)
  have "[b..b + int (length (evs # segs)) - 1] = b # [b + 1..b + 1 + int (length segs) - 1]"
    by (simp add: upto_rec1 add.commute)
  then show ?case using Cons.IH [OF rest ch(2)] step by (simp add: algebra_simps)
qed

lemma map_of_parsed_segments:
  assumes "1 \<le> b" "b + int (length segs) \<le> 1000000" "segment_index i"
  shows "map_of (parsed_segments b segs) (segmentName i)
    = (if b \<le> i \<and> i < b + int (length segs) then Some (parsed_of (segs ! nat (i - b)) []) else None)"
  using assms(1,2)
proof (induction segs arbitrary: b)
  case Nil
  then show ?case by simp
next
  case (Cons evs segs)
  have "segment_index b" using Cons.prems by (simp add: segment_index_def)
  then have eq: "segmentName i = segmentName b \<longleftrightarrow> b = i" "segmentName b = segmentName i \<longleftrightarrow> b = i"
    using assms(3) by (auto simp: segmentName_inject)
  have "nat (i - b) = Suc (nat (i - (b + 1)))" if "b < i" using that by linarith
  then show ?case using Cons.IH [of "b + 1"] Cons.prems by (auto simp: eq)
qed

section \<open>Reading\<close>

text \<open>The layout of such a directory: the head, and the parsed segments up to the active one.\<close>

definition parsed_all :: "fields list list \<Rightarrow> jstring \<Rightarrow> parsed_segment dict" where
  "parsed_all segs junk =
     parsed_segments 1 (butlast segs) @ [(segmentName (int (length segs)), parsed_of (last segs) junk)]"

lemma active_segment_ok:
  assumes "active_ok sha c d i evs" "chain sha c n h evs"
    and "jh_segment head = segmentName i" "jh_seq head = event_seq (last evs)" "jh_eventHash head = event_hash (last evs)"
    and "cw_seq w = n" "cw_previousHash w = h"
  shows "\<exists>junk. map_of d (segmentName i) = Some (JFile (seg_text evs @ junk))
    \<and> active_segment sha c d head w = Inr (parsed_of evs junk)"
proof -
  from assms(1) obtain junk where a: "evs \<noteq> []" "map_of d (segmentName i) = Some (JFile (seg_text evs @ junk))"
    by (auto simp: active_ok_def)
  obtain es e where ev: "evs = es @ [e]" using a(1) by (cases evs rule: rev_cases) auto
  have p: "parseSegment sha c (Some head) n h (seg_text evs @ junk) = Inr (parsed_of evs junk)"
    using parse_records_active [OF assms(2) [unfolded ev], of head "([], [])" junk] assms(4,5)
    by (simp add: ev parseSegment_def parsed_of_def)
  have "expectSummary sha c d (segmentName i) (parsed_of evs junk) = Inr ()"
    if "map_of d (summary_name (segmentName i)) \<noteq> None"
  proof -
    from that assms(1) obtain t where "map_of d (summary_name (segmentName i)) = Some (JFile t)" "summary_text sha c i evs t"
      by (auto simp: active_ok_def)
    then show ?thesis by (rule expectSummary_ok) (simp_all add: parsed_of_def)
  qed
  with a p show ?thesis by (auto simp: active_segment_def readRegularFile_def assms pathExists_def)
qed

lemma concat_butlast: "segs \<noteq> [] \<Longrightarrow> concat segs = concat (butlast segs) @ last segs"
  by (cases segs rule: rev_cases) simp_all

lemma scan_committed_ok:
  assumes "journal_dir sha c m d segs" "segs \<noteq> []" "sort (en_indexes s) = [1..m]"
    and "map_of d HEAD_NAME = Some (JFile t)"
  shows "\<exists>l junk. scan_committed sha c d s t = Inr l \<and> jl_head l = committed_head segs
    \<and> jl_parsed l = parsed_all segs junk
    \<and> map_of d (segmentName (int (length segs))) = Some (JFile (seg_text (last segs) @ junk))
    \<and> jl_residue l = \<lparr>rr_strayFiles = en_stray s, rr_trailingBytesInActive = utf8_length junk,
                      rr_laterSegments = map segmentName [int (length segs) + 1..m]\<rparr>"
proof -
  define k where "k = int (length segs)"
  have k: "1 \<le> k" "k \<le> m" "m < 1000000"
    using assms(1,2) by (auto simp: k_def journal_dir_def legal_dir_def Suc_le_eq)
  then have idx: "segment_index k" by (simp add: segment_index_def)
  have ch: "chain sha c 1 GENESIS_HASH (concat segs)" and act: "active_ok sha c d k (last segs)"
    and closed: "\<forall>i<length (butlast segs). closed_ok sha c d (1 + int i) (butlast segs ! i)"
    using assms(1,2) by (auto simp: journal_dir_def k_def nth_butlast algebra_simps)
  have split: "concat segs = concat (butlast segs) @ last segs" by (rule concat_butlast [OF assms(2)])
  have ch2: "chain sha c 1 GENESIS_HASH (concat (butlast segs))"
    "chain sha c (1 + int (length (concat (butlast segs)))) (chain_head GENESIS_HASH (concat (butlast segs))) (last segs)"
    using ch by (simp_all only: split chain_append)
  have ne: "last segs \<noteq> []" using act by (simp add: active_ok_def)
  obtain h where h: "committed_head segs = Some h" "jh_segment h = segmentName k"
    "jh_seq h = int (length (concat segs))" "jh_eventHash h = event_hash (last (concat segs))"
    by (rule that [of "the (committed_head segs)"]) (use assms(2) in \<open>simp_all add: committed_head_def k_def\<close>)
  have last_eq: "last (concat segs) = last (last segs)" using ne by (simp add: split)
  have lc: "concat segs \<noteq> []" using ne by (simp add: split)
  have seq: "jh_seq h = event_seq (last (concat segs))"
    using last_chain [OF ch lc] h(3) by simp
  have hash: "sha256_value (jh_eventHash h)"
  proof -
    obtain es e where "concat segs = es @ [e]" using lc by (cases "concat segs" rule: rev_cases) auto
    with ch h(4) show ?thesis using readable_facts(2) by (auto simp: chain_append)
  qed
  have "head_text c h t" using assms(1,4) h(1) by (auto simp: journal_dir_def)
  then have read: "bindR (parseCanonicalRecord t) (validateHead c) = Inr h"
  proof (rule head_read)
    have "0 < length (concat segs)" using lc by blast
    then show "1 \<le> jh_seq h" using h(3) by linarith
  qed (use hash h(2) segmentName_parts(2) [OF idx] in simp_all)
  then obtain raw where raw: "parseCanonicalRecord t = Inr raw" "validateHead c raw = Inr h"
    by (auto simp: bindR_Inr_iff)
  let ?w = "\<lparr>cw_parsed = parsed_segments 1 (butlast segs), cw_seq = 1 + int (length (concat (butlast segs))),
            cw_previousHash = chain_head GENESIS_HASH (concat (butlast segs))\<rparr>"
  have walk: "foldR (closed_segment sha c d) \<lparr>cw_parsed = [], cw_seq = 1, cw_previousHash = GENESIS_HASH\<rparr> [1..k - 1]
      = Inr ?w"
    using closed_walk_ok [OF closed ch2(1), of "[]"] assms(2)
    by (cases segs rule: rev_cases) (simp_all add: k_def)
  have "jh_seq h = event_seq (last (last segs))" "jh_eventHash h = event_hash (last (last segs))"
    using seq h(4) last_eq by simp_all
  from active_segment_ok [OF act ch2(2) h(2) this, of ?w] obtain junk where
    junk: "map_of d (segmentName k) = Some (JFile (seg_text (last segs) @ junk))"
      "active_segment sha c d h ?w = Inr (parsed_of (last segs) junk)" by auto
  have pick: "1 \<le> k \<and> k \<le> int (length [1..m]) \<and> [1..m] ! nat (k - 1) = k" using k by simp
  have later: "drop (nat k) [1..m] = [k + 1..m]"
  proof -
    have "[1..m] = [1..k] @ [k + 1..m]" by (rule upto_split2) (use k in simp_all)
    moreover have "length [1..k] = nat k" by simp
    ultimately show ?thesis by (metis append_eq_conv_conj)
  qed
  have "scan_committed sha c d s t = Inr \<lparr>jl_head = Some h,
      jl_parsed = parsed_segments 1 (butlast segs) @ [(segmentName k, parsed_of (last segs) junk)],
      jl_residue = \<lparr>rr_strayFiles = en_stray s, rr_trailingBytesInActive = utf8_length junk,
                    rr_laterSegments = map segmentName [k + 1..m]\<rparr>\<rparr>"
    unfolding scan_committed_def raw bindR_simps Let_def assms(3) h(2) segmentName_parts(3) [OF idx] ensure_def
      if_P [OF pick] walk junk(2) later
    by (simp add: parsed_of_def)
  with h(1) junk(1) show ?thesis by (auto simp: parsed_all_def k_def)
qed

lemma collect_parsed:
  assumes "segs \<noteq> []" "int (length segs) < 1000000"
  shows "collect_events (parsed_all segs junk) [1..int (length segs)] = concat segs"
proof -
  have lookup: "map_of (parsed_all segs junk) (segmentName i)
      = Some (parsed_of (segs ! nat (i - 1)) (if i = int (length segs) then junk else []))"
    if "1 \<le> i" "i \<le> int (length segs)" for i
  proof -
    have idx: "segment_index i" "segment_index (int (length segs))"
      using that assms by (auto simp: segment_index_def)
    have "map_of (parsed_segments 1 (butlast segs)) (segmentName i)
      = (if i < int (length segs) then Some (parsed_of (butlast segs ! nat (i - 1)) []) else None)"
      using map_of_parsed_segments [of 1 "butlast segs" i] that assms idx(1) by auto
    with that assms(1) show ?thesis
      by (auto simp: parsed_all_def map_add_def segmentName_inject idx nth_butlast last_conv_nth nat_diff_distrib
          split: option.splits)
  qed
  have "collect_events (parsed_all segs junk) [int b + 1..int (length segs)] = concat (drop b segs)"
    if "b \<le> length segs" for b
    using that
  proof (induction "length segs - b" arbitrary: b)
    case 0
    then show ?case by simp
  next
    case (Suc n)
    then have b: "b < length segs" by simp
    have "[int b + 1..int (length segs)] = (int b + 1) # [int (Suc b) + 1..int (length segs)]"
      using b by (simp add: upto_rec1 add.commute)
    moreover have "concat (drop b segs) = segs ! b @ concat (drop (Suc b) segs)"
      using b by (simp flip: Cons_nth_drop_Suc)
    moreover have "collect_events (parsed_all segs junk) [int (Suc b) + 1..int (length segs)] = concat (drop (Suc b) segs)"
      using Suc b by (intro Suc.hyps(1)) auto
    ultimately show ?case using lookup [of "int b + 1"] b by (simp add: parsed_of_def)
  qed
  from this [of 0] show ?thesis by simp
qed

text \<open>The scan of a journal directory, and what a reader gets.\<close>

lemma scan_journal_dir:
  assumes "journal_dir sha c m d segs"
  shows "\<exists>l stray. scanJournal sha c (Some d) = Inr l \<and> jl_head l = committed_head segs
    \<and> rr_strayFiles (jl_residue l) = stray \<and> rr_laterSegments (jl_residue l) = map segmentName [int (length segs) + 1..m]
    \<and> (if segs = [] then jl_parsed l = [] \<and> rr_trailingBytesInActive (jl_residue l) = 0
       else (\<exists>junk. jl_parsed l = parsed_all segs junk \<and> rr_trailingBytesInActive (jl_residue l) = utf8_length junk
          \<and> map_of d (segmentName (int (length segs))) = Some (JFile (seg_text (last segs) @ junk))))"
proof -
  have legal: "legal_dir m d" using assms by (simp add: journal_dir_def)
  obtain s where s: "foldR scan_entry \<lparr>en_indexes = [], en_stray = [], en_head = None\<rparr> d = Inr s"
    "en_indexes s = map (segmentIndexOf \<circ> fst) (filter (is_segment m) d)"
    "en_head s = (case map_of d HEAD_NAME of None \<Rightarrow> None
                  | Some node \<Rightarrow> Some (case node of JFile t \<Rightarrow> t | JDir \<Rightarrow> []))"
    using scan_entries [of d m "\<lparr>en_indexes = [], en_stray = [], en_head = None\<rparr>"] legal
    by (auto simp: legal_dir_def cong: option.case_cong)
  have sorted: "sort (en_indexes s) = [1..m]" unfolding s(2) by (rule indexes_sorted [OF legal])
  have first: "[1..m] = [] \<or> hd [1..m] = 1" by (cases "1 \<le> m") (simp_all add: upto_rec1)
  show ?thesis
  proof (cases "segs = []")
    case True
    then have "map_of d HEAD_NAME = None" using assms by (simp add: journal_dir_def committed_head_def)
    with s sorted first True show ?thesis
      by (simp add: scanJournal_def consecutive_upto committed_head_def)
  next
    case False
    then obtain h t where t: "committed_head segs = Some h" "map_of d HEAD_NAME = Some (JFile t)"
      using assms by (auto simp: journal_dir_def committed_head_def)
    from scan_committed_ok [OF assms False sorted t(2)] obtain l junk where
      "scan_committed sha c d s t = Inr l" "jl_head l = committed_head segs" "jl_parsed l = parsed_all segs junk"
      "map_of d (segmentName (int (length segs))) = Some (JFile (seg_text (last segs) @ junk))"
      "jl_residue l = \<lparr>rr_strayFiles = en_stray s, rr_trailingBytesInActive = utf8_length junk,
                      rr_laterSegments = map segmentName [int (length segs) + 1..m]\<rparr>" by blast
    with s(1,3) t sorted first False show ?thesis
      by (auto simp: scanJournal_def consecutive_upto)
  qed
qed

lemma read_journal_dir:
  assumes "journal_dir sha c m d segs"
  shows "\<exists>res. readJournal sha c (Some d) = Inr res \<and> rd_events res = concat segs \<and> rd_head res = committed_head segs"
proof -
  from scan_journal_dir [OF assms] obtain l where l: "scanJournal sha c (Some d) = Inr l" "jl_head l = committed_head segs"
    "segs \<noteq> [] \<Longrightarrow> \<exists>junk. jl_parsed l = parsed_all segs junk" by (auto split: if_splits)
  show ?thesis
  proof (cases "segs = []")
    case True
    with l show ?thesis by (simp add: readJournal_def committed_head_def)
  next
    case False
    have k: "int (length segs) < 1000000" "1 \<le> int (length segs)"
      using assms False by (auto simp: journal_dir_def legal_dir_def Suc_le_eq)
    then have "segmentIndexOf (segmentName (int (length segs))) = int (length segs)"
      by (intro segmentName_parts(3)) (simp add: segment_index_def)
    with l False collect_parsed [OF False k(1)] show ?thesis
      by (auto simp: readJournal_def committed_head_def)
  qed
qed

end
