(* ===== verification/JournalWrite.thy ===== *)
theory JournalWrite
  imports JournalRead
begin

text \<open>
  The effects of an append on a journal directory: every state it passes through before the new
  \<open>HEAD\<close> is in place has the old committed prefix, and the last one has the new prefix.
\<close>

section \<open>Bytes\<close>

lemma utf8_length_nonneg: "0 \<le> utf8_length t"
  by (induction t rule: utf8_length.induct) auto

lemma utf8_length_pos: "t \<noteq> [] \<Longrightarrow> 0 < utf8_length t"
  using utf8_length_nonneg by (cases t rule: utf8_length.cases) (auto simp: add_pos_nonneg)

text \<open>A text that does not end in the first half of a pair.\<close>

definition whole :: "jstring \<Rightarrow> bool" where
  "whole t \<longleftrightarrow> t = [] \<or> \<not> is_high (last t)"

lemma whole_line [simp]: "whole (a @ [10])" "whole []" "whole (a @ b @ [10])"
  by (simp_all add: whole_def is_high_def)

lemma whole_seg_text [simp]: "whole (seg_text evs)"
  by (cases evs rule: rev_cases) simp_all

lemma utf8_length_append: "whole a \<Longrightarrow> utf8_length (a @ b) = utf8_length a + utf8_length b"
proof (induction a rule: utf8_length.induct)
  case (2 u)
  then show ?case by (cases b) (auto simp: whole_def)
next
  case (3 u v us)
  then show ?case by (auto simp: whole_def split: if_splits)
qed simp

lemma byte_split_zero [simp]: "byte_split n [] = ([], [])"
  by (cases "n \<le> 0") (simp_all add: byte_split.simps)

lemma byte_split_exact: "whole a \<Longrightarrow> byte_split (utf8_length a) (a @ b) = (a, b)"
proof (induction a rule: utf8_length.induct)
  case 1
  then show ?case by (simp add: byte_split.simps)
next
  case (2 u)
  then have h: "\<not> is_high u" by (simp add: whole_def)
  have p: "0 < utf8_length [u]" by (rule utf8_length_pos) simp
  have "byte_split (utf8_length [u]) (u # b) = ([u], b)"
    by (subst byte_split.simps(3) [OF p]) (use h in \<open>auto split: list.splits simp: byte_split.simps(1)\<close>)
  then show ?case by simp
next
  case (3 u v us)
  have p: "0 < utf8_length (u # v # us)" by (rule utf8_length_pos) simp
  show ?case
  proof (cases "is_high u \<and> is_low v")
    case True
    have "whole us" using 3(3) by (cases us) (simp_all add: whole_def)
    with True have "byte_split (utf8_length us) (us @ b) = (us, b)" by (intro 3(1))
    then show ?thesis using True p by (simp add: byte_split.simps(3))
  next
    case False
    with 3 have "byte_split (utf8_length (v # us)) (v # us @ b) = (v # us, b)" by (auto simp: whole_def)
    moreover have "utf8_length (u # v # us) - utf8_length [u] = utf8_length (v # us)" using False by auto
    moreover have "byte_split (utf8_length (u # v # us)) (u # v # us @ b)
        = (case byte_split (utf8_length (u # v # us) - utf8_length [u]) (v # us @ b) of (a, b) \<Rightarrow> (u # a, b))"
      by (subst byte_split.simps(3) [OF p]) (use False in \<open>auto simp del: utf8_length.simps\<close>)
    ultimately show ?thesis by (simp del: utf8_length.simps)
  qed
qed

section \<open>Plans\<close>

text \<open>Every state in which a list of effects can stop has \<open>P\<close>.\<close>

fun safe_plan :: "(jfiles \<Rightarrow> bool) \<Rightarrow> effect list \<Rightarrow> jfiles \<Rightarrow> bool" where
  "safe_plan P [] d = True"
| "safe_plan P (e # es) d = ((\<forall>k. P (torn_effect k e d)) \<and> safe_plan P es (apply_effect e d))"

lemma safe_plan_append:
  "safe_plan P (xs @ ys) d \<longleftrightarrow> safe_plan P xs d \<and> safe_plan P ys (fold apply_effect xs d)"
  by (induction xs arbitrary: d) auto

lemma safe_plan_nth:
  "safe_plan P es d \<Longrightarrow> n < length es \<Longrightarrow> P (torn_effect k (es ! n) (fold apply_effect (take n es) d))"
proof (induction es arbitrary: d n)
  case (Cons e es)
  then show ?case by (cases n) auto
qed simp

section \<open>Directories that differ outside the committed prefix\<close>

lemma legal_dir_map_of:
  "legal_dir m d \<longleftrightarrow> 0 \<le> m \<and> m < 1000000 \<and> distinct (map fst d)
     \<and> (\<forall>name node. map_of d name = Some node \<longrightarrow> legal_entry m (name, node))
     \<and> (\<forall>i. 1 \<le> i \<and> i \<le> m \<longrightarrow> map_of d (segmentName i) \<noteq> None)"
proof -
  have "(\<forall>p\<in>set d. legal_entry m p) \<longleftrightarrow> (\<forall>name node. map_of d name = Some node \<longrightarrow> legal_entry m (name, node))"
    if "distinct (map fst d)" using that by (auto simp: map_of_eq_Some_iff)
  then show ?thesis by (auto simp: legal_dir_def map_of_eq_None_iff)
qed

lemma legal_entry_mono: "legal_entry m p \<Longrightarrow> m \<le> m' \<Longrightarrow> legal_entry m' p"
  by (fastforce simp: legal_entry_def split: prod.splits)

lemma legal_update:
  assumes "legal_dir m d" "legal_entry m (name, node)"
  shows "legal_dir m (AList.update name node d)"
  using assms by (auto simp: legal_dir_map_of distinct_update)

lemma legal_delete:
  assumes "legal_dir m d" "staging_name name"
  shows "legal_dir m (AList.delete name d)"
proof -
  have "segmentName i \<noteq> name" if "1 \<le> i" "i \<le> m" for i
    using staging_other(4) [OF assms(2), of i] that assms(1) by (auto simp: legal_dir_def segment_index_def)
  then show ?thesis
    using assms(1) by (auto simp: legal_dir_map_of distinct_delete delete_conv' restrict_map_def split: if_splits)
qed

lemma legal_segment_entry: "1 \<le> i \<Longrightarrow> i \<le> m \<Longrightarrow> legal_entry m (segmentName i, JFile t)"
  unfolding legal_entry_def prod.case by blast

lemma legal_segment:
  assumes "legal_dir m d" "1 \<le> i" "i \<le> m + 1" "i < 1000000"
  shows "legal_dir (max m i) (AList.update (segmentName i) (JFile t) d)"
proof -
  let ?d = "AList.update (segmentName i) (JFile t) d"
  have new: "legal_entry (max m i) (segmentName i, JFile t)" using assms(2) by (intro legal_segment_entry) auto
  have old: "legal_entry (max m i) (name, node)" if "map_of d name = Some node" for name node
  proof -
    have "legal_entry m (name, node)" using assms(1) that unfolding legal_dir_map_of by blast
    then show ?thesis by (rule legal_entry_mono) simp
  qed
  have "map_of d (segmentName j) \<noteq> None" if "1 \<le> j" "j \<le> max m i" "j \<noteq> i" for j
  proof -
    have "j \<le> m" using assms(3) that by linarith
    with that(1) assms(1) show ?thesis unfolding legal_dir_map_of by blast
  qed
  then have present: "map_of ?d (segmentName j) \<noteq> None" if "1 \<le> j" "j \<le> max m i" for j
    using that by (cases "segmentName j = segmentName i") auto
  have entries: "legal_entry (max m i) (name, node)" if "map_of ?d name = Some node" for name node
    using that new old [of name node] by (cases "name = segmentName i") simp_all
  have "0 \<le> max m i \<and> max m i < 1000000 \<and> distinct (map fst ?d)"
    using assms(1,4) by (auto simp: legal_dir_def distinct_update max_def)
  with present entries show ?thesis unfolding legal_dir_map_of by blast
qed

definition committed_names :: "int \<Rightarrow> jstring set" where
  "committed_names k =
     insert HEAD_NAME (segmentName ` {1..k} \<union> (\<lambda>i. summary_name (segmentName i)) ` {1..k})"

lemma closed_ok_cong:
  "map_of d' (segmentName i) = map_of d (segmentName i) \<Longrightarrow>
   map_of d' (summary_name (segmentName i)) = map_of d (summary_name (segmentName i)) \<Longrightarrow>
   closed_ok sha c d' i evs = closed_ok sha c d i evs"
  by (simp add: closed_ok_def)

lemma active_ok_cong:
  "map_of d' (segmentName i) = map_of d (segmentName i) \<Longrightarrow>
   map_of d' (summary_name (segmentName i)) = map_of d (summary_name (segmentName i)) \<Longrightarrow>
   active_ok sha c d' i evs = active_ok sha c d i evs"
  by (simp add: active_ok_def)

lemma journal_dir_cong:
  assumes "journal_dir sha c m d segs" "legal_dir m' d'" "m \<le> m'"
    and "\<And>name. name \<in> committed_names (int (length segs)) \<Longrightarrow> map_of d' name = map_of d name"
  shows "journal_dir sha c m' d' segs"
proof -
  have head: "map_of d' HEAD_NAME = map_of d HEAD_NAME" by (rule assms(4)) (simp add: committed_names_def)
  have seg: "map_of d' (segmentName i) = map_of d (segmentName i)"
    "map_of d' (summary_name (segmentName i)) = map_of d (summary_name (segmentName i))"
    if "1 \<le> i" "i \<le> int (length segs)" for i
    using that by (auto intro!: assms(4) simp: committed_names_def)
  have "closed_ok sha c d' (int i + 1) (segs ! i)" if "i < length segs - 1" for i
    using assms(1) that seg [of "int i + 1"] closed_ok_cong [of d' "int i + 1" d]
    by (auto simp: journal_dir_def)
  moreover have "active_ok sha c d' (int (length segs)) (last segs)" if "segs \<noteq> []"
    using assms(1) that seg [of "int (length segs)"] active_ok_cong [of d' "int (length segs)" d]
    by (auto simp: journal_dir_def Suc_le_eq)
  ultimately show ?thesis using assms(1-3) head by (auto simp: journal_dir_def split: option.splits)
qed

lemma segments_bound: "journal_dir sha c m d segs \<Longrightarrow> int (length segs) \<le> m \<and> m < 1000000 \<and> 0 \<le> m"
  by (auto simp: journal_dir_def legal_dir_def)

lemma staging_not_committed:
  assumes "staging_name s" "k < 1000000"
  shows "s \<notin> committed_names k"
proof -
  have "s \<notin> segmentName ` {1..k}"
  proof
    assume "s \<in> segmentName ` {1..k}"
    then obtain i where "s = segmentName i" "segment_index i" using assms(2) by (auto simp: segment_index_def)
    with staging_other(4) [OF assms(1), of i] show False by simp
  qed
  moreover have "s \<notin> (\<lambda>i. summary_name (segmentName i)) ` {1..k}"
    using staging_other(3) [OF assms(1)] by blast
  ultimately show ?thesis using staging_other(1) [OF assms(1)] by (simp add: committed_names_def)
qed

lemma legal_staging: "staging_name s \<Longrightarrow> legal_entry m (s, node)"
  by (simp add: legal_entry_def)

lemma journal_dir_staging:
  assumes "journal_dir sha c m d segs" "staging_name s"
  shows "journal_dir sha c m (AList.update s node d) segs" "journal_dir sha c m (AList.delete s d) segs"
proof -
  have s: "s \<notin> committed_names (int (length segs))"
    using segments_bound [OF assms(1)] by (intro staging_not_committed [OF assms(2)]) linarith
  have l: "legal_dir m d" using assms(1) by (simp add: journal_dir_def)
  show "journal_dir sha c m (AList.update s node d) segs"
    by (rule journal_dir_cong [OF assms(1) legal_update [OF l legal_staging [OF assms(2)]]]) (use s in auto)
  show "journal_dir sha c m (AList.delete s d) segs"
    by (rule journal_dir_cong [OF assms(1) legal_delete [OF l assms(2)]])
      (use s in \<open>auto simp: delete_conv' restrict_map_def\<close>)
qed

lemma journal_dir_later:
  assumes "journal_dir sha c m d segs" "int (length segs) < i" "i \<le> m + 1" "i < 1000000"
  shows "journal_dir sha c (max m i) (AList.update (segmentName i) (JFile t) d) segs"
proof -
  have l: "legal_dir m d" using assms(1) by (simp add: journal_dir_def)
  have i: "1 \<le> i" "segment_index i" using assms(2,4) by (auto simp: segment_index_def)
  have "segmentName i \<notin> committed_names (int (length segs))"
    using segmentName_special(1) segment_not_summary [OF i(2)] assms(2,4) i
    by (auto simp: committed_names_def segmentName_inject segment_index_def)
  then show ?thesis
    by (intro journal_dir_cong [OF assms(1) legal_segment [OF l i(1) assms(3,4)]]) auto
qed

lemma journal_dir_active:
  assumes "journal_dir sha c m d segs" "segs \<noteq> []"
  shows "journal_dir sha c m (AList.update (segmentName (int (length segs))) (JFile (seg_text (last segs) @ x)) d) segs"
    (is "journal_dir sha c m ?d segs")
proof -
  let ?k = "int (length segs)"
  have k: "1 \<le> ?k" "?k \<le> m" "m < 1000000" using assms segments_bound [OF assms(1)] by (auto simp: Suc_le_eq)
  have l: "legal_dir m d" using assms(1) by (simp add: journal_dir_def)
  have idx: "segment_index ?k" using k by (simp add: segment_index_def)
  have other: "map_of ?d (segmentName i) = map_of d (segmentName i)" if "1 \<le> i" "i < ?k" for i
    using that k segmentName_inject [OF _ idx, of i] by (auto simp: segment_index_def)
  have sums: "map_of ?d (summary_name s) = map_of d (summary_name s)" "map_of ?d HEAD_NAME = map_of d HEAD_NAME" for s
    using segment_not_summary [OF idx, of s] segmentName_special(1) [of ?k] by auto
  have "legal_dir m ?d"
    by (rule legal_update [OF l]) (rule legal_segment_entry [OF k(1,2)])
  moreover have "closed_ok sha c ?d (int i + 1) (segs ! i)" if "i < length segs - 1" for i
    using assms(1) that other [of "int i + 1"] sums closed_ok_cong [of ?d "int i + 1" d]
    by (auto simp: journal_dir_def)
  moreover have "active_ok sha c ?d ?k (last segs)"
    using assms sums by (auto simp: journal_dir_def active_ok_def)
  ultimately show ?thesis using assms(1) sums by (auto simp: journal_dir_def split: option.splits)
qed

lemma journal_dir_summary:
  assumes "journal_dir sha c m d segs" "segs \<noteq> []" "summary_text sha c (int (length segs)) (last segs) t"
  shows "journal_dir sha c m (AList.update (summary_name (segmentName (int (length segs)))) (JFile t) d) segs"
    (is "journal_dir sha c m ?d segs")
proof -
  let ?k = "int (length segs)"
  have k: "1 \<le> ?k" "?k \<le> m" "m < 1000000" using assms(1,2) segments_bound [OF assms(1)] by (auto simp: Suc_le_eq)
  have l: "legal_dir m d" using assms(1) by (simp add: journal_dir_def)
  have idx: "segment_index ?k" using k by (simp add: segment_index_def)
  have segn: "map_of ?d (segmentName i) = map_of d (segmentName i)" if "1 \<le> i" "i \<le> ?k" for i
    using that k segment_not_summary [of i] by (auto simp: segment_index_def)
  have sums: "map_of ?d (summary_name (segmentName i)) = map_of d (summary_name (segmentName i))" if "1 \<le> i" "i < ?k" for i
    using that k segmentName_inject [OF _ idx, of i] by (auto simp: segment_index_def)
  have head: "map_of ?d HEAD_NAME = map_of d HEAD_NAME" using summary_name_special(1) [of ?k] by auto
  have "legal_dir m ?d"
    by (rule legal_update [OF l]) (use idx in \<open>auto simp: legal_entry_def\<close>)
  moreover have "closed_ok sha c ?d (int i + 1) (segs ! i)" if "i < length segs - 1" for i
    using assms(1) that segn [of "int i + 1"] sums [of "int i + 1"] closed_ok_cong [of ?d "int i + 1" d]
    by (auto simp: journal_dir_def)
  moreover have "active_ok sha c ?d ?k (last segs)"
    using assms segn [of ?k] k by (auto simp: journal_dir_def active_ok_def)
  ultimately show ?thesis using assms(1) head by (auto simp: journal_dir_def split: option.splits)
qed

section \<open>The event of a draft\<close>

definition event_key :: "fields \<Rightarrow> int \<times> jstring" where
  "event_key e = (event_seq e, event_hash e)"

definition good_draft :: "jstring \<Rightarrow> event_draft \<Rightarrow> bool" where
  "good_draft fresh d \<longleftrightarrow> plain_keys (JObj (ed_payload d)) \<and> ed_eventId d \<noteq> Some [] \<and> fresh \<noteq> []"

lemma draft_keys:
  "map fst (event_envelope fresh j d @ [(js ''eventHash'', v)]) = map js
     [''schemaVersion'', ''runId'', ''seq'', ''eventId'', ''occurredAt'', ''type'', ''causationId'',
      ''correlationId'', ''actor'', ''payload'', ''previousHash'', ''eventHash'']"
  by (simp add: event_envelope_def)

lemma draft_field_set: "field_set (event_envelope fresh j d @ [(js ''eventHash'', v)]) = EVENT_FIELDS"
  unfolding field_set_def draft_keys EVENT_FIELDS_def by code_simp

lemma draft_fget:
  fixes fresh j d v
  defines "e \<equiv> event_envelope fresh j d @ [(js ''eventHash'', v)]"
  shows "fget e (js ''schemaVersion'') = JNum 1" "fget e (js ''runId'') = JStr (jc_runId (jw_config j))"
    "fget e (js ''seq'') = JNum (jw_lastSeq j + 1)"
    "fget e (js ''eventId'') = JStr (case ed_eventId d of None \<Rightarrow> fresh | Some i \<Rightarrow> i)"
    "fget e (js ''occurredAt'') = JStr (ed_occurredAt d)" "fget e (js ''type'') = JStr (ed_type d)"
    "fget e (js ''causationId'') = opt_string (ed_causationId d)"
    "fget e (js ''correlationId'') = opt_string (ed_correlationId d)" "fget e (js ''actor'') = JStr (ed_actor d)"
    "fget e (js ''payload'') = JObj (ed_payload d)" "fget e (js ''previousHash'') = JStr (jw_lastHash j)"
    "fget e (js ''eventHash'') = v"
  by (simp_all add: e_def event_envelope_def)

lemma draft_event_readable:
  assumes "draft_event sha fresh j d = Inr e" "good_draft fresh d" "\<forall>t. hex64 (sha t)"
    and "canonicalJson (JObj e) = Inr t"
  shows "readable sha (jw_config j) (jw_lastSeq j + 1) (jw_lastHash j) (canon_fields e)"
    "line_of (canon_fields e) = t" "event_key (canon_fields e) = event_key e" "event_seq e = jw_lastSeq j + 1"
proof -
  from assms(1) obtain h where v: "validateDraft d = Inr ()" and h: "hashEvent sha (event_envelope fresh j d) = Inr h"
    and e: "e = event_envelope fresh j d @ [(js ''eventHash'', JStr h)]"
    by (auto simp: draft_event_def bindR_Inr_iff)
  have dist: "distinct (map fst e)" unfolding e draft_keys by simp
  have plain: "plain_keys (JObj e)"
    using dist assms(2) by (auto simp: e event_envelope_def good_draft_def opt_string_def split: option.splits)
  show line: "line_of (canon_fields e) = t"
    using assms(4) by (simp add: line_of_def canonicalJson_canon_fields)
  note get = fget_canon_fields [OF dist]
  show "event_seq e = jw_lastSeq j + 1" by (simp add: event_seq_def e draft_fget)
  show "event_key (canon_fields e) = event_key e"
    by (simp add: event_key_def event_seq_def event_hash_def get) (simp add: e draft_fget)
  have parse: "parseCanonicalJson t = Inr (JObj (canon_fields e))"
    using parse_of_serialized [OF plain assms(4)] by (simp only: canon_JObj)
  obtain u where u: "h = js ''sha256:'' @ sha u" using h by (auto simp: hashEvent_def bindR_Inr_iff)
  have hv: "is_hash_value (JStr h)"
    using assms(3) by (simp add: is_hash_value_def u sha256_value_def starts_with_def)
  have env: "omit_field (js ''eventHash'') e = event_envelope fresh j d"
    by (simp add: e omit_field_def event_envelope_def)
  have hash: "hashEvent sha (omit_field (js ''eventHash'') (canon_fields e)) = Inr h"
    using h by (simp add: omit_field_canon [OF dist] env hashEvent_def canonicalJson_canon_fields)
  have id: "(case ed_eventId d of None \<Rightarrow> fresh | Some i \<Rightarrow> i) \<noteq> []"
    using assms(2) by (auto simp: good_draft_def split: option.splits)
  have opts: "null_or_nonempty (opt_string (ed_causationId d))" "null_or_nonempty (opt_string (ed_correlationId d))"
    "canon (opt_string (ed_causationId d)) = opt_string (ed_causationId d)"
    "canon (opt_string (ed_correlationId d)) = opt_string (ed_correlationId d)"
    using v by (auto simp: validateDraft_def ensure_Inr_iff null_or_nonempty_def opt_string_def split: option.splits)
  have draft: "ed_type d \<noteq> []" "ed_actor d \<noteq> []" "isValidCanonicalTimestamp (ed_occurredAt d)"
    using v by (auto simp: validateDraft_def ensure_Inr_iff)
  have fields: "field_set (canon_fields e) = EVENT_FIELDS"
    unfolding field_set_canon_fields e draft_field_set ..
  have eh: "fget e (js ''eventHash'') = JStr h" by (simp add: e draft_fget)
  have "check_event_fields sha (jw_config j) (jw_lastSeq j + 1) (jw_lastHash j) (canon_fields e) = Inr (canon_fields e)"
    unfolding check_event_fields_def Let_def hash bindR_simps get eh
    using id opts draft hv by (simp add: e draft_fget eq_num_def canon_JObj del: canon.simps)
  then show "readable sha (jw_config j) (jw_lastSeq j + 1) (jw_lastHash j) (canon_fields e)"
    unfolding readable_def line parse validateEvent_def by (simp add: fields)
qed

end
