(* ===== verification/JournalSpec.thy ===== *)
theory JournalSpec
  imports JournalWrite
begin

text \<open>
  The journal's contract: an append is atomic under every crash, what is committed is read back,
  the head determines the events, and what a reader returns chains onto the reducer's state.
\<close>

section \<open>The commit\<close>

text \<open>The segments after one more event: in the active segment \<open>a\<close>, or in a fresh one.\<close>

definition grown :: "fields list list \<Rightarrow> int \<Rightarrow> fields \<Rightarrow> fields list list" where
  "grown segs a e = (if a = int (length segs) then butlast segs @ [last segs @ [e]] else segs @ [[e]])"

lemma grown_facts:
  assumes "a = int (length segs) \<and> segs \<noteq> [] \<or> a = int (length segs) + 1"
  shows "concat (grown segs a e) = concat segs @ [e]" "int (length (grown segs a e)) = a"
    "last (grown segs a e) = (if a = int (length segs) then last segs @ [e] else [e])" "grown segs a e \<noteq> []"
proof -
  show "concat (grown segs a e) = concat segs @ [e]"
    using concat_butlast [of segs] assms by (auto simp: grown_def)
  show "int (length (grown segs a e)) = a"
    using assms by (cases segs rule: rev_cases) (auto simp: grown_def)
qed (auto simp: grown_def)

definition active_text :: "fields list list \<Rightarrow> int \<Rightarrow> jstring" where
  "active_text segs a = (if a = int (length segs) then seg_text (last segs) else [])"

text \<open>The directory after the record is written and \<open>HEAD\<close> is published.\<close>

lemma journal_dir_commit:
  assumes dir: "journal_dir sha c m d segs" and m: "a \<le> m"
    and a: "a = int (length segs) \<and> segs \<noteq> [] \<or> a = int (length segs) + 1"
    and closed: "a = int (length segs) + 1 \<Longrightarrow> segs \<noteq> [] \<Longrightarrow> closed_ok sha c d (int (length segs)) (last segs)"
    and none: "map_of d (summary_name (segmentName a)) = None"
    and ev: "readable sha c (1 + int (length (concat segs))) (chain_head GENESIS_HASH (concat segs)) e"
    and head: "committed_head (grown segs a e) = Some h" "head_text c h ht"
    and legal: "legal_dir m d'"
    and new: "map_of d' (segmentName a) = Some (JFile (active_text segs a @ line_of e @ [10]))"
      "map_of d' HEAD_NAME = Some (JFile ht)"
    and same: "\<And>name. name \<noteq> segmentName a \<Longrightarrow> name \<noteq> HEAD_NAME \<Longrightarrow> \<not> staging_name name \<Longrightarrow> map_of d' name = map_of d name"
  shows "journal_dir sha c m d' (grown segs a e)"
proof -
  let ?k = "int (length segs)"
  note g = grown_facts [OF a, of e]
  have bound: "?k \<le> m" "m < 1000000" using segments_bound [OF dir] by auto
  have idx: "segment_index a" using a m bound by (auto simp: segment_index_def Suc_le_eq)
  have nst: "\<not> staging_name (segmentName i)" if "segment_index i" for i
    using staging_other(4) [of "segmentName i" i] that by auto
  have sum: "map_of d' (summary_name (segmentName i)) = map_of d (summary_name (segmentName i))" for i
    using segment_not_summary [OF idx] summary_name_special(1) [of i] staging_other(3) [of "summary_name (segmentName i)"]
    by (intro same) metis+
  have seg: "map_of d' (segmentName i) = map_of d (segmentName i)" if "segment_index i" "i \<noteq> a" for i
    using that segmentName_inject [OF that(1) idx] segmentName_special(1) [of i] nst by (intro same) auto
  have "closed_ok sha c d' (int i + 1) (grown segs a e ! i)" if i: "i < length (grown segs a e) - 1" for i
  proof -
    have ia: "int i + 1 < a" using i g(2) by linarith
    then have "segment_index (int i + 1)" using m bound by (simp add: segment_index_def)
    then have eq: "closed_ok sha c d' (int i + 1) evs = closed_ok sha c d (int i + 1) evs" for evs
      using seg [of "int i + 1"] sum [of "int i + 1"] ia by (intro closed_ok_cong) auto
    have old: "closed_ok sha c d (int i + 1) (segs ! i)" if "i < length segs - 1"
      using dir that by (simp add: journal_dir_def)
    show ?thesis
    proof (cases "a = ?k")
      case True
      then have "i < length segs - 1" "grown segs a e ! i = segs ! i"
        using ia by (auto simp: grown_def nth_append nth_butlast)
      with old eq show ?thesis by simp
    next
      case False
      with a have a': "a = ?k + 1" by simp
      then have il: "i < length segs" "grown segs a e ! i = segs ! i" using ia by (auto simp: grown_def nth_append)
      show ?thesis
      proof (cases "i < length segs - 1")
        case True
        with old eq il show ?thesis by simp
      next
        case False
        then have "i = length segs - 1" "segs \<noteq> []" using il(1) by auto
        then have "int i + 1 = ?k" "segs ! i = last segs" "segs \<noteq> []" by (auto simp: last_conv_nth Suc_le_eq of_nat_diff)
        with closed [OF a'] eq il show ?thesis by simp
      qed
    qed
  qed
  moreover have "active_ok sha c d' a (last (grown segs a e))"
    using new(1) sum [of a] none by (auto simp: active_ok_def g(3) active_text_def)
  moreover have "chain sha c 1 GENESIS_HASH (concat (grown segs a e))"
    using dir ev by (simp add: g(1) chain_append journal_dir_def)
  ultimately show ?thesis using legal m head new(2) g(2,4) by (simp add: journal_dir_def)
qed

section \<open>The last three effects\<close>

definition commit_effects :: "int \<Rightarrow> fields list list \<Rightarrow> jstring \<Rightarrow> jstring \<Rightarrow> effect list" where
  "commit_effects a segs t ht =
     [WriteAt (segmentName a) (utf8_length (active_text segs a)) (t @ [10]), WriteFile HEAD_TMP ht,
      Rename HEAD_TMP HEAD_NAME]"

lemma staging_head: "staging_name HEAD_TMP"
  by (simp add: staging_name_def)

lemma write_active:
  assumes "map_of d (segmentName a) = Some (JFile (active_text segs a))"
  shows "apply_effect (WriteAt (segmentName a) (utf8_length (active_text segs a)) x) d
    = AList.update (segmentName a) (JFile (active_text segs a @ x)) d"
proof -
  have "whole (active_text segs a)" by (simp add: active_text_def)
  from byte_split_exact [OF this, of "[]"] assms show ?thesis by (simp add: file_text_def)
qed

lemma journal_dir_record:
  assumes "journal_dir sha c m d segs" "a \<le> m"
    and "a = int (length segs) \<and> segs \<noteq> [] \<or> a = int (length segs) + 1"
  shows "journal_dir sha c m (AList.update (segmentName a) (JFile (active_text segs a @ x)) d) segs"
proof (cases "a = int (length segs)")
  case True
  then show ?thesis using journal_dir_active [OF assms(1), of x] assms(3) by (simp add: active_text_def)
next
  case False
  then have "a = int (length segs) + 1" using assms(3) by simp
  moreover have "a < 1000000" using assms(2) segments_bound [OF assms(1)] by linarith
  ultimately show ?thesis
    using journal_dir_later [OF assms(1), of a] assms(2) by (simp add: max_def split: if_splits)
qed

lemma commit_safe:
  assumes "journal_dir sha c m d segs" "a \<le> m"
    and "a = int (length segs) \<and> segs \<noteq> [] \<or> a = int (length segs) + 1"
    and "map_of d (segmentName a) = Some (JFile (active_text segs a))"
  shows "safe_plan (\<lambda>d. \<exists>m. journal_dir sha c m d segs) (commit_effects a segs t ht) d"
proof -
  let ?d3 = "AList.update (segmentName a) (JFile (active_text segs a @ t @ [10])) d"
  note rec = journal_dir_record [OF assms(1-3)]
  have "journal_dir sha c m (torn_effect k (WriteAt (segmentName a) (utf8_length (active_text segs a)) (t @ [10])) d) segs" for k
    unfolding torn_effect.simps write_active [OF assms(4)] by (rule rec)
  moreover have "journal_dir sha c m (torn_effect k (WriteFile HEAD_TMP ht) ?d3) segs" for k
    using journal_dir_staging(1) [OF rec staging_head] by simp
  moreover have "journal_dir sha c m (torn_effect k (Rename HEAD_TMP HEAD_NAME) (apply_effect (WriteFile HEAD_TMP ht) ?d3)) segs" for k
    using journal_dir_staging(1) [OF rec staging_head] by simp
  ultimately show ?thesis
    by (auto simp: commit_effects_def write_active [OF assms(4)] simp del: apply_effect.simps torn_effect.simps)
qed

lemma commit_result:
  assumes dir: "journal_dir sha c m d segs" "a \<le> m"
    and a: "a = int (length segs) \<and> segs \<noteq> [] \<or> a = int (length segs) + 1"
    and "map_of d (segmentName a) = Some (JFile (active_text segs a))"
    and "a = int (length segs) + 1 \<Longrightarrow> segs \<noteq> [] \<Longrightarrow> closed_ok sha c d (int (length segs)) (last segs)"
    and "map_of d (summary_name (segmentName a)) = None"
    and "readable sha c (1 + int (length (concat segs))) (chain_head GENESIS_HASH (concat segs)) e"
    and "committed_head (grown segs a e) = Some h" "head_text c h ht"
  defines "d' \<equiv> fold apply_effect (commit_effects a segs (line_of e) ht) d"
  shows "journal_dir sha c m d' (grown segs a e)"
    "map_of d' (segmentName a) = Some (JFile (active_text segs a @ line_of e @ [10]))"
    "\<And>i. map_of d' (summary_name (segmentName i)) = map_of d (summary_name (segmentName i))"
proof -
  let ?d3 = "AList.update (segmentName a) (JFile (active_text segs a @ line_of e @ [10])) d"
  have d': "d' = AList.update HEAD_NAME (JFile ht) (AList.delete HEAD_TMP (AList.update HEAD_TMP (JFile ht) ?d3))"
    by (simp add: d'_def commit_effects_def write_active [OF assms(4)] file_text_def del: apply_effect.simps(5))
  have bound: "m < 1000000" using segments_bound [OF dir(1)] by auto
  have idx: "segment_index a" using a dir(2) bound by (auto simp: segment_index_def Suc_le_eq)
  have names: "segmentName a \<noteq> HEAD_NAME" "segmentName a \<noteq> HEAD_TMP" "HEAD_NAME \<noteq> HEAD_TMP"
    using segmentName_special special_names(1) by auto
  have lookup: "map_of d' name = (if name = HEAD_NAME then Some (JFile ht) else if name = HEAD_TMP then None
      else if name = segmentName a then Some (JFile (active_text segs a @ line_of e @ [10])) else map_of d name)" for name
    using names by (auto simp: d' delete_conv' restrict_map_def)
  have l3: "legal_dir m (AList.delete HEAD_TMP (AList.update HEAD_TMP (JFile ht) ?d3))"
    using journal_dir_record [OF dir a] legal_update [OF _ legal_staging [OF staging_head]] legal_delete [OF _ staging_head]
    by (simp add: journal_dir_def)
  have legal: "legal_dir m d'"
    unfolding d' by (rule legal_update [OF l3]) (simp add: legal_entry_def)
  show "map_of d' (segmentName a) = Some (JFile (active_text segs a @ line_of e @ [10]))" using names by (simp add: lookup)
  show "map_of d' (summary_name (segmentName i)) = map_of d (summary_name (segmentName i))" for i
    using summary_name_special [of i] segment_not_summary [OF idx, of "segmentName i"] by (auto simp: lookup)
  show "journal_dir sha c m d' (grown segs a e)"
    by (rule journal_dir_commit [OF dir a assms(5-9) legal])
      (use names in \<open>auto simp: lookup staging_head\<close>)
qed

section \<open>The writer\<close>

text \<open>
  A handle that agrees with its directory: the segment files are exactly those of the committed
  prefix, nothing follows the last record, and no summary exists for the active segment or a later one.
\<close>

definition writer_ok ::
  "(jstring \<Rightarrow> jstring) \<Rightarrow> journal \<Rightarrow> jfiles \<Rightarrow> fields list list \<Rightarrow> bool" where
  "writer_ok sha j d segs \<longleftrightarrow>
     journal_dir sha (jw_config j) (int (length segs)) d segs
     \<and> (segs \<noteq> [] \<longrightarrow> map_of d (segmentName (int (length segs))) = Some (JFile (seg_text (last segs))))
     \<and> (\<forall>i. int (length segs) \<le> i \<and> segment_index i \<longrightarrow> map_of d (summary_name (segmentName i)) = None)
     \<and> jw_lastSeq j = int (length (concat segs)) \<and> jw_lastHash j = chain_head GENESIS_HASH (concat segs)
     \<and> jw_activeSegment j = segmentName (if segs = [] then 1 else int (length segs))
     \<and> jw_activeSize j = (if segs = [] then 0 else utf8_length (seg_text (last segs)))
     \<and> map event_key (jw_activeEvents j) = (if segs = [] then [] else map event_key (last segs))
     \<and> (segs = [] \<longrightarrow> \<not> jw_handleOpen j)"

lemma summary_key_cong:
  assumes "map event_key es = map event_key fs"
  shows "summaryFor sha s es n r = summaryFor sha s fs n r"
proof -
  have h: "map event_hash es = map event_hash fs" "map event_seq es = map event_seq fs"
    using arg_cong [OF assms, of "map snd"] arg_cong [OF assms, of "map fst"]
    by (simp_all only: map_map comp_def event_key_def fst_conv snd_conv)
  then have "es = [] \<longleftrightarrow> fs = []" by auto
  moreover have "es \<noteq> [] \<Longrightarrow> event_seq (hd es) = event_seq (hd fs) \<and> event_seq (last es) = event_seq (last fs)"
    using h(2) by (metis hd_map last_map map_is_Nil_conv)
  ultimately show ?thesis
    using h map_eq_imp_length_eq [OF h(1)] by (auto simp: summaryFor_def merkleRootOf_def Let_def)
qed

text \<open>What comes before the record: nothing, the handle, or the close of a segment.\<close>

definition prepared ::
  "(jstring \<Rightarrow> jstring) \<Rightarrow> journal \<Rightarrow> fields list list \<Rightarrow> int \<Rightarrow> jfiles \<Rightarrow> journal \<Rightarrow> bool" where
  "prepared sha j segs a d2 j2 \<longleftrightarrow>
     (a = int (length segs) \<and> segs \<noteq> [] \<or> a = int (length segs) + 1)
     \<and> journal_dir sha (jw_config j) a d2 segs
     \<and> map_of d2 (segmentName a) = Some (JFile (active_text segs a))
     \<and> (a = int (length segs) + 1 \<longrightarrow> segs \<noteq> [] \<longrightarrow> closed_ok sha (jw_config j) d2 (int (length segs)) (last segs))
     \<and> (\<forall>i. a \<le> i \<and> segment_index i \<longrightarrow> map_of d2 (summary_name (segmentName i)) = None)
     \<and> j2 = j\<lparr>jw_activeSegment := segmentName a, jw_activeSize := utf8_length (active_text segs a),
             jw_activeEvents := jw_activeEvents j2, jw_handleOpen := True\<rparr>
     \<and> map event_key (jw_activeEvents j2) = (if a = int (length segs) then map event_key (last segs) else [])"

abbreviation readable_dir :: "(jstring \<Rightarrow> jstring) \<Rightarrow> journal_config \<Rightarrow> fields list list \<Rightarrow> jfiles \<Rightarrow> bool" where
  "readable_dir sha c segs \<equiv> \<lambda>d. \<exists>m. journal_dir sha c m d segs"

lemma update_same: "map_of d k = Some v \<Longrightarrow> map_of (AList.update k v d) = map_of d"
  by auto

lemma prepare_same:
  assumes ok: "writer_ok sha j d segs" and ne: "segs \<noteq> []" and opened: "ensure_handle d j = Inr opened"
  shows "safe_plan (readable_dir sha (jw_config j) segs) (map fst opened) d
    \<and> prepared sha j segs (int (length segs)) (fold apply_effect (map fst opened) d) (last_handle j opened)"
proof -
  let ?k = "int (length segs)" and ?t = "seg_text (last segs)"
  have dir: "journal_dir sha (jw_config j) ?k d segs" and f: "map_of d (segmentName ?k) = Some (JFile ?t)"
    and sz: "jw_activeSize j = utf8_length ?t" "jw_activeSegment j = segmentName ?k"
    and rest: "\<forall>i. ?k \<le> i \<and> segment_index i \<longrightarrow> map_of d (summary_name (segmentName i)) = None"
      "map event_key (jw_activeEvents j) = map event_key (last segs)"
    using ok ne by (simp_all add: writer_ok_def)
  have "last segs \<noteq> []" using dir ne by (simp add: journal_dir_def active_ok_def)
  then have pos: "jw_activeSize j \<noteq> 0" using utf8_length_pos [of ?t] sz by simp
  have split: "byte_split (utf8_length ?t) ?t = (?t, [])" using byte_split_exact [of ?t "[]"] by simp
  have idx: "segment_index ?k" using segments_bound [OF dir] ne by (simp add: segment_index_def Suc_le_eq)
  have at: "active_text segs ?k = ?t" by (simp add: active_text_def)
  show ?thesis
  proof (cases "jw_handleOpen j")
    case True
    then have "opened = []" using opened by (simp add: ensure_handle_def)
    then show ?thesis
      using dir f rest ne True sz by (simp add: prepared_def last_handle_def at)
  next
    case False
    then have o: "opened = [(Truncate (segmentName ?k) (utf8_length ?t), j\<lparr>jw_handleOpen := True\<rparr>)]"
      using opened pos sz by (simp add: ensure_handle_def)
    let ?d = "AList.update (segmentName ?k) (JFile ?t) d"
    have "journal_dir sha (jw_config j) ?k ?d segs"
      using journal_dir_active [OF dir ne, of "[]"] by simp
    moreover have "apply_effect (Truncate (segmentName ?k) (utf8_length ?t)) d = ?d"
      using f by (simp add: file_text_def split)
    ultimately show ?thesis
      using dir rest ne sz f update_same [OF f] by (auto simp: o prepared_def last_handle_def at simp del: apply_effect.simps)
  qed
qed

lemma prepare_first:
  assumes ok: "writer_ok sha j d []" and opened: "ensure_handle d j = Inr opened"
  shows "safe_plan (readable_dir sha (jw_config j) []) (map fst opened) d
    \<and> prepared sha j [] 1 (fold apply_effect (map fst opened) d) (last_handle j opened)"
proof -
  have dir: "journal_dir sha (jw_config j) 0 d []" and sz: "jw_activeSize j = 0" "jw_activeSegment j = segmentName 1"
    "\<not> jw_handleOpen j" "jw_activeEvents j = []"
    and rest: "\<forall>i. 0 \<le> i \<and> segment_index i \<longrightarrow> map_of d (summary_name (segmentName i)) = None"
    using ok by (simp_all add: writer_ok_def)
  have o: "opened = [(CreateFile (segmentName 1), j\<lparr>jw_handleOpen := True\<rparr>)]"
    using opened sz by (auto simp: ensure_handle_def ensure_Inr_iff)
  have "journal_dir sha (jw_config j) 1 (AList.update (segmentName 1) (JFile []) d) []"
    using journal_dir_later [OF dir, of 1 "[]"] by simp
  moreover have "segment_index 1" by (simp add: segment_index_def)
  ultimately show ?thesis
    using dir rest sz segment_not_summary [of 1, THEN not_sym] by (auto simp: o prepared_def last_handle_def active_text_def)
qed

lemma prepare_rotated:
  assumes ok: "writer_ok sha j d segs" and ne: "segs \<noteq> []" and room: "int (length segs) < 999999"
    and rot: "rotate_plan sha d j = Inr rot"
  shows "safe_plan (readable_dir sha (jw_config j) segs) (map fst rot) d
    \<and> prepared sha j segs (int (length segs) + 1) (fold apply_effect (map fst rot) d) (last_handle j rot)"
proof -
  let ?k = "int (length segs)" and ?t = "seg_text (last segs)"
  let ?name = "summary_name (segmentName ?k)"
  let ?tmp = "?name @ STAGING_SUFFIX"
  have dir: "journal_dir sha (jw_config j) ?k d segs" and f: "map_of d (segmentName ?k) = Some (JFile ?t)"
    and sz: "jw_activeSize j = utf8_length ?t" "jw_activeSegment j = segmentName ?k"
    and rest: "\<forall>i. ?k \<le> i \<and> segment_index i \<longrightarrow> map_of d (summary_name (segmentName i)) = None"
    and keys: "map event_key (jw_activeEvents j) = map event_key (last segs)"
    using ok ne by (simp_all add: writer_ok_def)
  have idx: "segment_index ?k" "segment_index (?k + 1)"
    using room ne by (simp_all add: segment_index_def Suc_le_eq)
  obtain u where u: "canonicalJson (summaryFor sha (segmentName ?k) (last segs) (utf8_length ?t) (jc_runId (jw_config j))) = Inr u"
    and r: "rot = [(WriteFile ?tmp (u @ [10]), j), (Rename ?tmp ?name, j\<lparr>jw_handleOpen := False\<rparr>),
        (CreateFile (segmentName (?k + 1)), j\<lparr>jw_activeSegment := segmentName (?k + 1), jw_activeEvents := [],
           jw_activeSize := 0, jw_handleOpen := True\<rparr>)]"
    using rot by (auto simp: rotate_plan_def write_summary_def Let_def ensure_Inr_iff bindR_Inr_iff sz
        segmentName_parts(3) [OF idx(1)] summary_key_cong [OF keys])
  have st: "staging_name ?tmp" by (auto simp: staging_name_def)
  have sum: "summary_text sha (jw_config j) ?k (last segs) (u @ [10])" using u by (simp add: summary_text_def)
  let ?d1 = "AList.update ?tmp (JFile (u @ [10])) d"
  let ?d2 = "AList.update ?name (JFile (u @ [10])) (AList.delete ?tmp ?d1)"
  let ?d3 = "AList.update (segmentName (?k + 1)) (JFile []) ?d2"
  have dir1: "journal_dir sha (jw_config j) ?k (AList.update ?tmp x d) segs" for x
    by (rule journal_dir_staging(1) [OF dir st])
  have dir2: "journal_dir sha (jw_config j) ?k ?d2 segs"
    by (rule journal_dir_summary [OF journal_dir_staging(2) [OF dir1 st] ne sum])
  have dir3: "journal_dir sha (jw_config j) (?k + 1) ?d3 segs"
    using journal_dir_later [OF dir2, of "?k + 1"] room by simp
  have e2: "apply_effect (Rename ?tmp ?name) ?d1 = ?d2" by (simp add: file_text_def)
  have nm: "segmentName (?k + 1) \<noteq> segmentName ?k" "segmentName ?k \<noteq> ?tmp" "segmentName ?k \<noteq> ?name"
      "?name \<noteq> segmentName (?k + 1)"
    using segmentName_inject [OF idx(2,1)] staging_other(4) [OF st idx(1), THEN not_sym]
      segment_not_summary [OF idx(1), of "segmentName ?k"] segment_not_summary [OF idx(2), of "segmentName ?k", THEN not_sym]
    by auto
  have "map_of ?d3 (segmentName ?k) = Some (JFile ?t)" "map_of ?d3 ?name = Some (JFile (u @ [10]))"
    using f nm by (auto simp: delete_conv' restrict_map_def)
  then have cl: "closed_ok sha (jw_config j) ?d3 ?k (last segs)"
    using sum dir ne by (auto simp: closed_ok_def journal_dir_def active_ok_def)
  have none: "map_of ?d3 (summary_name (segmentName i)) = None" if "?k + 1 \<le> i" "segment_index i" for i
  proof -
    have "segmentName i \<noteq> segmentName ?k" using that segmentName_inject [OF that(2) idx(1)] by auto
    with that rest segment_not_summary [OF idx(2), of "segmentName i"] show ?thesis
      by (auto simp: delete_conv' restrict_map_def)
  qed
  have "safe_plan (readable_dir sha (jw_config j) segs) (map fst rot) d"
    using dir1 dir2 by (auto simp: r e2 simp del: apply_effect.simps(3))
  moreover have "prepared sha j segs (?k + 1) ?d3 (last_handle j rot)"
    using dir3 cl none by (simp add: prepared_def r last_handle_def active_text_def)
  moreover have "fold apply_effect (map fst rot) d = ?d3" by (simp add: r e2 del: apply_effect.simps(3))
  ultimately show ?thesis by simp
qed

section \<open>An append\<close>

lemma append_plan_safe:
  assumes ok: "writer_ok sha j d segs" and room: "int (length segs) < 999999"
    and draft: "good_draft fresh draft" "\<forall>t. hex64 (sha t)"
    and plan: "append_plan sha fresh d j draft = Inr (p, e)"
  shows "safe_plan (readable_dir sha (jw_config j) segs) (map fst p) d
    \<and> jw_config (last_handle j p) = jw_config j
    \<and> (\<exists>segs'. writer_ok sha (last_handle j p) (fold apply_effect (map fst p) d) segs'
         \<and> concat segs' = concat segs @ [canon_fields e])"
proof -
  let ?c = "jw_config j"
  obtain t rot opened commit where e: "draft_event sha fresh j draft = Inr e" and t: "canonicalJson (JObj e) = Inr t"
    and rot: "(if jw_activeSize j > 0 \<and> jw_activeSize j + utf8_length (t @ [10]) > num_of (jc_segmentMaxBytes ?c)
               then rotate_plan sha d j else Inr []) = Inr rot"
    and opened: "ensure_handle d (last_handle j rot) = Inr opened"
    and commit: "publishHead ((last_handle (last_handle j rot) opened)
        \<lparr>jw_activeSize := jw_activeSize (last_handle (last_handle j rot) opened) + utf8_length (t @ [10]),
         jw_activeEvents := jw_activeEvents (last_handle (last_handle j rot) opened) @ [e]\<rparr>)
        (event_seq e) (event_hash e) = Inr commit"
    and p: "p = rot @ opened @ (WriteAt (jw_activeSegment (last_handle (last_handle j rot) opened))
          (jw_activeSize (last_handle (last_handle j rot) opened)) (t @ [10]),
          (last_handle (last_handle j rot) opened)
        \<lparr>jw_activeSize := jw_activeSize (last_handle (last_handle j rot) opened) + utf8_length (t @ [10]),
         jw_activeEvents := jw_activeEvents (last_handle (last_handle j rot) opened) @ [e]\<rparr>) # commit"
    using plan by (auto simp: append_plan_def bindR_Inr_iff Let_def)
  define j2 where "j2 = last_handle (last_handle j rot) opened"
  let ?d2 = "fold apply_effect (map fst (rot @ opened)) d"
  obtain a where pre: "safe_plan (readable_dir sha ?c segs) (map fst (rot @ opened)) d" "prepared sha j segs a ?d2 j2"
  proof (cases "jw_activeSize j > 0 \<and> jw_activeSize j + utf8_length (t @ [10]) > num_of (jc_segmentMaxBytes ?c)")
    case True
    then have ne: "segs \<noteq> []" using ok by (auto simp: writer_ok_def split: if_splits)
    have r: "rotate_plan sha d j = Inr rot" using rot True by simp
    note pr = prepare_rotated [OF ok ne room r]
    have "jw_handleOpen (last_handle j rot)" using pr by (auto simp: prepared_def)
    then have "opened = []" using opened by (simp add: ensure_handle_def)
    with pr that [of "int (length segs) + 1"] show ?thesis by (simp add: j2_def last_handle_def)
  next
    case False
    then have r: "rot = []" using rot by (simp split: if_splits)
    have o: "ensure_handle d j = Inr opened" using opened by (simp add: r last_handle_def)
    show ?thesis
    proof (cases "segs = []")
      case True
      from prepare_first [OF ok [unfolded True] o] that [of 1] show ?thesis by (simp add: True j2_def r last_handle_def)
    next
      case False
      from prepare_same [OF ok False o] that [of "int (length segs)"] show ?thesis by (simp add: j2_def r last_handle_def)
    qed
  qed
  note pd = pre(2) [unfolded prepared_def]
  have a: "a = int (length segs) \<and> segs \<noteq> [] \<or> a = int (length segs) + 1" using pd by blast
  have j2: "jw_config j2 = ?c" "jw_activeSegment j2 = segmentName a" "jw_activeSize j2 = utf8_length (active_text segs a)"
    "jw_handleOpen j2" using pd by (metis journal.select_convs journal.update_convs journal.surjective)+
  have ev: "readable sha ?c (1 + int (length (concat segs))) (chain_head GENESIS_HASH (concat segs)) (canon_fields e)"
    "line_of (canon_fields e) = t" "event_key (canon_fields e) = event_key e" "event_seq e = int (length (concat segs)) + 1"
    using draft_event_readable [OF e draft t] ok by (simp_all add: writer_ok_def add.commute)
  let ?segs = "grown segs a (canon_fields e)"
  note g = grown_facts [OF a, of "canon_fields e"]
  let ?h = "\<lparr>jh_seq = event_seq e, jh_eventHash = event_hash e, jh_segment = segmentName a\<rparr>"
  obtain u where u: "canonicalJson (JObj (head_fields (jc_runId ?c) ?h)) = Inr u"
    and cm: "commit = [(WriteFile HEAD_TMP (u @ [10]), j2\<lparr>jw_activeSize := jw_activeSize j2 + utf8_length (t @ [10]),
          jw_activeEvents := jw_activeEvents j2 @ [e]\<rparr>),
        (Rename HEAD_TMP HEAD_NAME, j2\<lparr>jw_activeSize := jw_activeSize j2 + utf8_length (t @ [10]),
          jw_activeEvents := jw_activeEvents j2 @ [e], jw_head := Some ?h, jw_lastSeq := event_seq e,
          jw_lastHash := event_hash e\<rparr>)]"
    using commit by (auto simp: publishHead_def Let_def bindR_Inr_iff j2_def [symmetric] j2)
  have hd: "committed_head ?segs = Some ?h" "head_text ?c ?h (u @ [10])"
    using g ev(3,4) u by (auto simp: committed_head_def head_text_def event_key_def)
  have effects: "map fst p = map fst (rot @ opened) @ commit_effects a segs t (u @ [10])"
    using j2 by (simp add: p cm commit_effects_def j2_def [symmetric])
  have d2: "journal_dir sha ?c a ?d2 segs" "map_of ?d2 (segmentName a) = Some (JFile (active_text segs a))"
    using pd by blast+
  have none: "map_of ?d2 (summary_name (segmentName i)) = None" if "a \<le> i" "segment_index i" for i
    using pd that by blast
  have idx: "segment_index a" using a room by (auto simp: segment_index_def Suc_le_eq)
  have safe: "safe_plan (readable_dir sha ?c segs) (map fst p) d"
    unfolding effects safe_plan_append using pre(1) commit_safe [OF d2(1) _ a d2(2)] by simp
  have closed: "a = int (length segs) + 1 \<Longrightarrow> segs \<noteq> [] \<Longrightarrow> closed_ok sha ?c ?d2 (int (length segs)) (last segs)"
    using pd by blast
  note res = commit_result [OF d2(1) order_refl a d2(2) closed none [OF order_refl idx] ev(1) hd, unfolded ev(2)]
  let ?d = "fold apply_effect (map fst p) d"
  have d: "?d = fold apply_effect (commit_effects a segs t (u @ [10])) ?d2" by (simp add: effects)
  have content: "active_text segs a @ t @ [10] = seg_text (last ?segs)"
    by (simp add: g(3) active_text_def ev(2))
  have size: "utf8_length (active_text segs a) + utf8_length (t @ [10]) = utf8_length (seg_text (last ?segs))"
  proof -
    have "whole (active_text segs a)" by (simp add: active_text_def)
    from utf8_length_append [OF this, of "t @ [10]"] show ?thesis unfolding content by simp
  qed
  have last: "last_handle j p = j2\<lparr>jw_activeSize := jw_activeSize j2 + utf8_length (t @ [10]),
          jw_activeEvents := jw_activeEvents j2 @ [e], jw_head := Some ?h, jw_lastSeq := event_seq e,
          jw_lastHash := event_hash e\<rparr>"
    by (simp add: p cm last_handle_def)
  have keys: "map event_key (jw_activeEvents j2 @ [e]) = map event_key (last ?segs)"
    using pd ev(3) by (simp add: g(3))
  have "writer_ok sha (last_handle j p) ?d ?segs"
    unfolding writer_ok_def last d
    using res(1,2) none res(3) size keys g(1,2,4) j2 ev(3,4)
    by (simp add: content event_key_def)
  moreover have "jw_config (last_handle j p) = ?c" using j2(1) by (simp add: last)
  ultimately show ?thesis using safe g(1) by blast
qed


section \<open>An append of a valid draft completes\<close>

lemma json_ok:
  "(\<exists>t. serialize (JStr s) = Inr t)" "(\<exists>t. serialize JNull = Inr t)" "safe_int n \<Longrightarrow> (\<exists>t. serialize (JNum n) = Inr t)"
  "(\<exists>t. serialize (opt_string v) = Inr t)"
  by (auto simp: safe_int_def opt_string_def split: option.splits)

lemma draft_event_ok:
  assumes "validateDraft draft = Inr ()" "0 \<le> jw_lastSeq j" "jw_lastSeq j < max_safe"
  shows "\<exists>e t. draft_event sha fresh j draft = Inr e \<and> canonicalJson (JObj e) = Inr t"
proof -
  have n: "safe_int (jw_lastSeq j + 1)" "safe_int 1" using assms by (simp_all add: safe_int_def max_safe_def)
  have "\<exists>u. serialize (JObj (ed_payload draft)) = Inr u"
    using assms(1) by (auto simp: validateDraft_def ensure_Inr_iff bindR_Inr_iff canonicalJson_def simp del: serialize.simps)
  then have env: "\<forall>p\<in>set (event_envelope fresh j draft). \<exists>u. serialize (snd p) = Inr u"
    using json_ok n by (auto simp: event_envelope_def simp del: serialize.simps)
  then obtain t where t: "canonicalJson (JObj (event_envelope fresh j draft)) = Inr t"
    using canonicalJson_JObj_ok by blast
  define e where "e = event_envelope fresh j draft @ [(js ''eventHash'', JStr (js ''sha256:'' @ sha t))]"
  have "\<forall>p\<in>set e. \<exists>u. serialize (snd p) = Inr u" using env json_ok(1) unfolding e_def set_append by (auto simp del: serialize.simps)
  then have "\<exists>t. canonicalJson (JObj e) = Inr t" by (simp only: canonicalJson_JObj_ok)
  moreover have "draft_event sha fresh j draft = Inr e"
    by (simp add: draft_event_def assms(1) hashEvent_def t e_def)
  ultimately show ?thesis by blast
qed

lemma chain_bounds:
  assumes "chain sha c n h es" "e \<in> set es"
  shows "n \<le> event_seq e \<and> event_seq e < n + int (length es)"
  using assms by (induction es arbitrary: n h) (use readable_facts(1) in fastforce)+

lemma next_absent:
  assumes "journal_dir sha c k d segs" "segment_index (k + 1)"
  shows "\<not> pathExists d (segmentName (k + 1))"
proof
  assume "pathExists d (segmentName (k + 1))"
  then obtain node where "(segmentName (k + 1), node) \<in> set d" by (auto simp: pathExists_def dest: map_of_SomeD)
  then have "legal_entry k (segmentName (k + 1), node)" using assms(1) by (auto simp: journal_dir_def legal_dir_def)
  moreover have "segmentName (k + 1) \<noteq> segmentName i" if "1 \<le> i" "i \<le> k" for i
    using that assms(2) segmentName_inject [of "k + 1" i] by (simp add: segment_index_def)
  ultimately show False
    using assms(2) segmentName_special [of "k + 1"] staging_other(4) [of _ "k + 1"] segment_not_summary [OF assms(2)]
    by (auto simp: legal_entry_def)
qed

lemma write_summary_ok:
  assumes "writer_ok sha j d segs" "int (length (concat segs)) \<le> max_safe" "jw_activeSize j \<le> max_safe"
  shows "\<exists>p. write_summary sha j = Inr p"
proof -
  have ch: "chain sha (jw_config j) 1 GENESIS_HASH (concat segs)" and keys: "map event_key (jw_activeEvents j)
      = (if segs = [] then [] else map event_key (last segs))" using assms(1) by (auto simp: writer_ok_def journal_dir_def)
  let ?es = "jw_activeEvents j"
  have seqs: "1 \<le> event_seq e \<and> event_seq e \<le> int (length (concat segs))" if "e \<in> set ?es" for e
  proof -
    from that have "event_key e \<in> set (map event_key ?es)" by simp
    then obtain f where "f \<in> set (concat segs)" "event_key e = event_key f"
      unfolding keys by (cases segs rule: rev_cases) auto
    with chain_bounds [OF ch, of f] show ?thesis by (auto simp: event_key_def)
  qed
  have "length ?es \<le> length (concat segs)"
  proof -
    have "length (map event_key ?es) \<le> length (concat segs)"
      unfolding keys using last_in_set [of segs] by (cases segs rule: rev_cases) auto
    then show ?thesis by simp
  qed
  then have len: "int (length ?es) \<le> max_safe" using assms(2) by linarith
  have pos: "0 \<le> jw_activeSize j" using assms(1) by (auto simp: writer_ok_def utf8_length_nonneg)
  have "safe_int (if ?es = [] then 0 else event_seq (hd ?es))" "safe_int (if ?es = [] then 0 else event_seq (last ?es))"
    "safe_int (int (length ?es))" "safe_int (jw_activeSize j)" "safe_int 1"
    using seqs [of "hd ?es"] seqs [of "last ?es"] assms(2,3) len pos by (auto simp: safe_int_def max_safe_def)
  note this [THEN json_ok(3)]
  then have "\<exists>t. canonicalJson (summaryFor sha (jw_activeSegment j) ?es (jw_activeSize j) (jc_runId (jw_config j))) = Inr t"
    unfolding summaryFor_def Let_def canonicalJson_JObj_ok using json_ok(1) by (auto simp del: serialize.simps)
  then show ?thesis by (auto simp: write_summary_def Let_def)
qed

lemma append_plan_completes:
  assumes "writer_ok sha j d segs" "int (length segs) < 999999" "validateDraft draft = Inr ()"
    and "jw_lastSeq j < max_safe" "jw_activeSize j \<le> max_safe"
  shows "\<exists>p e. append_plan sha fresh d j draft = Inr (p, e)"
proof -
  let ?k = "int (length segs)"
  have dir: "journal_dir sha (jw_config j) ?k d segs" and seq: "jw_lastSeq j = int (length (concat segs))"
    and name: "jw_activeSegment j = segmentName (if segs = [] then 1 else ?k)"
    using assms(1) by (auto simp: writer_ok_def)
  obtain e t where e: "draft_event sha fresh j draft = Inr e" and t: "canonicalJson (JObj e) = Inr t"
    using draft_event_ok [OF assms(3) _ assms(4), of sha fresh] seq by auto
  have es: "event_seq e = jw_lastSeq j + 1" using e by (auto simp: draft_event_def bindR_Inr_iff event_seq_def draft_fget)
  have idx: "segment_index (?k + 1)" using assms(2) by (simp add: segment_index_def)
  have absent: "\<not> pathExists d (segmentName (?k + 1))" by (rule next_absent [OF dir idx])
  let ?full = "jw_activeSize j > 0 \<and> jw_activeSize j + utf8_length (t @ [10]) > num_of (jc_segmentMaxBytes (jw_config j))"
  have "\<exists>rot. (if ?full then rotate_plan sha d j else Inr []) = Inr rot
      \<and> (rot = [] \<or> jw_handleOpen (last_handle j rot))"
  proof (cases ?full)
    case True
    then have ne: "segs \<noteq> []" using assms(1) by (auto simp: writer_ok_def)
    then have "segmentIndexOf (jw_activeSegment j) = ?k"
      using segmentName_parts(3) [of ?k] segments_bound [OF dir] by (simp add: name segment_index_def Suc_le_eq)
    moreover obtain p where "write_summary sha j = Inr p"
      using write_summary_ok [OF assms(1) _ assms(5)] assms(4) seq by auto
    ultimately show ?thesis using True absent by (simp add: rotate_plan_def last_handle_def Let_def)
  next
    case False
    then show ?thesis by auto
  qed
  then obtain rot where rot: "(if ?full then rotate_plan sha d j else Inr []) = Inr rot"
    "rot = [] \<or> jw_handleOpen (last_handle j rot)" by blast
  let ?j = "last_handle j rot"
  have "\<exists>opened. ensure_handle d ?j = Inr opened"
  proof (cases "rot = []")
    case True
    have "jw_activeSize j = 0 \<Longrightarrow> segs = []"
    proof (rule ccontr)
      assume "jw_activeSize j = 0" "segs \<noteq> []"
      with assms(1) have "utf8_length (seg_text (last segs)) = 0" "last segs \<noteq> []"
        by (simp_all add: writer_ok_def journal_dir_def active_ok_def)
      then show False using utf8_length_pos [of "seg_text (last segs)"] by simp
    qed
    with True absent name show ?thesis by (auto simp: ensure_handle_def last_handle_def)
  next
    case False
    with rot show ?thesis by (simp add: ensure_handle_def)
  qed
  then obtain opened where opened: "ensure_handle d ?j = Inr opened" ..
  have "safe_int (event_seq e)" "safe_int 1" using es seq assms(4) by (simp_all add: safe_int_def max_safe_def)
  note n = this [THEN json_ok(3)]
  have "\<exists>commit. publishHead j3 (event_seq e) (event_hash e) = Inr commit" for j3
  proof -
    have "\<exists>t. canonicalJson (JObj (head_fields r \<lparr>jh_seq = event_seq e, jh_eventHash = h, jh_segment = s\<rparr>)) = Inr t" for r h s
      unfolding head_fields_def canonicalJson_JObj_ok using n json_ok(1) by (auto simp del: serialize.simps)
    then show ?thesis unfolding publishHead_def Let_def by (metis bindR_simps(2))
  qed
  then have "\<exists>p. append_plan sha fresh d j draft = Inr (p, e)"
    using rot(1) opened by (simp add: append_plan_def e t Let_def bindR_Inr_iff del: split_paired_Ex)
  then show ?thesis by blast
qed


text \<open>
  C20: an append cannot get stuck. While the segment numbers, the
  sequence numbers and the size of the active segment stay in range, a valid draft is always
  appended when the writes succeed, whether or not the segment has to be closed first.
\<close>

theorem journal_append_completes:
  assumes "writer_ok sha j d segs" "int (length segs) < 999999" "validateDraft draft = Inr ()"
    and "jw_lastSeq j < max_safe" "jw_activeSize j \<le> max_safe"
  shows "\<exists>d' j' e. append_journal sha fresh None d j draft = (d', j', Inr e)"
  using append_plan_completes [OF assms, of fresh] by (auto simp: append_journal_def)

section \<open>A concrete journal\<close>

definition sample_writer :: journal where
  "sample_writer = \<lparr>jw_config = \<lparr>jc_runId = js ''r'', jc_segmentMaxBytes = JNum 1\<rparr>, jw_head = None, jw_lastSeq = 0,
     jw_lastHash = GENESIS_HASH, jw_activeSegment = segmentName 1, jw_activeSize = 0, jw_activeEvents = [],
     jw_handleOpen = False\<rparr>"

definition sample_draft :: event_draft where
  "sample_draft = \<lparr>ed_type = js ''run.phase.changed'', ed_actor = js ''a'',
     ed_payload = [(js ''to'', JStr (js ''FROZEN'')), (js ''reason'', JStr [])],
     ed_occurredAt = js ''2026-01-02T03:04:05.678Z'', ed_causationId = None, ed_correlationId = None,
     ed_eventId = Some (js ''i'')\<rparr>"

lemma sample_draft_valid: "validateDraft sample_draft = Inr ()" "good_draft (js ''f'') sample_draft"
proof -
  have "isValidCanonicalTimestamp (js ''2026-01-02T03:04:05.678Z'')" by code_simp
  moreover have "\<exists>t. canonicalJson (JObj [(js ''to'', JStr (js ''FROZEN'')), (js ''reason'', JStr [])]) = Inr t"
    by (simp add: canonicalJson_JObj_ok del: serialize.simps) (simp add: json_ok(1) del: serialize.simps)
  ultimately show "validateDraft sample_draft = Inr ()"
    by (auto simp: validateDraft_def sample_draft_def)
  show "good_draft (js ''f'') sample_draft" by (simp add: good_draft_def sample_draft_def)
qed

lemma sample_writer_ok: "writer_ok sample_sha sample_writer [] []"
  by (simp add: writer_ok_def sample_writer_def journal_dir_def legal_dir_def committed_head_def)

lemma journal_append_completes_witness:
  "\<exists>d' j' e. append_journal sample_sha (js ''f'') None [] sample_writer sample_draft = (d', j', Inr e)"
  by (rule journal_append_completes [OF sample_writer_ok _ sample_draft_valid(1)])
    (simp_all add: sample_writer_def max_safe_def)

lemma sample_append:
  obtains p e segs where "append_plan sample_sha (js ''f'') [] sample_writer sample_draft = Inr (p, e)"
    "writer_ok sample_sha (last_handle sample_writer p) (fold apply_effect (map fst p) []) segs"
    "concat segs = [canon_fields e]" "jw_config (last_handle sample_writer p) = jw_config sample_writer"
proof -
  obtain p e where p: "append_plan sample_sha (js ''f'') [] sample_writer sample_draft = Inr (p, e)"
    using append_plan_completes [OF sample_writer_ok _ sample_draft_valid(1), of "js ''f''"]
    by (auto simp: sample_writer_def max_safe_def)
  from append_plan_safe [OF sample_writer_ok _ sample_draft_valid(2) hex64_sample_sha p] that [OF p] show thesis
    by auto
qed

lemma sample_journal:
  obtains d res h e where "readJournal sample_sha (jw_config sample_writer) (Some d) = Inr res"
    "rd_head res = Some h" "rd_events res = [canon_fields e]"
proof -
  obtain p e segs where s: "writer_ok sample_sha (last_handle sample_writer p) (fold apply_effect (map fst p) []) segs"
    "concat segs = [canon_fields e]" "jw_config (last_handle sample_writer p) = jw_config sample_writer"
    using sample_append by blast
  then have "journal_dir sample_sha (jw_config sample_writer) (int (length segs)) (fold apply_effect (map fst p) []) segs"
    by (simp add: writer_ok_def)
  moreover from s(2) have "segs \<noteq> []" by auto
  ultimately show thesis using read_journal_dir that s(2) by (fastforce simp: committed_head_def)
qed


end
