(* ===== verification/JournalOpen.thy ===== *)
theory JournalOpen
  imports JournalSpec
begin

text \<open>
  Recovery: what \<open>open_journal\<close> makes of a directory an interrupted append left behind. The
  residue is the files it drops (staging files, later segments with their summaries) and the
  bytes after the committed tail; all of it ends up under \<open>crash-residue\<close>.
\<close>

section \<open>Dropping files\<close>

definition drop_files :: "jstring set \<Rightarrow> jfiles \<Rightarrow> jfiles" where
  "drop_files N d = filter (\<lambda>p. \<not> (fst p \<in> N \<and> snd p \<noteq> JDir)) d"

lemma drop_files_simps [simp]:
  "drop_files {} d = d" "drop_files M (drop_files N d) = drop_files (N \<union> M) d"
  "distinct (map fst d) \<Longrightarrow> distinct (map fst (drop_files N d))"
  by (auto simp: drop_files_def distinct_map_filter intro: filter_cong)



section \<open>Quarantine\<close>







section \<open>The recovered directory\<close>
















end
