(* ===== verification/JournalAudit.thy ===== *)
theory JournalAudit
  imports JournalSpec Samples
begin

text \<open>
  What a reader of the journal may rely on: the events of a successful read form one hash chain
  from the genesis value to \<open>HEAD\<close>, so the head decides them all, and the reducer accepts
  their envelopes.
\<close>

section \<open>What a successful read guarantees\<close>

lemma parse_records_sound:
  assumes "parse_records sha c stopAt n h acc t = Inr p"
  shows "\<exists>es. ps_events p = fst acc @ es \<and> chain sha c n h es
    \<and> (\<forall>head. stopAt = Some head \<longrightarrow> es \<noteq> [] \<and> event_seq (last es) = jh_seq head \<and> event_hash (last es) = jh_eventHash head)"
  using assms
proof (induction sha c stopAt n h acc t arbitrary: p rule: parse_records.induct)
  case (1 sha c stopAt n h acc t)
  show ?case
  proof (cases "10 \<in> set t")
    case False
    with 1(3) show ?thesis
      by (subst (asm) parse_records.simps) (auto simp: ensure_Inr_iff intro!: exI [of _ "[]"])
  next
    case True
    let ?line = "takeWhile (\<lambda>u. u \<noteq> 10) t" and ?rest = "tl (dropWhile (\<lambda>u. u \<noteq> 10) t)"
    from 1(3) True obtain raw e where r: "?line \<noteq> []" "parseCanonicalRecord ?line = Inr raw"
      "validateEvent sha c n h raw = Inr e"
      and body: "(let acc' = (fst acc @ [e], snd acc @ ?line @ [10]) in
            case stopAt of
              None \<Rightarrow> parse_records sha c stopAt (n + 1) (event_hash e) acc' ?rest
            | Some head \<Rightarrow>
                if event_seq e = jh_seq head then
                  ensure (event_hash e = jh_eventHash head) (j_err ''record hash is not the HEAD hash'')
                    (Inr \<lparr>ps_events = fst acc', ps_committed = snd acc', ps_residue = ?rest\<rparr>)
                else parse_records sha c stopAt (n + 1) (event_hash e) acc' ?rest) = Inr p"
      by (subst (asm) parse_records.simps) (auto simp: ensure_Inr_iff bindR_Inr_iff Let_def)
    have "10 \<notin> set ?line" using set_takeWhileD by fastforce
    then have "strip_newline ?line = ?line" by (auto simp: strip_newline_def ends_with_newline)
    then have parse: "parseCanonicalJson ?line = Inr raw"
      using r(2) by (auto simp: parseCanonicalRecord_def split: sum.splits)
    obtain q where q: "raw = JObj q" using r(3) by (cases raw) (auto simp: validateEvent_def ensure_Inr_iff)
    then have eq: "e = q" using validateEvent_facts(1) r(3) by blast
    have "line_of q = ?line" using parseCanonicalJson_sound(1) [OF parse] by (simp add: line_of_def q)
    then have rd: "readable sha c n h e" using parse r(3) by (simp add: readable_def q eq)
    have go: ?thesis if rec: "parse_records sha c stopAt (n + 1) (event_hash e) (fst acc @ [e], snd acc @ ?line @ [10]) ?rest = Inr p"
      and IH: "\<exists>es. ps_events p = fst (fst acc @ [e], snd acc @ ?line @ [10]) @ es \<and> chain sha c (n + 1) (event_hash e) es
          \<and> (\<forall>head. stopAt = Some head \<longrightarrow> es \<noteq> [] \<and> event_seq (last es) = jh_seq head \<and> event_hash (last es) = jh_eventHash head)"
    proof -
      from IH obtain es where "ps_events p = fst acc @ e # es" "chain sha c (n + 1) (event_hash e) es"
        "\<forall>head. stopAt = Some head \<longrightarrow> es \<noteq> [] \<and> event_seq (last es) = jh_seq head \<and> event_hash (last es) = jh_eventHash head"
        by auto
      with rd show ?thesis by (intro exI [of _ "e # es"]) auto
    qed
    show ?thesis
    proof (cases stopAt)
      case None
      with body have rec: "parse_records sha c stopAt (n + 1) (event_hash e) (fst acc @ [e], snd acc @ ?line @ [10]) ?rest = Inr p"
        by (simp add: Let_def)
      show ?thesis by (rule go [OF rec 1(1) [OF _ refl refl refl None rec]]) (use True in auto)
    next
      case (Some head)
      show ?thesis
      proof (cases "event_seq e = jh_seq head")
        case stop: True
        with body Some rd show ?thesis
          by (auto simp: Let_def ensure_Inr_iff intro!: exI [of _ "[e]"])
      next
        case False
        with body Some have rec: "parse_records sha c stopAt (n + 1) (event_hash e) (fst acc @ [e], snd acc @ ?line @ [10]) ?rest = Inr p"
          by (simp add: Let_def)
        show ?thesis by (rule go [OF rec 1(2) [OF _ refl refl refl Some False rec]]) (use True in auto)
      qed
    qed
  qed
qed


definition walk_events :: "parsed_segment dict \<Rightarrow> fields list" where
  "walk_events ps = concat (map (ps_events \<circ> snd) ps)"

lemma walk_events_simps [simp]:
  "walk_events [] = []" "walk_events (p # ps) = ps_events (snd p) @ walk_events ps"
  "walk_events (ps @ qs) = walk_events ps @ walk_events qs"
  by (simp_all add: walk_events_def)

definition walk_ok :: "(jstring \<Rightarrow> jstring) \<Rightarrow> journal_config \<Rightarrow> int \<Rightarrow> closed_walk \<Rightarrow> bool" where
  "walk_ok sha c k w \<longleftrightarrow>
     map fst (cw_parsed w) = map segmentName [1..k]
     \<and> chain sha c 1 GENESIS_HASH (walk_events (cw_parsed w))
     \<and> cw_seq w = 1 + int (length (walk_events (cw_parsed w)))
     \<and> cw_previousHash w = chain_head GENESIS_HASH (walk_events (cw_parsed w))"

lemma closed_segment_sound:
  assumes "closed_segment sha c d w (k + 1) = Inr w'" "walk_ok sha c k w" "0 \<le> k"
  shows "walk_ok sha c (k + 1) w'"
proof -
  from assms(1) obtain t p where p: "parseSegment sha c None (cw_seq w) (cw_previousHash w) t = Inr p"
    and w': "w' = \<lparr>cw_parsed = cw_parsed w @ [(segmentName (k + 1), p)],
             cw_seq = (if ps_events p = [] then cw_seq w else event_seq (last (ps_events p)) + 1),
             cw_previousHash = (if ps_events p = [] then cw_previousHash w
                                else event_hash (last (ps_events p)))\<rparr>"
    by (auto simp: closed_segment_def Let_def bindR_Inr_iff ensure_Inr_iff)
  let ?n = "1 + int (length (walk_events (cw_parsed w)))" and ?h = "chain_head GENESIS_HASH (walk_events (cw_parsed w))"
  from parse_records_sound [OF p [unfolded parseSegment_def]] assms(2)
  have ch: "chain sha c ?n ?h (ps_events p)" by (auto simp: walk_ok_def)
  have ev: "walk_events (cw_parsed w') = walk_events (cw_parsed w) @ ps_events p"
    by (simp add: w')
  have range: "[1..k + 1] = [1..k] @ [k + 1]" using assms(3) by (simp add: upto_rec2)
  show ?thesis
    using assms(2) ch last_chain [OF ch]
    unfolding walk_ok_def ev by (simp add: chain_append chain_head_last [of ?h] w' range)
qed

lemma closed_walk_sound:
  assumes "foldR (closed_segment sha c d) \<lparr>cw_parsed = [], cw_seq = 1, cw_previousHash = GENESIS_HASH\<rparr> [1..int k] = Inr w"
  shows "walk_ok sha c (int k) w"
  using assms
proof (induction k arbitrary: w)
  case 0
  then have "w = \<lparr>cw_parsed = [], cw_seq = 1, cw_previousHash = GENESIS_HASH\<rparr>" by simp
  then show ?case by (simp add: walk_ok_def)
next
  case (Suc k)
  have "[1..int (Suc k)] = [1..int k] @ [int k + 1]" by (simp add: upto_rec2 add.commute)
  with Suc.prems obtain w1 where w1: "foldR (closed_segment sha c d)
      \<lparr>cw_parsed = [], cw_seq = 1, cw_previousHash = GENESIS_HASH\<rparr> [1..int k] = Inr w1"
    "closed_segment sha c d w1 (int k + 1) = Inr w" by (auto simp: foldR_snoc bindR_Inr_iff)
  from closed_segment_sound [OF w1(2) Suc.IH [OF w1(1)]] show ?case by (simp add: add.commute)
qed

lemma collect_all:
  assumes "map fst ps = map segmentName is" "distinct (map fst ps)"
  shows "collect_events ps is = walk_events ps"
proof -
  have "collect_events (qs @ ps) is = walk_events ps"
    if "map fst ps = map segmentName is" "distinct (map fst (qs @ ps))" for ps qs "is"
    using that
  proof (induction "is" arbitrary: ps qs)
    case Nil
    then show ?case by simp
  next
    case (Cons i "is")
    then obtain p rest where ps: "ps = (segmentName i, p) # rest" by (cases ps) auto
    have "map_of (qs @ ps) (segmentName i) = Some p"
      using Cons.prems(2) by (subst map_of_eq_Some_iff) (auto simp: ps)
    moreover have "collect_events ((qs @ [(segmentName i, p)]) @ rest) is = walk_events rest"
      using Cons.prems by (intro Cons.IH) (auto simp: ps)
    ultimately show ?case by (simp add: ps)
  qed
  from this [of ps "is" "[]"] assms show ?thesis by simp
qed


lemma value_of_digits_inject:
  assumes "length s = length t" "list_all is_dec_digit s" "list_all is_dec_digit t"
    and "value_of_digits 0 s = value_of_digits 0 t"
  shows "s = t"
  using assms
proof (induction s arbitrary: t rule: rev_induct)
  case Nil
  then show ?case by simp
next
  case (snoc u us)
  then obtain vs v where t: "t = vs @ [v]" by (cases t rule: rev_cases) auto
  have d: "0 \<le> digit_value u" "digit_value u < 10" "0 \<le> digit_value v" "digit_value v < 10"
    using snoc.prems(2,3) by (auto simp: t is_dec_digit_def digit_value_def word_le_def)
  have v: "10 * value_of_digits 0 us + digit_value u = 10 * value_of_digits 0 vs + digit_value v"
    using snoc.prems(4) by (simp add: t value_of_digits_snoc)
  with d have "value_of_digits 0 us = value_of_digits 0 vs" "digit_value u = digit_value v" by presburger+
  with snoc show ?case by (auto simp: t digit_value_def word_uint_eq_iff)
qed

lemma value_of_digits_bounds:
  assumes "list_all is_dec_digit s"
  shows "0 \<le> value_of_digits 0 s \<and> value_of_digits 0 s < 10 ^ length s"
  using assms
  by (induction s rule: rev_induct)
    (auto simp: value_of_digits_snoc is_dec_digit_def digit_value_def word_le_def)

lemma segmentName_of_index:
  assumes "SEGMENT_NAME s" "1 \<le> segmentIndexOf s"
  shows "segmentName (segmentIndexOf s) = s" "segment_index (segmentIndexOf s)"
proof -
  let ?m = "take 6 (drop 7 s)"
  have l: "length s = 19" and d: "list_all is_dec_digit ?m" and tl: "drop 13 s = js ''.jsonl''"
    and h: "starts_with (js ''events-'') s" using assms(1) by (simp_all add: SEGMENT_NAME_def)
  have i: "segmentIndexOf s = value_of_digits 0 ?m" by (simp add: segmentIndexOf_def l)
  have lm: "length ?m = 6" using l by simp
  show idx: "segment_index (segmentIndexOf s)"
    using value_of_digits_bounds [OF d] assms(2) unfolding lm segment_index_def i by simp
  have "pad_zero 6 (dec (segmentIndexOf s)) = ?m"
    by (rule value_of_digits_inject) (use padded [OF idx] lm d i in simp_all)
  moreover have "s = take 7 s @ ?m @ drop 13 s"
    using append_take_drop_id [of 7 s] append_take_drop_id [of 6 "drop 7 s"] by simp
  moreover have "take 7 s = js ''events-''"
    using h by (simp only: starts_with_def) (simp add: eval_nat_numeral)
  ultimately show "segmentName (segmentIndexOf s) = s" by (metis segmentName_def tl)
qed

definition head_matches :: "journal_head option \<Rightarrow> fields list \<Rightarrow> bool" where
  "head_matches h es \<longleftrightarrow>
     (case h of None \<Rightarrow> es = []
      | Some h \<Rightarrow> es \<noteq> [] \<and> event_seq (last es) = jh_seq h \<and> event_hash (last es) = jh_eventHash h)"

lemma read_sound:
  assumes "readJournal sha c dir = Inr res"
  shows "chain sha c 1 GENESIS_HASH (rd_events res)" "head_matches (rd_head res) (rd_events res)"
proof -
  from assms obtain l where l: "scanJournal sha c dir = Inr l"
    and res: "res = \<lparr>rd_events = (case jl_head l of None \<Rightarrow> []
         | Some h \<Rightarrow> collect_events (jl_parsed l) [1..segmentIndexOf (jh_segment h)]),
       rd_head = jl_head l, rd_residue = jl_residue l\<rparr>"
    by (auto simp: readJournal_def bindR_Inr_iff)
  have "chain sha c 1 GENESIS_HASH (rd_events res) \<and> head_matches (rd_head res) (rd_events res)"
  proof (cases "jl_head l")
    case None
    then show ?thesis by (simp add: res head_matches_def)
  next
    case (Some h)
    from l Some obtain d s t where "scan_committed sha c d s t = Inr l"
      by (auto simp: scanJournal_def bindR_Inr_iff ensure_Inr_iff Let_def split: option.splits)
    then obtain raw w p where v: "validateHead c raw = Inr h" and i: "1 \<le> segmentIndexOf (jh_segment h)"
      and w: "foldR (closed_segment sha c d) \<lparr>cw_parsed = [], cw_seq = 1, cw_previousHash = GENESIS_HASH\<rparr>
        [1..segmentIndexOf (jh_segment h) - 1] = Inr w"
      and p: "active_segment sha c d h w = Inr p" and parsed: "jl_parsed l = cw_parsed w @ [(jh_segment h, p)]"
      using Some by (auto simp: scan_committed_def bindR_Inr_iff ensure_Inr_iff Let_def)
    let ?i = "segmentIndexOf (jh_segment h)"
    have "SEGMENT_NAME (jh_segment h)"
      using v by (auto simp: validateHead_def ensure_Inr_iff Let_def head_of_def)
    note name = segmentName_of_index [OF this i]
    define k where "k = nat (?i - 1)"
    have k: "int k = ?i - 1" using i by (simp add: k_def)
    have ok: "walk_ok sha c (?i - 1) w" using closed_walk_sound [of sha c d k w] w by (simp add: k)
    have range: "[1..?i] = [1..?i - 1] @ [?i]" using i by (simp add: upto_rec2)
    have keys: "map fst (jl_parsed l) = map segmentName [1..?i]"
      using ok name(1) by (simp add: parsed walk_ok_def range)
    have "inj_on segmentName (set [1..?i])"
      using name(2) by (auto simp: inj_on_def segmentName_inject segment_index_def)
    then have "distinct (map fst (jl_parsed l))" unfolding keys by (simp add: distinct_map)
    from collect_all [OF keys this] have ev: "rd_events res = walk_events (cw_parsed w) @ ps_events p"
      by (simp add: res Some parsed)
    from p obtain t where "parseSegment sha c (Some h) (cw_seq w) (cw_previousHash w) t = Inr p"
      by (auto simp: active_segment_def bindR_Inr_iff ensure_Inr_iff split: if_splits)
    from parse_records_sound [OF this [unfolded parseSegment_def]] ok
    have "chain sha c (1 + int (length (walk_events (cw_parsed w))))
        (chain_head GENESIS_HASH (walk_events (cw_parsed w))) (ps_events p)"
      "ps_events p \<noteq> [] \<and> event_seq (last (ps_events p)) = jh_seq h \<and> event_hash (last (ps_events p)) = jh_eventHash h"
      by (auto simp: walk_ok_def)
    moreover have "rd_head res = Some h" by (simp add: res Some)
    ultimately show ?thesis using ok by (simp add: ev chain_append walk_ok_def head_matches_def)
  qed
  then show "chain sha c 1 GENESIS_HASH (rd_events res)" "head_matches (rd_head res) (rd_events res)" by blast+
qed


lemma chain_sealed:
  assumes "chain sha c n h es"
  shows "sr.linked (js ''previousHash'') (js ''eventHash'') sha h es"
    "sr.head_from (js ''eventHash'') h es = chain_head h es"
proof -
  have one: "sealed sha (js ''eventHash'') e \<and> str_of (fget e (js ''previousHash'')) = h
      \<and> sealed_own (js ''eventHash'') e = event_hash e"
    if e: "readable sha c n h e" for n h e
  proof -
    from e have p: "parseCanonicalJson (line_of e) = Inr (JObj e)" and v: "validateEvent sha c n h (JObj e) = Inr e"
      by (simp_all add: readable_def)
    note f = validateEvent_facts [OF v]
    from f(11) obtain t where t: "canonicalJson (JObj (omit_field (js ''eventHash'') e)) = Inr t"
      and h: "JStr (js ''sha256:'' @ sha t) = fget e (js ''eventHash'')" by blast
    have own: "sealed_own (js ''eventHash'') e = js ''sha256:'' @ sha t"
      by (simp add: sealed_own_def flip: h)
    have "plain_keys (JObj e)" "canon_fields e = e"
      using parseCanonicalJson_sound [OF p] by (simp_all only: canon_fixed_iff)
    with t own f(3,5) show ?thesis by (auto simp: sealed_def event_hash_def simp flip: sealed_own_def)
  qed
  show "sr.linked (js ''previousHash'') (js ''eventHash'') sha h es"
    using assms by (induction es arbitrary: n h) (use one in fastforce)+
  show "sr.head_from (js ''eventHash'') h es = chain_head h es"
    using assms by (induction es arbitrary: n h) (use one in fastforce)+
qed

text \<open>
  C22: \<open>HEAD\<close> decides the whole journal. Two directories that both read
  back without an error and whose heads name the same sequence number and the same event hash
  hold the same events, unless two different texts that their event hashes cover collide.
\<close>

theorem journal_tamper_evident:
  assumes "readJournal sha c dir1 = Inr r1" "readJournal sha c dir2 = Inr r2"
    and "rd_head r1 = Some h1" "rd_head r2 = Some h2"
    and "jh_seq h1 = jh_seq h2" "jh_eventHash h1 = jh_eventHash h2"
  shows "rd_events r1 = rd_events r2
    \<or> (\<exists>e\<in>set (rd_events r1). \<exists>f\<in>set (rd_events r2).
         sealed_text (js ''eventHash'') e \<noteq> sealed_text (js ''eventHash'') f
         \<and> sha (sealed_text (js ''eventHash'') e) = sha (sealed_text (js ''eventHash'') f))"
proof -
  note s1 = read_sound [OF assms(1)] and s2 = read_sound [OF assms(2)]
  have m: "rd_events r1 \<noteq> []" "event_seq (last (rd_events r1)) = jh_seq h1" "event_hash (last (rd_events r1)) = jh_eventHash h1"
    "rd_events r2 \<noteq> []" "event_seq (last (rd_events r2)) = jh_seq h2" "event_hash (last (rd_events r2)) = jh_eventHash h2"
    using s1(2) s2(2) by (simp_all add: head_matches_def assms(3,4))
  have len: "length (rd_events r1) = length (rd_events r2)"
    using last_chain [OF s1(1) m(1)] last_chain [OF s2(1) m(4)] m(2,5) assms(5) by simp
  have head: "chain_head GENESIS_HASH (rd_events r1) = chain_head GENESIS_HASH (rd_events r2)"
    using m assms(6) by (simp add: chain_head_last)
  show ?thesis
    using sr.chain_inject [OF chain_sealed(1) [OF s1(1)] chain_sealed(1) [OF s2(1)] len]
    by (simp add: chain_sealed(2) [OF s1(1)] chain_sealed(2) [OF s2(1)] head sr.collision_def)
qed


lemma journal_tamper_evident_witness:
  "\<exists>d res h. readJournal sample_sha (jw_config sample_writer) (Some d) = Inr res \<and> rd_head res = Some h
    \<and> rd_events res \<noteq> []
    \<and> (rd_events res = rd_events res
       \<or> (\<exists>e\<in>set (rd_events res). \<exists>f\<in>set (rd_events res).
            sealed_text (js ''eventHash'') e \<noteq> sealed_text (js ''eventHash'') f
            \<and> sample_sha (sealed_text (js ''eventHash'') e) = sample_sha (sealed_text (js ''eventHash'') f)))"
proof -
  obtain d res h e where r: "readJournal sample_sha (jw_config sample_writer) (Some d) = Inr res"
    "rd_head res = Some h" "rd_events res = [canon_fields e]"
    by (rule sample_journal)
  have "rd_events res \<noteq> []" by (simp add: r(3))
  with journal_tamper_evident [OF r(1,1,2,2) refl refl] r(1,2) show ?thesis by blast
qed

section \<open>The reader feeds the reducer\<close>

text \<open>What a reduction does once the envelope is accepted.\<close>

definition apply_event ::
  "(jstring \<Rightarrow> jstring) \<Rightarrow> reducer_config \<Rightarrow> run_state \<Rightarrow> fields \<Rightarrow> run_state res" where
  "apply_event sha c s ev =
     apply_payload sha c (s\<lparr>rs_seq := rs_seq s + 1, rs_lastEventHash := fget ev (js ''eventHash'')\<rparr>)
       (pstr ev ''type'') (obj_of (fget ev (js ''payload'')))"

lemma chain_reduces:
  assumes "chain sha jc n h es" "jc_runId jc = rc_runId c" "rs_seq s + 1 = n" "rs_lastEventHash s = JStr h"
  shows "foldR (reduceEvent sha c) s es = foldR (apply_event sha c) s es
    \<and> (\<forall>s'. foldR (reduceEvent sha c) s es = Inr s' \<longrightarrow>
         rs_seq s' = rs_seq s + int (length es) \<and> rs_lastEventHash s' = JStr (chain_head h es))"
  using assms
proof (induction es arbitrary: n h s)
  case Nil
  then show ?case by simp
next
  case (Cons e es)
  have v: "validateEvent sha jc n h (JObj e) = Inr e" using Cons.prems(1) by (simp add: readable_def)
  note f = validateEvent_facts [OF v]
  have step: "reduceEvent sha c s e = apply_event sha c s e"
    using f(3,6-10) Cons.prems(2-4) by (simp add: reduceEvent_def ensure_def apply_event_def)
  show ?case
  proof (cases "apply_event sha c s e")
    case (Inl err)
    then show ?thesis by (simp add: step)
  next
    case (Inr t)
    from event_frame [OF Inr [unfolded apply_event_def]]
    have t: "rs_seq t = n" "rs_lastEventHash t = JStr (event_hash e)"
      using Cons.prems(3) f(5) by (auto simp: frame_def event_hash_def dest!: is_strE)
    have "chain sha jc (n + 1) (event_hash e) es" using Cons.prems(1) by simp
    from Cons.IH [OF this Cons.prems(2) _ t(2)] t(1) Inr Cons.prems(3) show ?thesis
      by (auto simp: step)
  qed
qed

lemma genesis_same: "GENESIS_HASH = GENESIS_PREVIOUS_HASH"
  by (simp add: GENESIS_HASH_def GENESIS_PREVIOUS_HASH_def)

text \<open>
  C23: the reader and the reducer agree on envelopes. On the events of a
  journal that reads back, a replay never fails an envelope check: it is the fold of the event
  handlers, and the state it reaches carries the position and the hash of \<open>HEAD\<close>.
\<close>

theorem journal_feeds_reducer:
  assumes "readJournal sha jc dir = Inr res" "jc_runId jc = rc_runId c"
  shows "replayEvents sha c (rd_events res) = foldR (apply_event sha c) (initialState c) (rd_events res)
    \<and> (\<forall>s h. replayEvents sha c (rd_events res) = Inr s \<longrightarrow> rd_head res = Some h \<longrightarrow>
         rs_seq s = jh_seq h \<and> rs_lastEventHash s = JStr (jh_eventHash h))"
proof -
  note s = read_sound [OF assms(1)]
  have start: "rs_seq (initialState c) + 1 = 1" "rs_lastEventHash (initialState c) = JStr GENESIS_HASH"
    by (simp_all add: initialState_def genesis_same)
  note r = chain_reduces [OF s(1) assms(2) start]
  have "rs_seq t = jh_seq h \<and> rs_lastEventHash t = JStr (jh_eventHash h)"
    if "replayEvents sha c (rd_events res) = Inr t" "rd_head res = Some h" for t h
  proof -
    have "rd_events res \<noteq> []" and hd: "event_seq (last (rd_events res)) = jh_seq h"
      "event_hash (last (rd_events res)) = jh_eventHash h"
      using s(2) that(2) by (simp_all add: head_matches_def)
    note ne = this
    have "rs_seq t = rs_seq (initialState c) + int (length (rd_events res))"
      "rs_lastEventHash t = JStr (chain_head GENESIS_HASH (rd_events res))"
      using r [THEN conjunct2, rule_format, OF that(1) [unfolded replayEvents_def]] by blast+
    then show ?thesis using start(1) last_chain [OF s(1) ne(1)] ne by (simp add: chain_head_last)
  qed
  with r [THEN conjunct1] show ?thesis unfolding replayEvents_def by blast
qed

lemma journal_feeds_reducer_witness:
  "\<exists>d res. readJournal sample_sha (jw_config sample_writer) (Some d) = Inr res \<and> rd_events res \<noteq> []
    \<and> replayEvents sample_sha sample_config (rd_events res)
      = foldR (apply_event sample_sha sample_config) (initialState sample_config) (rd_events res)"
proof -
  obtain d res h e where r: "readJournal sample_sha (jw_config sample_writer) (Some d) = Inr res"
    "rd_head res = Some h" "rd_events res = [canon_fields e]"
    by (rule sample_journal)
  have "jc_runId (jw_config sample_writer) = rc_runId sample_config"
    by (simp add: sample_writer_def sample_config_def)
  from journal_feeds_reducer [OF r(1) this] r show ?thesis by (metis list.distinct(1))
qed

end
