(* ===== verification/Clade.thy ===== *)
theory Clade
  imports Reducer
begin

text \<open>
  Model of \<^verbatim>\<open>packages/dsh-evolve-le/src/selection/clade.ts\<close>: the clade of a candidate is the
  candidate and everything that descends from it along parent edges, and every selection
  statistic is a count over a clade. The walk is a loop over a stack with no record of what it
  has visited; a candidate list may make it run for ever, which is the value \<open>None\<close>. The
  quotient \<open>cmpHat\<close> is a parameter: the language's division of two integral doubles.
\<close>

record node_stats =
  ns_candidateId :: jstring
  ns_s :: int
  ns_f :: int
  ns_guardExcluded :: int

record 'r clade_entry =
  ce_candidateId :: jstring
  ce_members :: "jstring list"
  ce_sC :: int
  ce_fC :: int
  ce_cmpHat :: "'r option"
  ce_guardObservationsExcluded :: int

section \<open>The walk\<close>

definition list_at :: "jstring list dict \<Rightarrow> jstring \<Rightarrow> jstring list" where
  "list_at m k = (case map_of m k of None \<Rightarrow> [] | Some l \<Rightarrow> l)"

definition childrenOf :: "candidate_state list \<Rightarrow> jstring list dict" where
  "childrenOf cs =
     fold (\<lambda>c m. case cd_parentCandidateId c of
                   None \<Rightarrow> m
                 | Some p \<Rightarrow> AList.update p (list_at m p @ [cd_candidateId c]) m) cs []"

text \<open>The \<open>while\<close> loop; the end of the code's stack is the head of the list.\<close>

partial_function (option) clade_walk ::
  "(jstring \<Rightarrow> jstring list) \<Rightarrow> jstring set \<Rightarrow> jstring list \<Rightarrow> jstring list \<Rightarrow> jstring list option" where
  "clade_walk children known stack members =
     (case stack of
        [] \<Rightarrow> Some members
      | current # rest \<Rightarrow>
          if current \<notin> known then clade_walk children known rest members
          else clade_walk children known (rev (children current) @ rest) (members @ [current]))"

definition cladeMembers :: "candidate_state list \<Rightarrow> jstring \<Rightarrow> jstring list option" where
  "cladeMembers cs rootId =
     map_option sort
       (clade_walk (list_at (childrenOf cs)) (set (map cd_candidateId cs)) [rootId] [])"

section \<open>Statistics\<close>

definition is_guard :: "fields \<Rightarrow> bool" where
  "is_guard ob \<longleftrightarrow> fget ob (js ''split'') = JStr (js ''dev-guard'')"

definition is_pass :: "fields \<Rightarrow> bool" where
  "is_pass ob \<longleftrightarrow> eq_num (fget ob (js ''reward'')) 1"

definition count_observation :: "fields \<Rightarrow> node_stats dict \<Rightarrow> node_stats dict" where
  "count_observation ob stats =
     (let c = pstr ob ''candidateId'' in
      case map_of stats c of
        None \<Rightarrow> stats
      | Some e \<Rightarrow>
          AList.update c
            (if is_guard ob then e\<lparr>ns_guardExcluded := ns_guardExcluded e + 1\<rparr>
             else if is_pass ob then e\<lparr>ns_s := ns_s e + 1\<rparr> else e\<lparr>ns_f := ns_f e + 1\<rparr>) stats)"

definition nodeStats :: "candidate_state list \<Rightarrow> fields list \<Rightarrow> node_stats dict" where
  "nodeStats cs obs =
     fold count_observation obs
       (fold (\<lambda>c m. AList.update (cd_candidateId c)
          \<lparr>ns_candidateId = cd_candidateId c, ns_s = 0, ns_f = 0, ns_guardExcluded = 0\<rparr> m) cs [])"

definition add_member :: "node_stats dict \<Rightarrow> jstring \<Rightarrow> int \<times> int \<times> int \<Rightarrow> int \<times> int \<times> int" where
  "add_member perNode m acc =
     (case map_of perNode m of
        None \<Rightarrow> acc
      | Some e \<Rightarrow> (case acc of (s, f, g) \<Rightarrow> (s + ns_s e, f + ns_f e, g + ns_guardExcluded e)))"

definition clade_entry_of ::
  "(int \<Rightarrow> int \<Rightarrow> 'r) \<Rightarrow> node_stats dict \<Rightarrow> candidate_state \<Rightarrow> jstring list \<Rightarrow> 'r clade_entry" where
  "clade_entry_of quot perNode c members =
     (case fold (add_member perNode) members (0, 0, 0) of
        (s, f, g) \<Rightarrow>
          \<lparr>ce_candidateId = cd_candidateId c, ce_members = members, ce_sC = s, ce_fC = f,
           ce_cmpHat = (if s + f = 0 then None else Some (quot s (s + f))),
           ce_guardObservationsExcluded = g\<rparr>)"

definition cladeStats ::
  "(int \<Rightarrow> int \<Rightarrow> 'r) \<Rightarrow> candidate_state list \<Rightarrow> fields list \<Rightarrow> 'r clade_entry list option" where
  "cladeStats quot cs obs =
     those (map (\<lambda>c. map_option (clade_entry_of quot (nodeStats cs obs) c) (cladeMembers cs (cd_candidateId c)))
       (sort_key cd_candidateId cs))"

section \<open>The parent edges\<close>

definition parent_edges :: "candidate_state list \<Rightarrow> (jstring \<times> jstring) set" where
  "parent_edges cs = {(p, cd_candidateId c) | p c. c \<in> set cs \<and> cd_parentCandidateId c = Some p}"

definition clade :: "candidate_state list \<Rightarrow> jstring \<Rightarrow> jstring set" where
  "clade cs rootId = (parent_edges cs)\<^sup>* `` {rootId}"

lemma childrenOf_filter:
  "list_at (childrenOf cs) p = map cd_candidateId (filter (\<lambda>c. cd_parentCandidateId c = Some p) cs)"
proof -
  have "list_at (fold (\<lambda>c m. case cd_parentCandidateId c of None \<Rightarrow> m
      | Some p \<Rightarrow> AList.update p (list_at m p @ [cd_candidateId c]) m) cs m) p
    = list_at m p @ map cd_candidateId (filter (\<lambda>c. cd_parentCandidateId c = Some p) cs)" for m
    by (induction cs arbitrary: m) (auto simp: list_at_def split: option.splits)
  from this [of "[]"] show ?thesis by (simp add: childrenOf_def list_at_def)
qed

lemma finite_parent_edges: "finite (parent_edges cs)"
proof -
  have "parent_edges cs \<subseteq> (\<lambda>c. (the (cd_parentCandidateId c), cd_candidateId c)) ` set cs"
    by (force simp: parent_edges_def)
  then show ?thesis by (rule finite_subset) simp
qed

lemma edge_iff_child: "(p, k) \<in> parent_edges cs \<longleftrightarrow> k \<in> set (list_at (childrenOf cs) p)"
  by (auto simp: parent_edges_def childrenOf_filter)

text \<open>A node has one parent, so two of its ancestors are on one line.\<close>

lemma one_parent:
  assumes "distinct (map cd_candidateId cs)" "(p, k) \<in> parent_edges cs" "(q, k) \<in> parent_edges cs"
  shows "p = q"
proof -
  have "inj_on cd_candidateId (set cs)" using assms(1) by (simp add: distinct_map)
  with assms(2,3) show ?thesis by (auto simp: parent_edges_def dest!: inj_onD)
qed

lemma ancestors_comparable:
  assumes "distinct (map cd_candidateId cs)" "(a, x) \<in> (parent_edges cs)\<^sup>*" "(b, x) \<in> (parent_edges cs)\<^sup>*"
  shows "(a, b) \<in> (parent_edges cs)\<^sup>* \<or> (b, a) \<in> (parent_edges cs)\<^sup>*"
  using assms(2,3)
proof (induction rule: rtrancl_induct)
  case base
  then show ?case by blast
next
  case (step y z)
  from step.prems show ?case
  proof (cases rule: rtranclE)
    case base
    with step.hyps show ?thesis by (meson rtrancl.rtrancl_into_rtrancl)
  next
    case (step w)
    with one_parent [OF assms(1) \<open>(y, z) \<in> parent_edges cs\<close>] have "w = y" by metis
    with step(1) \<open>(b, y) \<in> (parent_edges cs)\<^sup>* \<Longrightarrow> _\<close> show ?thesis by blast
  qed
qed

lemma siblings_disjoint:
  assumes d: "distinct (map cd_candidateId cs)" and ac: "(c, c) \<notin> (parent_edges cs)\<^sup>+"
    and e: "(c, k) \<in> parent_edges cs" "(c, l) \<in> parent_edges cs" "k \<noteq> l"
  shows "clade cs k \<inter> clade cs l = {}"
proof (rule ccontr)
  let ?E = "parent_edges cs"
  have no: "(a, b) \<notin> ?E\<^sup>*" if "(c, a) \<in> ?E" "(c, b) \<in> ?E" "a \<noteq> b" for a b
  proof
    assume "(a, b) \<in> ?E\<^sup>*"
    with that(3) obtain w where "(a, w) \<in> ?E\<^sup>*" "(w, b) \<in> ?E" by (metis rtranclE)
    with one_parent [OF d that(2)] have "(a, c) \<in> ?E\<^sup>*" by metis
    with that(1) have "(c, c) \<in> ?E\<^sup>+" by (metis rtrancl_into_trancl2)
    with ac show False by blast
  qed
  assume "clade cs k \<inter> clade cs l \<noteq> {}"
  then obtain x where "(k, x) \<in> ?E\<^sup>*" "(l, x) \<in> ?E\<^sup>*" by (auto simp: clade_def)
  from ancestors_comparable [OF d this] no e show False by metis
qed


section \<open>The walk visits the clade once\<close>

abbreviation walk :: "candidate_state list \<Rightarrow> jstring list \<Rightarrow> jstring list \<Rightarrow> jstring list option" where
  "walk cs \<equiv> clade_walk (list_at (childrenOf cs)) (set (map cd_candidateId cs))"

definition visits :: "candidate_state list \<Rightarrow> jstring list \<Rightarrow> jstring list \<Rightarrow> bool" where
  "visits cs xs L \<longleftrightarrow> (\<forall>rest ms. walk cs (xs @ rest) ms = walk cs rest (ms @ L))"

lemma visits_simps:
  "visits cs [] []" "visits cs xs L \<Longrightarrow> visits cs ys M \<Longrightarrow> visits cs (xs @ ys) (L @ M)"
  "c \<in> set (map cd_candidateId cs) \<Longrightarrow> visits cs (rev (list_at (childrenOf cs) c)) L \<Longrightarrow> visits cs [c] (c # L)"
  by (simp_all add: visits_def clade_walk.simps [of _ _ "c # _"])

lemma visits_list:
  assumes "\<forall>x\<in>set xs. \<exists>L. visits cs [x] L \<and> distinct L \<and> set L = D x"
    and "distinct xs" "\<forall>x\<in>set xs. \<forall>y\<in>set xs. x \<noteq> y \<longrightarrow> D x \<inter> D y = {}"
  shows "\<exists>L. visits cs xs L \<and> distinct L \<and> set L = \<Union> (D ` set xs)"
  using assms
proof (induction xs)
  case Nil
  then show ?case by (intro exI [of _ "[]"]) (simp add: visits_simps)
next
  case (Cons x xs)
  then obtain L M where L: "visits cs [x] L" "distinct L" "set L = D x"
    and M: "visits cs xs M" "distinct M" "set M = \<Union> (D ` set xs)" by auto
  have "visits cs (x # xs) (L @ M)" using visits_simps(2) [OF L(1) M(1)] by simp
  moreover have "distinct (L @ M)" using L M Cons.prems(2,3) by auto
  ultimately show ?case using L M by (intro exI [of _ "L @ M"]) simp
qed

lemma clade_unfold: "clade cs c = insert c (\<Union> (clade cs ` set (list_at (childrenOf cs) c)))"
proof -
  have "(c, x) \<in> (parent_edges cs)\<^sup>* \<longleftrightarrow> x = c \<or> (\<exists>k. (c, k) \<in> parent_edges cs \<and> (k, x) \<in> (parent_edges cs)\<^sup>*)" for x
    by (auto elim: converse_rtranclE intro: converse_rtrancl_into_rtrancl)
  then show ?thesis by (auto simp: clade_def edge_iff_child)
qed

lemma visits_clade:
  assumes d: "distinct (map cd_candidateId cs)" and ac: "\<forall>x\<in>clade cs rootId. (x, x) \<notin> (parent_edges cs)\<^sup>+"
    and "rootId \<in> set (map cd_candidateId cs)"
  shows "\<exists>L. visits cs [rootId] L \<and> distinct L \<and> set L = clade cs rootId"
proof -
  let ?E = "parent_edges cs"
  let ?R = "?E \<inter> clade cs rootId \<times> UNIV"
  have down: "k \<in> clade cs rootId" if "c \<in> clade cs rootId" "(c, k) \<in> ?E" for c k
    using that by (auto simp: clade_def intro: rtrancl_into_rtrancl)
  have "acyclic ?R"
  proof (rule acyclicI, rule allI, rule notI)
    fix x assume "(x, x) \<in> ?R\<^sup>+"
    moreover from this have "x \<in> clade cs rootId" by (metis tranclD IntD2 mem_Sigma_iff)
    ultimately show False using ac trancl_mono by (metis Int_lower1)
  qed
  then have "wf (?R\<inverse>)" by (intro finite_acyclic_wf_converse) (simp_all add: finite_parent_edges)
  moreover have "rootId \<in> clade cs rootId" by (simp add: clade_def)
  moreover have "\<exists>L. visits cs [c] L \<and> distinct L \<and> set L = clade cs c"
    if "wf (?R\<inverse>)" "c \<in> clade cs rootId" "c \<in> set (map cd_candidateId cs)" for c
    using that
  proof (induction c rule: wf_induct_rule)
    case (less c)
    let ?ks = "list_at (childrenOf cs) c"
    have cyc: "(c, c) \<notin> ?E\<^sup>+" using ac less.prems(1) by blast
    have known: "k \<in> set (map cd_candidateId cs)" if "k \<in> set ?ks" for k using that by (auto simp: childrenOf_filter)
    have "\<exists>L. visits cs (rev ?ks) L \<and> distinct L \<and> set L = \<Union> (clade cs ` set (rev ?ks))"
    proof (rule visits_list)
      show "\<forall>x\<in>set (rev ?ks). \<exists>L. visits cs [x] L \<and> distinct L \<and> set L = clade cs x"
        using less.IH known down less.prems(1) by (simp add: edge_iff_child)
      show "distinct (rev ?ks)" using d by (simp add: childrenOf_filter distinct_map_filter)
      show "\<forall>x\<in>set (rev ?ks). \<forall>y\<in>set (rev ?ks). x \<noteq> y \<longrightarrow> clade cs x \<inter> clade cs y = {}"
        using siblings_disjoint [OF d cyc] by (simp add: edge_iff_child)
    qed
    then obtain L where L: "visits cs (rev ?ks) L" "distinct L" "set L = \<Union> (clade cs ` set ?ks)" by auto
    have "c \<notin> set L"
    proof
      assume "c \<in> set L"
      then obtain k where "(c, k) \<in> ?E" "(k, c) \<in> ?E\<^sup>*" by (auto simp: L(3) clade_def edge_iff_child)
      then show False using cyc by (metis rtrancl_into_trancl2)
    qed
    with L less.prems show ?case
      by (intro exI [of _ "c # L"]) (simp add: visits_simps(3) clade_unfold [of cs c])
  qed
  ultimately show ?thesis using assms(3) by blast
qed

lemma cladeMembers_exact:
  assumes "distinct (map cd_candidateId cs)" "\<forall>x\<in>clade cs rootId. (x, x) \<notin> (parent_edges cs)\<^sup>+"
    and "rootId \<in> set (map cd_candidateId cs)"
  shows "\<exists>ms. cladeMembers cs rootId = Some ms \<and> sorted ms \<and> distinct ms \<and> set ms = clade cs rootId"
proof -
  from visits_clade [OF assms] obtain L where L: "visits cs [rootId] L" "distinct L" "set L = clade cs rootId" by blast
  then have "walk cs ([rootId] @ []) [] = walk cs [] ([] @ L)" unfolding visits_def by blast
  then have "walk cs [rootId] [] = Some L" by (simp add: clade_walk.simps [of _ _ "[]"])
  with L show ?thesis by (simp add: cladeMembers_def)
qed

text \<open>A candidate that is its own ancestor keeps the walk going.\<close>

lemma walk_cycle:
  assumes C: "\<forall>c\<in>C. c \<in> set (map cd_candidateId cs) \<and> (\<exists>k\<in>C. (c, k) \<in> parent_edges cs)" and st: "set stack \<inter> C \<noteq> {}"
  shows "walk cs stack members = None"
proof (rule ccontr)
  let ?ch = "list_at (childrenOf cs)" and ?known = "set (map cd_candidateId cs)"
  assume "walk cs stack members \<noteq> None"
  then obtain ms where ret: "walk cs stack members = Some ms" by blast
  have "?ch = ?ch \<longrightarrow> ?known = ?known \<longrightarrow> set stack \<inter> C = {}"
  proof (rule clade_walk.raw_induct [where P = "\<lambda>ch kn st ms r. ch = ?ch \<longrightarrow> kn = ?known \<longrightarrow> set st \<inter> C = {}", OF _ ret])
    fix f and ch :: "jstring \<Rightarrow> jstring list" and kn st ms and r :: "jstring list"
    assume IH: "\<And>ch kn st ms r. f ch kn st ms = Some r \<Longrightarrow> ch = ?ch \<longrightarrow> kn = ?known \<longrightarrow> set st \<inter> C = {}"
      and eq: "(case st of [] \<Rightarrow> Some ms
        | c # rest \<Rightarrow> if c \<notin> kn then f ch kn rest ms else f ch kn (rev (ch c) @ rest) (ms @ [c])) = Some r"
    show "ch = ?ch \<longrightarrow> kn = ?known \<longrightarrow> set st \<inter> C = {}"
    proof (intro impI)
      assume ck: "ch = ?ch" "kn = ?known"
      show "set st \<inter> C = {}"
      proof (cases st)
        case (Cons c rest)
        with eq IH ck have r: "if c \<notin> ?known then set rest \<inter> C = {} else set (rev (?ch c) @ rest) \<inter> C = {}"
          by (fastforce split: if_splits)
        moreover have "c \<notin> C"
        proof
          assume "c \<in> C"
          with C obtain k where "c \<in> ?known" "k \<in> C" "k \<in> set (?ch c)" by (metis edge_iff_child)
          with r show False by auto
        qed
        ultimately show ?thesis by (auto simp: Cons split: if_splits)
      qed simp
    qed
  qed
  with st show False by simp
qed

lemma cycle_known: "(c, k) \<in> (parent_edges cs)\<^sup>+ \<Longrightarrow> k \<in> set (map cd_candidateId cs)"
  by (induction rule: trancl_induct) (auto simp: parent_edges_def)

lemma cladeMembers_cycle:
  assumes "(rootId, x) \<in> (parent_edges cs)\<^sup>*" "(x, x) \<in> (parent_edges cs)\<^sup>+"
    and known: "rootId \<in> set (map cd_candidateId cs)"
  shows "cladeMembers cs rootId = None"
proof -
  let ?E = "parent_edges cs"
  let ?C = "{c. c \<in> set (map cd_candidateId cs) \<and> (c, x) \<in> ?E\<^sup>+}"
  have "\<exists>k\<in>?C. (c, k) \<in> ?E" if "c \<in> ?C" for c
  proof -
    from that obtain k where k: "(c, k) \<in> ?E" "(k, x) \<in> ?E\<^sup>*" by (auto dest: tranclD)
    have "(k, x) \<in> ?E\<^sup>+" using k(2) assms(2) by (metis rtrancl_trancl_trancl)
    moreover have "k \<in> set (map cd_candidateId cs)" using k(1) by (auto simp: parent_edges_def)
    ultimately show ?thesis using k(1) by blast
  qed
  moreover have "(rootId, x) \<in> ?E\<^sup>+" using assms(1,2) by (metis rtrancl_trancl_trancl)
  ultimately have "walk cs [rootId] [] = None" using known by (intro walk_cycle [of ?C]) auto
  then show ?thesis by (simp add: cladeMembers_def)
qed

text \<open>
  C24: the clade of a known candidate is computed exactly when none of
  its descendants is its own ancestor (otherwise the loop never ends), and then it is the sorted
  list of the candidate and its descendants along the parent edges, each once.
\<close>

theorem clade_members_returns_iff:
  assumes "distinct (map cd_candidateId cs)" "rootId \<in> set (map cd_candidateId cs)"
  shows "cladeMembers cs rootId
    = (if \<exists>x. (rootId, x) \<in> (parent_edges cs)\<^sup>* \<and> (x, x) \<in> (parent_edges cs)\<^sup>+ then None
       else Some (sorted_list_of_set ((parent_edges cs)\<^sup>* `` {rootId})))"
proof (cases "\<exists>x. (rootId, x) \<in> (parent_edges cs)\<^sup>* \<and> (x, x) \<in> (parent_edges cs)\<^sup>+")
  case True
  with cladeMembers_cycle [OF _ _ assms(2)] show ?thesis by auto
next
  case False
  then have "\<forall>x\<in>clade cs rootId. (x, x) \<notin> (parent_edges cs)\<^sup>+" by (auto simp: clade_def)
  from cladeMembers_exact [OF assms(1) this assms(2)] obtain ms where
    ms: "cladeMembers cs rootId = Some ms" "sorted ms" "distinct ms" "set ms = clade cs rootId" by blast
  then have "ms = sorted_list_of_set (clade cs rootId)"
    by (metis sorted_list_of_set.idem_if_sorted_distinct)
  with ms(1) False show ?thesis by (simp add: clade_def)
qed

section \<open>Counting\<close>

definition counted :: "jstring set \<Rightarrow> (fields \<Rightarrow> bool) \<Rightarrow> fields list \<Rightarrow> int" where
  "counted C P obs = int (length (filter (\<lambda>ob. pstr ob ''candidateId'' \<in> C \<and> P ob) obs))"

lemma counted_disjoint:
  "C \<inter> D = {} \<Longrightarrow> counted (C \<union> D) P obs = counted C P obs + counted D P obs"
  by (induction obs) (auto simp: counted_def)

lemma count_fold:
  assumes "map_of st c = Some e"
  shows "map_of (fold count_observation obs st) c = Some (e\<lparr>
      ns_s := ns_s e + counted {c} (\<lambda>ob. \<not> is_guard ob \<and> is_pass ob) obs,
      ns_f := ns_f e + counted {c} (\<lambda>ob. \<not> is_guard ob \<and> \<not> is_pass ob) obs,
      ns_guardExcluded := ns_guardExcluded e + counted {c} is_guard obs\<rparr>)"
  using assms
proof (induction obs arbitrary: st e)
  case Nil
  then show ?case by (simp add: counted_def)
next
  case (Cons ob obs)
  show ?case
  proof (cases "pstr ob ''candidateId'' = c")
    case True
    have "map_of (count_observation ob st) c
      = Some (if is_guard ob then e\<lparr>ns_guardExcluded := ns_guardExcluded e + 1\<rparr>
             else if is_pass ob then e\<lparr>ns_s := ns_s e + 1\<rparr> else e\<lparr>ns_f := ns_f e + 1\<rparr>)"
      using True Cons.prems by (simp add: count_observation_def)
    from Cons.IH [OF this] True show ?thesis by (auto simp: counted_def)
  next
    case False
    have "map_of (count_observation ob st) c = Some e"
      using False Cons.prems by (auto simp: count_observation_def Let_def split: option.splits)
    from Cons.IH [OF this] False show ?thesis by (simp add: counted_def)
  qed
qed

lemma nodeStats_lookup:
  assumes "c \<in> set (map cd_candidateId cs)"
  shows "map_of (nodeStats cs obs) c = Some \<lparr>ns_candidateId = c,
      ns_s = counted {c} (\<lambda>ob. \<not> is_guard ob \<and> is_pass ob) obs,
      ns_f = counted {c} (\<lambda>ob. \<not> is_guard ob \<and> \<not> is_pass ob) obs,
      ns_guardExcluded = counted {c} is_guard obs\<rparr>"
proof -
  let ?z = "\<lambda>c. \<lparr>ns_candidateId = c, ns_s = 0, ns_f = 0, ns_guardExcluded = 0\<rparr>"
  have "map_of (fold (\<lambda>c m. AList.update (cd_candidateId c) (?z (cd_candidateId c)) m) cs m) c
      = (if c \<in> set (map cd_candidateId cs) then Some (?z c) else map_of m c)" for m
    by (induction cs arbitrary: m) auto
  with assms have "map_of (fold (\<lambda>c m. AList.update (cd_candidateId c) (?z (cd_candidateId c)) m) cs []) c = Some (?z c)"
    by simp
  from count_fold [OF this, of obs] show ?thesis by (simp add: nodeStats_def)
qed

lemma members_sum:
  assumes "distinct ms" "set ms \<subseteq> set (map cd_candidateId cs)"
  shows "fold (add_member (nodeStats cs obs)) ms (s, f, g)
    = (s + counted (set ms) (\<lambda>ob. \<not> is_guard ob \<and> is_pass ob) obs,
       f + counted (set ms) (\<lambda>ob. \<not> is_guard ob \<and> \<not> is_pass ob) obs,
       g + counted (set ms) is_guard obs)"
  using assms
proof (induction ms arbitrary: s f g)
  case Nil
  then show ?case by (simp add: counted_def)
next
  case (Cons m ms)
  have "counted (set (m # ms)) P obs = counted {m} P obs + counted (set ms) P obs" for P
    using counted_disjoint [of "{m}" "set ms" P obs] Cons.prems(1) by simp
  with Cons nodeStats_lookup [of m cs obs] show ?case by (simp add: add_member_def)
qed

lemma sort_map_key: "map f (sort_key f xs) = sort (map f xs)"
  by (rule properties_for_sort [symmetric]) simp_all

lemma those_map: "\<forall>x\<in>set xs. f x = Some (g x) \<Longrightarrow> those (map f xs) = Some (map g xs)"
  by (induction xs) auto

text \<open>
  C25: the selection statistics count every observation of a clade exactly once.
  When no candidate is its own ancestor there is one entry per candidate, in the order of the
  identifiers, and its passes, failures and excluded guard observations are the numbers of such
  observations among the candidate and its descendants; guard observations move neither of the
  two others.
\<close>

theorem clade_stats_exact:
  assumes "distinct (map cd_candidateId cs)" "acyclic (parent_edges cs)"
  shows "\<exists>es. cladeStats quot cs obs = Some es \<and> map ce_candidateId es = sort (map cd_candidateId cs)
    \<and> (\<forall>e\<in>set es.
          let inside = (\<lambda>ob. pstr ob ''candidateId'' \<in> (parent_edges cs)\<^sup>* `` {ce_candidateId e}) in
          ce_sC e = int (length (filter (\<lambda>ob. inside ob \<and> \<not> is_guard ob \<and> is_pass ob) obs))
        \<and> ce_fC e = int (length (filter (\<lambda>ob. inside ob \<and> \<not> is_guard ob \<and> \<not> is_pass ob) obs))
        \<and> ce_guardObservationsExcluded e = int (length (filter (\<lambda>ob. inside ob \<and> is_guard ob) obs))
        \<and> ce_cmpHat e = (if ce_sC e + ce_fC e = 0 then None else Some (quot (ce_sC e) (ce_sC e + ce_fC e))))"
proof -
  define ms where "ms = (\<lambda>c :: candidate_state. the (cladeMembers cs (cd_candidateId c)))"
  let ?e = "\<lambda>c :: candidate_state. clade_entry_of quot (nodeStats cs obs) c (ms c)"
  have m: "cladeMembers cs (cd_candidateId c) = Some (ms c)" "distinct (ms c)" "set (ms c) = clade cs (cd_candidateId c)"
    if "c \<in> set cs" for c
    using cladeMembers_exact [OF assms(1), of "cd_candidateId c"] assms(2) that by (auto simp: ms_def acyclic_def)
  have "clade cs c \<subseteq> set (map cd_candidateId cs)" if "c \<in> set (map cd_candidateId cs)" for c
  proof -
    have "x \<in> set (map cd_candidateId cs)" if "(c, x) \<in> (parent_edges cs)\<^sup>*" for x
      using that \<open>c \<in> set (map cd_candidateId cs)\<close> by (induction rule: rtrancl_induct) (auto simp: parent_edges_def)
    then show ?thesis by (auto simp: clade_def)
  qed
  then have sub: "set (ms c) \<subseteq> set (map cd_candidateId cs)" if "c \<in> set cs" for c using m(3) [OF that] that by auto
  have id: "ce_candidateId (?e c) = cd_candidateId c" for c by (simp add: clade_entry_of_def split: prod.splits)
  have "cladeStats quot cs obs = Some (map ?e (sort_key cd_candidateId cs))"
    unfolding cladeStats_def by (rule those_map) (simp add: m(1))
  moreover have "map ce_candidateId (map ?e (sort_key cd_candidateId cs)) = sort (map cd_candidateId cs)"
    by (simp add: id comp_def sort_map_key)
  moreover have "ce_sC (?e c) = counted (clade cs (cd_candidateId c)) (\<lambda>ob. \<not> is_guard ob \<and> is_pass ob) obs"
    "ce_fC (?e c) = counted (clade cs (cd_candidateId c)) (\<lambda>ob. \<not> is_guard ob \<and> \<not> is_pass ob) obs"
    "ce_guardObservationsExcluded (?e c) = counted (clade cs (cd_candidateId c)) is_guard obs"
    "ce_cmpHat (?e c) = (if ce_sC (?e c) + ce_fC (?e c) = 0 then None
       else Some (quot (ce_sC (?e c)) (ce_sC (?e c) + ce_fC (?e c))))" if "c \<in> set cs" for c
    using members_sum [OF m(2) [OF that] sub [OF that], of obs 0 0 0] m(3) [OF that]
    by (simp_all add: clade_entry_of_def)
  ultimately show ?thesis
    by (intro exI [of _ "map ?e (sort_key cd_candidateId cs)"]) (simp add: id Let_def counted_def clade_def)
qed


section \<open>A concrete family\<close>

definition sample_candidate :: "string \<Rightarrow> string option \<Rightarrow> candidate_state" where
  "sample_candidate i p = \<lparr>cd_candidateId = js i, cd_sourceHash = [], cd_parentCandidateId = map_option js p,
     cd_proposalActionId = None, cd_status = Registered\<rparr>"

definition sample_family :: "candidate_state list" where
  "sample_family = [sample_candidate ''a'' None, sample_candidate ''b'' (Some ''a''), sample_candidate ''c'' (Some ''c'')]"

lemma parent_edges_simps [simp]:
  "parent_edges [] = {}"
  "parent_edges (c # cs) = (case cd_parentCandidateId c of None \<Rightarrow> {} | Some p \<Rightarrow> {(p, cd_candidateId c)}) \<union> parent_edges cs"
  by (auto simp: parent_edges_def split: option.splits)

lemma sample_family_edges:
  "parent_edges sample_family = {(js ''a'', js ''b''), (js ''c'', js ''c'')}"
  "distinct (map cd_candidateId sample_family)"
  by (auto simp: sample_family_def sample_candidate_def)

lemma sample_paths:
  "(parent_edges sample_family)\<^sup>+ = {(js ''a'', js ''b''), (js ''c'', js ''c'')}"
  "(js ''a'', y) \<in> (parent_edges sample_family)\<^sup>* \<longleftrightarrow> y = js ''a'' \<or> y = js ''b''"
proof -
  show t: "(parent_edges sample_family)\<^sup>+ = {(js ''a'', js ''b''), (js ''c'', js ''c'')}"
    unfolding sample_family_edges(1) by (rule trancl_id) (auto simp: trans_def)
  show "(js ''a'', y) \<in> (parent_edges sample_family)\<^sup>* \<longleftrightarrow> y = js ''a'' \<or> y = js ''b''"
    unfolding rtrancl_eq_or_trancl t by auto
qed

lemma clade_members_returns_iff_witness:
  "cladeMembers sample_family (js ''a'') = Some (sorted_list_of_set {js ''a'', js ''b''})
    \<and> cladeMembers sample_family (js ''c'') = None"
proof
  have ids: "js ''a'' \<in> set (map cd_candidateId sample_family)" "js ''c'' \<in> set (map cd_candidateId sample_family)"
    by (simp_all add: sample_family_def sample_candidate_def)
  have "(parent_edges sample_family)\<^sup>* `` {js ''a''} = {js ''a'', js ''b''}" by (auto simp: sample_paths(2))
  then show "cladeMembers sample_family (js ''a'') = Some (sorted_list_of_set {js ''a'', js ''b''})"
    using clade_members_returns_iff [OF sample_family_edges(2) ids(1)] unfolding sample_paths by auto
  have "(js ''c'', js ''c'') \<in> (parent_edges sample_family)\<^sup>+" unfolding sample_paths(1) by simp
  then show "cladeMembers sample_family (js ''c'') = None"
    using clade_members_returns_iff [OF sample_family_edges(2) ids(2)] by auto
qed

lemma clade_stats_exact_witness:
  "\<exists>es. cladeStats (\<lambda>a b. (a, b)) (take 2 sample_family)
      [[(js ''candidateId'', JStr (js ''b'')), (js ''split'', JStr (js ''dev-observed'')), (js ''reward'', JNum 1)]] = Some es
    \<and> map ce_candidateId es = sort [js ''a'', js ''b'']"
proof -
  have d: "distinct (map cd_candidateId (take 2 sample_family))" and e: "parent_edges (take 2 sample_family) = {(js ''a'', js ''b'')}"
    and ids: "map cd_candidateId (take 2 sample_family) = [js ''a'', js ''b'']"
    by (simp_all add: sample_family_def sample_candidate_def)
  have "acyclic (parent_edges (take 2 sample_family))"
    unfolding e acyclic_def by (subst trancl_id) (auto simp: trans_def)
  from clade_stats_exact [OF d this] ids show ?thesis by metis
qed

text \<open>
  The reducer registers a candidate that names itself as its parent, after which the walk from it
  does not end: the parent of a registered candidate is never looked up.
\<close>

lemma self_parent_registered:
  assumes "rget (rs_candidates s) c = Absent" "pstr p ''candidateId'' = c" "str_option (fget p (js ''parentCandidateId'')) = Some c"
  shows "\<exists>s'. on_registered p s = Inr s' \<and> cladeMembers (map snd (rs_candidates s')) c = None"
proof -
  let ?r = "\<lparr>cd_candidateId = c, cd_sourceHash = pstr p ''sourceHash'', cd_parentCandidateId = Some c,
      cd_proposalActionId = str_option (fget p (js ''proposalActionId'')), cd_status = Registered\<rparr>"
  let ?m = "AList.update c ?r (rs_candidates s)"
  have reg: "on_registered p s = Inr (s\<lparr>rs_candidates := ?m\<rparr>)"
    using assms by (simp add: on_registered_def)
  have "(c, ?r) \<in> set ?m" by (metis map_of_SomeD map_of_update fun_upd_same)
  then have in_m: "?r \<in> set (map snd ?m)" by force
  then have "(c, c) \<in> parent_edges (map snd ?m)" by (force simp: parent_edges_def)
  moreover have "c \<in> set (map cd_candidateId (map snd ?m))" using in_m by force
  ultimately have "cladeMembers (map snd ?m) c = None" by (intro cladeMembers_cycle [of c c]) auto
  with reg show ?thesis by auto
qed

end
