(* ===== verification/ExecSpec.thy ===== *)
theory ExecSpec
  imports ObjectStore
begin

text \<open>
  Model of the execution contract of \<^verbatim>\<open>packages/dsh-evolve-le/src/execution/types.ts\<close>: the
  validator every supervisor runs on a specification before it reserves resources or creates a
  container for it.
\<close>

definition x_err :: "string \<Rightarrow> jserror" where
  "x_err m = (ExecutionError, m)"

definition EXECUTION_PROTOCOL :: jstring where
  "EXECUTION_PROTOCOL = js ''dsh-evolve-le/execution/v1''"

definition has_key :: "fields \<Rightarrow> jstring \<Rightarrow> bool" where
  "has_key r k \<longleftrightarrow> k \<in> set (map fst r)"

definition assertExact :: "jsval \<Rightarrow> string list \<Rightarrow> string list \<Rightarrow> unit res" where
  "assertExact v names opt =
     ensure (is_plain_object v) (x_err ''expected object'')
     (ensure (list_all (\<lambda>(k, _). k \<in> set (map js names) \<or> k \<in> set (map js opt)) (obj_of v))
        (x_err ''unexpected field'')
     (ensure (list_all (\<lambda>n. has_key (obj_of v) (js n)) names) (x_err ''missing field'') (Inr ())))"

definition positive_number :: "jsval \<Rightarrow> unit res" where
  "positive_number v =
     ensure (is_safe_number v \<and> 0 < num_of v) (x_err ''invalid positive integer'') (Inr ())"

text \<open>\<open>/^[a-zA-Z0-9][a-zA-Z0-9_.-]{0,95}$/\<close>.\<close>

definition is_alnum :: "jsunit \<Rightarrow> bool" where
  "is_alnum u \<longleftrightarrow> is_dec_digit u \<or> (65 \<le> u \<and> u \<le> 90) \<or> (97 \<le> u \<and> u \<le> 122)"

definition IDENTITY :: "jstring \<Rightarrow> bool" where
  "IDENTITY s \<longleftrightarrow>
     (case s of
        [] \<Rightarrow> False
      | u # us \<Rightarrow> is_alnum u \<and> length us \<le> 95
                  \<and> list_all (\<lambda>u. is_alnum u \<or> u \<in> set (js ''_.-'')) us)"

text \<open>\<open>/^[a-zA-Z0-9][a-zA-Z0-9._:/-]*@sha256:[a-f0-9]{64}$/\<close>: the digest part is the last 72 units.\<close>

definition IMAGE_REFERENCE :: "jstring \<Rightarrow> bool" where
  "IMAGE_REFERENCE s \<longleftrightarrow>
     (case take (length s - 72) s of
        [] \<Rightarrow> False
      | u # us \<Rightarrow> is_alnum u \<and> list_all (\<lambda>u. is_alnum u \<or> u \<in> set (js ''._:/-'')) us
                  \<and> starts_with (js ''@sha256:'') (drop (length s - 72) s)
                  \<and> hex64 (drop 8 (drop (length s - 72) s)))"

section \<open>The parts of a specification\<close>

definition IDENTITY_FIELDS :: "string list" where
  "IDENTITY_FIELDS = [''runId'', ''actionId'', ''attemptId'', ''executionId'', ''parentExecutionId'']"

definition KINDS :: "jstring list" where
  "KINDS = map js [''proposal'', ''test'', ''validator'']"

definition validate_image :: "jsval \<Rightarrow> unit res" where
  "validate_image v =
     (let g = (\<lambda>f. fget (obj_of v) (js f)) in
      bindR (assertExact v [''reference'', ''id'', ''platform''] []) (\<lambda>_.
      ensure (is_str (g ''reference'') \<and> IMAGE_REFERENCE (str_of (g ''reference'')))
        (x_err ''image must be digest-pinned'')
     (ensure (is_str (g ''id'') \<and> sha256_value (str_of (g ''id''))) (x_err ''invalid image ID'')
     (ensure (to_string (g ''platform'') \<in> set (map js [''linux/amd64'', ''linux/arm64'']))
        (x_err ''invalid platform'') (Inr ())))))"

definition validate_inputs :: "jsval \<Rightarrow> unit res" where
  "validate_inputs v =
     ensure (is_arr v \<and> arr_of v \<noteq> [] \<and> length (arr_of v) \<le> 1024) (x_err ''invalid inputs'')
       (eachR (\<lambda>ref. bindR (validateRef ref) (\<lambda>_.
          ensure (fget (obj_of ref) (js ''label'') \<notin> {JStr (js ''DEV_GUARD''), JStr (js ''SEALED'')})
            (x_err ''guard/sealed input forbidden in proposal and admission execution'') (Inr ())))
         (arr_of v))"

definition validate_command :: "jsval \<Rightarrow> unit res" where
  "validate_command v =
     (let c = arr_of v in
      ensure (is_arr v \<and> 2 \<le> length c \<and> length c \<le> 32
        \<and> list_all (\<lambda>w. is_str w \<and> length (str_of w) \<le> 4096 \<and> 0 \<notin> set (str_of w)) c
        \<and> c ! 0 = JStr (js ''/input/capsule/runtime/node'')
        \<and> starts_with (js ''/input/capsule/runner/'') (to_string (c ! 1)))
        (x_err ''command must use frozen capsule worker'') (Inr ()))"

definition COUNT_LIMITS :: "string list" where
  "COUNT_LIMITS = [''cpuMillis'', ''cpuTimeMs'', ''memoryBytes'', ''pids'', ''nofile'', ''fileBytes'',
     ''outputBytes'', ''shellTimeoutMs'', ''shellCalls'']"

definition SPACE_LIMITS :: "string list" where
  "SPACE_LIMITS = [''workspace'', ''work'', ''tmp'', ''shm'']"

definition validate_limits :: "jsval \<Rightarrow> unit res" where
  "validate_limits v =
     (let l = obj_of v in
      bindR (assertExact v [''cpuMillis'', ''cpuTimeMs'', ''memoryBytes'', ''pids'', ''nofile'', ''fileBytes'',
        ''workspace'', ''work'', ''tmp'', ''shm'', ''outputBytes'', ''shellTimeoutMs'', ''shellCalls''] []) (\<lambda>_.
      bindR (eachR (\<lambda>k. positive_number (fget l (js k))) COUNT_LIMITS) (\<lambda>_.
      eachR (\<lambda>k. let limit = fget l (js k) in
               bindR (assertExact limit [''bytes'', ''inodes''] []) (\<lambda>_.
               bindR (positive_number (fget (obj_of limit) (js ''bytes''))) (\<lambda>_.
               positive_number (fget (obj_of limit) (js ''inodes''))))) SPACE_LIMITS)))"

definition mount_source_ok :: "jsval \<Rightarrow> bool" where
  "mount_source_ok v \<longleftrightarrow>
     is_str v \<and> starts_with (js ''/'') (str_of v) \<and> str_of v \<noteq> js ''/'' \<and> 0 \<notin> set (str_of v)
     \<and> list_all (\<lambda>x. x \<noteq> js ''.'' \<and> x \<noteq> js ''..'') (split_on (unit_of (CHR ''/'')) (str_of v))
     \<and> \<not> js_includes (js ''//'') (str_of v) \<and> \<not> ends_with (js ''/'') (str_of v)"

definition MOUNT_TARGETS :: "jstring list" where
  "MOUNT_TARGETS = map js [''/input'', ''/gateway'', ''/workspace'', ''/work'', ''/dependencies'', ''/toolchain'']"

text \<open>One round of the loop over the mounts; the state is the set of targets, in insertion order.\<close>

definition validate_mount :: "jstring list \<Rightarrow> jsval \<Rightarrow> jstring list res" where
  "validate_mount targets m =
     (let g = (\<lambda>f. fget (obj_of m) (js f)); target = to_string (g ''target'') in
      bindR (assertExact m [''source'', ''target'', ''readOnly''] []) (\<lambda>_.
      ensure (mount_source_ok (g ''source'')) (x_err ''invalid mount source'')
     (ensure (target \<in> set MOUNT_TARGETS \<and> target \<notin> set targets) (x_err ''invalid/duplicate mount target'')
     (ensure (g ''readOnly'' = JBool (target \<notin> set (map js [''/workspace'', ''/work''])))
        (x_err ''mount read-only policy mismatch'')
        (Inr (targets @ [target]))))))"

definition validate_mounts :: "jsval \<Rightarrow> jstring list res" where
  "validate_mounts v =
     ensure (is_arr v \<and> length (arr_of v) \<le> 6) (x_err ''invalid mounts'')
     (bindR (foldR validate_mount [] (arr_of v)) (\<lambda>targets.
      ensure (list_all (\<lambda>t. js t \<in> set targets) [''/input'', ''/workspace'', ''/work''])
        (x_err ''missing mount'') (Inr targets)))"

definition validate_gateway :: "fields \<Rightarrow> jstring list \<Rightarrow> unit res" where
  "validate_gateway r targets =
     (let gateway = fget r (js ''gateway'') in
      if fget r (js ''kind'') = JStr (js ''proposal'') then
        ensure (gateway \<noteq> JUndef \<and> js ''/gateway'' \<in> set targets) (x_err ''proposal requires action gateway'')
        (bindR (assertExact gateway [''route'', ''authorization''] []) (\<lambda>_.
         bindR (validateRef (fget (obj_of gateway) (js ''route''))) (\<lambda>_.
         validateRef (fget (obj_of gateway) (js ''authorization'')))))
      else ensure (gateway = JUndef \<and> js ''/gateway'' \<notin> set targets)
             (x_err ''validator/test must not mount gateway'') (Inr ()))"

definition SPEC_FIELDS :: "string list" where
  "SPEC_FIELDS = [''protocol'', ''runId'', ''actionId'', ''attemptId'', ''executionId'', ''kind'', ''image'', ''policy'',
     ''inputs'', ''reservation'', ''command'', ''mounts'', ''limits'', ''deadlineUtc'', ''maxElapsedMs'']"

definition validateExecutionSpec :: "jsval \<Rightarrow> fields res" where
  "validateExecutionSpec v =
     (let r = obj_of v; g = (\<lambda>f. fget r (js f)) in
      bindR (assertExact v SPEC_FIELDS [''parentExecutionId'', ''gateway'']) (\<lambda>_.
      ensure (g ''protocol'' = JStr EXECUTION_PROTOCOL) (x_err ''unsupported execution protocol'')
     (ensure (list_all (\<lambda>k. g k = JUndef \<or> is_str (g k) \<and> IDENTITY (str_of (g k))) IDENTITY_FIELDS)
        (x_err ''invalid identity'')
     (ensure (to_string (g ''kind'') \<in> set KINDS) (x_err ''invalid kind'')
     (bindR (validate_image (g ''image'')) (\<lambda>_.
      bindR (validateRef (g ''policy'')) (\<lambda>_.
      bindR (validateRef (g ''reservation'')) (\<lambda>_.
      bindR (validate_inputs (g ''inputs'')) (\<lambda>_.
      bindR (validate_command (g ''command'')) (\<lambda>_.
      ensure (is_str (g ''deadlineUtc'') \<and> isValidCanonicalTimestamp (str_of (g ''deadlineUtc'')))
        (x_err ''invalid deadlineUtc'')
     (bindR (positive_number (g ''maxElapsedMs'')) (\<lambda>_.
      bindR (validate_limits (g ''limits'')) (\<lambda>_.
      bindR (validate_mounts (g ''mounts'')) (\<lambda>targets.
      bindR (validate_gateway r targets) (\<lambda>_. Inr r)))))))))))))))"

definition executionName :: "(jstring \<Rightarrow> jstring) \<Rightarrow> fields \<Rightarrow> jstring res" where
  "executionName sha r =
     (let g = (\<lambda>f. fget r (js f)) in
      bindR (canonicalJson (JArr [g ''runId'', g ''actionId'', g ''attemptId'', g ''executionId''])) (\<lambda>t.
        Inr (js ''dsh-'' @ to_string (g ''kind'') @ js ''-'' @ take 32 (sha t))))"

section \<open>A concrete specification\<close>

definition sample_ref :: jsval where
  "sample_ref = JObj [(js ''algorithm'', JStr (js ''sha256'')), (js ''digest'', JStr (replicate 64 (digit 0))),
     (js ''label'', JStr (js ''PUBLIC_SPEC'')), (js ''mediaType'', JStr (js ''text/plain'')), (js ''size'', JNum 1)]"

definition sample_mount :: "string \<Rightarrow> bool \<Rightarrow> jsval" where
  "sample_mount t ro = JObj [(js ''source'', JStr (js ''/srv/a'')), (js ''target'', JStr (js t)), (js ''readOnly'', JBool ro)]"

definition sample_limits :: jsval where
  "sample_limits = JObj (map (\<lambda>k. (js k, JNum 2)) COUNT_LIMITS
     @ map (\<lambda>k. (js k, JObj [(js ''bytes'', JNum 3), (js ''inodes'', JNum 4)])) SPACE_LIMITS)"

definition sample_image :: jsval where
  "sample_image = JObj [(js ''reference'', JStr (js ''img@sha256:'' @ replicate 64 (digit 0))),
     (js ''id'', JStr (js ''sha256:'' @ replicate 64 (digit 0))), (js ''platform'', JStr (js ''linux/amd64''))]"

definition sample_command :: jsval where
  "sample_command = JArr [JStr (js ''/input/capsule/runtime/node''), JStr (js ''/input/capsule/runner/x.js'')]"

definition sample_mounts :: jsval where
  "sample_mounts = JArr [sample_mount ''/input'' True, sample_mount ''/workspace'' False, sample_mount ''/work'' False]"

definition sample_spec :: "string \<Rightarrow> fields" where
  "sample_spec i =
     [(js ''protocol'', JStr EXECUTION_PROTOCOL), (js ''runId'', JStr (js ''r'')), (js ''actionId'', JStr (js ''a'')),
      (js ''attemptId'', JStr (js ''t'')), (js ''executionId'', JStr (js i)), (js ''kind'', JStr (js ''test'')),
      (js ''image'', sample_image), (js ''policy'', sample_ref), (js ''inputs'', JArr [sample_ref]),
      (js ''reservation'', sample_ref), (js ''command'', sample_command), (js ''mounts'', sample_mounts),
      (js ''limits'', sample_limits), (js ''deadlineUtc'', JStr (js ''2026-01-02T03:04:05.678Z'')),
      (js ''maxElapsedMs'', JNum 1000)]"

lemma sample_limits_ok: "validate_limits sample_limits = Inr ()"
  by (simp add: validate_limits_def sample_limits_def assertExact_def has_key_def COUNT_LIMITS_def SPACE_LIMITS_def
      positive_number_def safe_int_def max_safe_def)

lemma sample_parts:
  "validate_image sample_image = Inr ()" "validateRef sample_ref = Inr ()" "validate_inputs (JArr [sample_ref]) = Inr ()"
  "validate_command sample_command = Inr ()"
  "validate_mounts sample_mounts = Inr (map js [''/input'', ''/workspace'', ''/work''])"
  "isValidCanonicalTimestamp (js ''2026-01-02T03:04:05.678Z'')" "positive_number (JNum 1000) = Inr ()"
  by code_simp+

lemma sample_spec_valid:
  assumes "IDENTITY (js i)"
  shows "validateExecutionSpec (JObj (sample_spec i)) = Inr (sample_spec i)"
proof -
  have "assertExact (JObj (sample_spec i)) SPEC_FIELDS [''parentExecutionId'', ''gateway''] = Inr ()"
    by (simp add: assertExact_def sample_spec_def SPEC_FIELDS_def has_key_def)
  moreover have "IDENTITY (js ''r'')" "IDENTITY (js ''a'')" "IDENTITY (js ''t'')" by code_simp+
  moreover have "js ''test'' \<in> set KINDS" by (simp add: KINDS_def)
  moreover have "validate_gateway (sample_spec i) (map js [''/input'', ''/workspace'', ''/work'']) = Inr ()"
    by (simp add: validate_gateway_def sample_spec_def)
  ultimately show ?thesis
    using sample_parts sample_limits_ok assms
    by (simp add: validateExecutionSpec_def Let_def IDENTITY_FIELDS_def) (simp add: sample_spec_def)
qed

end
