(* ===== verification/Admission.thy ===== *)
theory Admission
  imports ExecSpec
begin

text \<open>
  Model of \<open>ResourceAdmission\<close> of \<^verbatim>\<open>packages/dsh-evolve-le/src/execution/resources.ts\<close>: the
  in-memory pools executions draw from. Sums are the language's sums of doubles. The readers of
  cgroup files and of the boot clock in the same file are not modelled.
\<close>

datatype resource = Slots | MemoryBytes | CpuMillis | Pids | SpaceBytes | Inodes

definition RESOURCES :: "resource list" where
  "RESOURCES = [Slots, MemoryBytes, CpuMillis, Pids, SpaceBytes, Inodes]"

definition resource_name :: "resource \<Rightarrow> string" where
  "resource_name r = (case r of Slots \<Rightarrow> ''slots'' | MemoryBytes \<Rightarrow> ''memoryBytes'' | CpuMillis \<Rightarrow> ''cpuMillis''
     | Pids \<Rightarrow> ''pids'' | SpaceBytes \<Rightarrow> ''bytes'' | Inodes \<Rightarrow> ''inodes'')"

type_synonym demand = "resource \<Rightarrow> int"

record reservation =
  rv_specDigest :: jstring
  rv_kind :: jsval
  rv_demand :: demand

record admission =
  ad_pools :: fields
  ad_active :: "reservation dict"

definition new_admission :: "jsval \<Rightarrow> admission res" where
  "new_admission pools =
     ensure (list_all (\<lambda>(_, cap). list_all (\<lambda>(_, v). is_safe_number v \<and> 0 < num_of v) (obj_of cap)) (obj_of pools))
       (x_err ''invalid host capacity'')
       (Inr \<lparr>ad_pools = obj_of pools, ad_active = []\<rparr>)"

text \<open>\<open>===\<close> on the values of a field: two objects read from two texts are never the same object.\<close>

definition js_same :: "jsval \<Rightarrow> jsval \<Rightarrow> bool" where
  "js_same v w \<longleftrightarrow> v = w \<and> \<not> is_object v \<and> v \<noteq> JBad NonFinite \<and> v \<noteq> JOther"

definition limit_num :: "fields \<Rightarrow> string \<Rightarrow> int" where
  "limit_num l f = num_of (fget l (js f))"

definition space_sum :: "fields \<Rightarrow> string \<Rightarrow> int" where
  "space_sum l f = fold (\<lambda>k a. js_add a (limit_num (obj_of (fget l (js k))) f)) SPACE_LIMITS 0"

definition demand_of :: "fields \<Rightarrow> demand" where
  "demand_of spec = (let l = obj_of (fget spec (js ''limits'')) in
     (\<lambda>r. case r of
        Slots \<Rightarrow> 1
      | MemoryBytes \<Rightarrow> js_add (limit_num l ''memoryBytes'') (space_sum l ''bytes'')
      | CpuMillis \<Rightarrow> limit_num l ''cpuMillis''
      | Pids \<Rightarrow> limit_num l ''pids''
      | SpaceBytes \<Rightarrow> space_sum l ''bytes''
      | Inodes \<Rightarrow> space_sum l ''inodes''))"

definition totals_with :: "admission \<Rightarrow> fields \<Rightarrow> demand" where
  "totals_with a spec =
     fold (\<lambda>(_, rv) t. if js_same (rv_kind rv) (fget spec (js ''kind'')) then (\<lambda>r. js_add (t r) (rv_demand rv r)) else t)
       (ad_active a) (demand_of spec)"

text \<open>\<open>total > limit\<close>, which is false when the limit is missing.\<close>

definition over_limit :: "jsval \<Rightarrow> int \<Rightarrow> bool" where
  "over_limit limit amount = (case limit of JNum n \<Rightarrow> n < amount | _ \<Rightarrow> False)"

definition execution_id :: "fields \<Rightarrow> jstring" where
  "execution_id spec = str_of (fget spec (js ''executionId''))"

definition reserve :: "(jstring \<Rightarrow> jstring) \<Rightarrow> admission \<Rightarrow> fields \<Rightarrow> (admission \<times> bool) res" where
  "reserve sha a spec =
     bindR (canonicalHash sha (JObj spec)) (\<lambda>digest.
       case map_of (ad_active a) (execution_id spec) of
         Some e \<Rightarrow> ensure (rv_specDigest e = digest) (x_err ''resource reservation identity drift'') (Inr (a, True))
       | None \<Rightarrow>
           (case map_of (ad_pools a) (to_string (fget spec (js ''kind''))) of
              None \<Rightarrow> Inl (PlainError, ''pool is undefined'')
            | Some cap \<Rightarrow>
                (let totals = totals_with a spec in
                 if list_ex (\<lambda>r. \<not> safe_int (totals r)
                      \<or> over_limit (fget (obj_of cap) (js (resource_name r))) (totals r)) RESOURCES
                 then Inr (a, False)
                 else Inr (a\<lparr>ad_active := AList.update (execution_id spec)
                        \<lparr>rv_specDigest = digest, rv_kind = fget spec (js ''kind''), rv_demand = demand_of spec\<rparr>
                        (ad_active a)\<rparr>, True))))"

definition release :: "admission \<Rightarrow> jstring \<Rightarrow> admission" where
  "release a executionId = a\<lparr>ad_active := AList.delete executionId (ad_active a)\<rparr>"

section \<open>What is in use\<close>

text \<open>The demand of a resource over the active reservations of one kind.\<close>

definition in_use :: "reservation dict \<Rightarrow> jstring \<Rightarrow> resource \<Rightarrow> int" where
  "in_use active k r = sum_list (map (\<lambda>(_, rv). if rv_kind rv = JStr k then rv_demand rv r else 0) active)"

definition fits_pools :: "fields \<Rightarrow> reservation dict \<Rightarrow> bool" where
  "fits_pools pools active \<longleftrightarrow>
     (\<forall>k cap r n. map_of pools k = Some cap \<longrightarrow> fget (obj_of cap) (js (resource_name r)) = JNum n \<longrightarrow>
        0 < n \<longrightarrow> in_use active k r \<le> n)"

definition admission_ok :: "admission \<Rightarrow> bool" where
  "admission_ok a \<longleftrightarrow> fits_pools (ad_pools a) (ad_active a)
     \<and> (\<forall>(_, rv)\<in>set (ad_active a). \<forall>r. 0 \<le> rv_demand rv r)"

lemma in_use_simps [simp]:
  "in_use [] k r = 0" "in_use (p # ps) k r = (if rv_kind (snd p) = JStr k then rv_demand (snd p) r else 0) + in_use ps k r"
  "in_use (ps @ qs) k r = in_use ps k r + in_use qs k r"
  by (simp_all add: in_use_def split_beta)

lemma all_resources: "r \<in> set RESOURCES"
  by (cases r) (simp_all add: RESOURCES_def)

lemma js_same_string [simp]: "js_same v (JStr k) \<longleftrightarrow> v = JStr k"
  by (auto simp: js_same_def)

lemma fold_add_safe:
  fixes t :: demand
  assumes "\<forall>(_, rv)\<in>set active. \<forall>r. 0 \<le> rv_demand rv r" "0 \<le> t r"
    and "fold (\<lambda>(_, rv) t. if rv_kind rv = JStr k then (\<lambda>r. js_add (t r) (rv_demand rv r)) else t) active t r \<le> max_safe"
  shows "fold (\<lambda>(_, rv) t. if rv_kind rv = JStr k then (\<lambda>r. js_add (t r) (rv_demand rv r)) else t) active t r
      = t r + in_use active k r \<and> t r + in_use active k r \<le> max_safe"
  using assms
proof (induction active arbitrary: t)
  case Nil
  then show ?case by simp
next
  case (Cons p active)
  obtain i rv where p: "p = (i, rv)" by (cases p)
  have nn: "0 \<le> rv_demand rv r" using Cons.prems(1) by (simp add: p)
  show ?case
  proof (cases "rv_kind rv = JStr k")
    case True
    let ?t = "\<lambda>r. js_add (t r) (rv_demand rv r)"
    have t: "0 \<le> ?t r" using Cons.prems(2) nn by (rule js_add_nonneg)
    have act: "\<forall>(_, rv)\<in>set active. \<forall>r. 0 \<le> rv_demand rv r" using Cons.prems(1) by simp
    have le: "fold (\<lambda>(_, rv) t. if rv_kind rv = JStr k then (\<lambda>r. js_add (t r) (rv_demand rv r)) else t) active ?t r \<le> max_safe"
      using Cons.prems(3) True by (simp add: p)
    note ih = Cons.IH [OF act t le]
    have "0 \<le> in_use active k r"
      unfolding in_use_def using act by (intro sum_list_nonneg) auto
    with ih have "js_add (t r) (rv_demand rv r) \<le> max_safe" by simp
    from js_add_safe [OF Cons.prems(2) nn this] ih True show ?thesis by (simp add: p)
  next
    case False
    with Cons show ?thesis by (simp add: p)
  qed
qed

lemma demand_nonneg:
  assumes "validateExecutionSpec v = Inr spec"
  shows "0 \<le> demand_of spec r"
proof -
  let ?l = "obj_of (fget spec (js ''limits''))"
  from assms have ok: "validate_limits (fget spec (js ''limits'')) = Inr ()"
    by (auto simp: validateExecutionSpec_def Let_def bindR_Inr_iff ensure_Inr_iff)
  then have spaces: "0 \<le> limit_num (obj_of (fget ?l (js k))) ''bytes''" "0 \<le> limit_num (obj_of (fget ?l (js k))) ''inodes''"
    if "k \<in> set SPACE_LIMITS" for k
    using that by (force simp: validate_limits_def Let_def bindR_Inr_iff eachR_Inr_iff positive_number_def ensure_Inr_iff limit_num_def)+
  have counts: "0 \<le> limit_num ?l k" if "k \<in> set COUNT_LIMITS" for k
    using ok that by (force simp: validate_limits_def Let_def bindR_Inr_iff eachR_Inr_iff positive_number_def ensure_Inr_iff limit_num_def)
  have "0 \<le> fold (\<lambda>k a. js_add a (limit_num (obj_of (fget ?l (js k))) f)) ks a"
    if "0 \<le> a" "\<forall>k\<in>set ks. 0 \<le> limit_num (obj_of (fget ?l (js k))) f" for ks a f
    using that by (induction ks arbitrary: a) (auto intro: js_add_nonneg)
  then have "0 \<le> space_sum ?l ''bytes''" "0 \<le> space_sum ?l ''inodes''"
    using spaces unfolding space_sum_def by blast+
  moreover have "0 \<le> limit_num ?l ''memoryBytes''" "0 \<le> limit_num ?l ''cpuMillis''" "0 \<le> limit_num ?l ''pids''"
    using counts by (simp_all add: COUNT_LIMITS_def)
  ultimately show ?thesis by (cases r) (simp_all add: demand_of_def Let_def js_add_nonneg)
qed

text \<open>A new reservation that is admitted goes to the end of the list and fits in its pool.\<close>

lemma update_absent: "map_of d k = None \<Longrightarrow> AList.update k v d = d @ [(k, v)]"
  by (induction d) (auto split: if_splits)

lemma reserve_cases:
  assumes "reserve sha a spec = Inr (a', b)"
  shows "a' = a \<and> (b \<longrightarrow> map_of (ad_active a) (execution_id spec) \<noteq> None)
    \<or> b \<and> map_of (ad_active a) (execution_id spec) = None
      \<and> (\<exists>d cap. canonicalHash sha (JObj spec) = Inr d
          \<and> map_of (ad_pools a) (to_string (fget spec (js ''kind''))) = Some cap
          \<and> (\<forall>r. totals_with a spec r \<le> max_safe \<and> \<not> over_limit (fget (obj_of cap) (js (resource_name r))) (totals_with a spec r))
          \<and> a' = a\<lparr>ad_active := ad_active a @ [(execution_id spec,
                 \<lparr>rv_specDigest = d, rv_kind = fget spec (js ''kind''), rv_demand = demand_of spec\<rparr>)]\<rparr>)"
proof -
  from assms obtain d where d: "canonicalHash sha (JObj spec) = Inr d" by (auto simp: reserve_def bindR_Inr_iff)
  show ?thesis
  proof (cases "map_of (ad_active a) (execution_id spec)")
    case (Some e)
    with assms d show ?thesis by (auto simp: reserve_def ensure_Inr_iff)
  next
    case None
    with assms d obtain cap where cap: "map_of (ad_pools a) (to_string (fget spec (js ''kind''))) = Some cap"
      by (auto simp: reserve_def split: option.splits)
    let ?bad = "\<lambda>r. \<not> safe_int (totals_with a spec r)
      \<or> over_limit (fget (obj_of cap) (js (resource_name r))) (totals_with a spec r)"
    show ?thesis
    proof (cases "list_ex ?bad RESOURCES")
      case True
      with assms d None cap show ?thesis by (simp add: reserve_def Let_def)
    next
      case False
      then have "\<not> ?bad r" for r using all_resources [of r] by (auto simp: list_ex_iff)
      with assms d None cap False show ?thesis
        by (simp add: reserve_def Let_def update_absent safe_int_def)
    qed
  qed
qed

lemma reserve_ok:
  assumes "reserve sha a spec = Inr (a', b)" "admission_ok a" "validateExecutionSpec v = Inr spec"
  shows "admission_ok a' \<and> ad_pools a' = ad_pools a"
  using reserve_cases [OF assms(1)]
proof
  assume "a' = a \<and> (b \<longrightarrow> map_of (ad_active a) (execution_id spec) \<noteq> None)"
  with assms(2) show ?thesis by simp
next
  let ?kind = "fget spec (js ''kind'')"
  assume "b \<and> map_of (ad_active a) (execution_id spec) = None
      \<and> (\<exists>d cap. canonicalHash sha (JObj spec) = Inr d \<and> map_of (ad_pools a) (to_string ?kind) = Some cap
          \<and> (\<forall>r. totals_with a spec r \<le> max_safe \<and> \<not> over_limit (fget (obj_of cap) (js (resource_name r))) (totals_with a spec r))
          \<and> a' = a\<lparr>ad_active := ad_active a @ [(execution_id spec,
                 \<lparr>rv_specDigest = d, rv_kind = ?kind, rv_demand = demand_of spec\<rparr>)]\<rparr>)"
  then obtain d cap where cap: "map_of (ad_pools a) (to_string ?kind) = Some cap"
    and fit: "\<And>r. totals_with a spec r \<le> max_safe" "\<And>r. \<not> over_limit (fget (obj_of cap) (js (resource_name r))) (totals_with a spec r)"
    and a': "a' = a\<lparr>ad_active := ad_active a @ [(execution_id spec,
                 \<lparr>rv_specDigest = d, rv_kind = ?kind, rv_demand = demand_of spec\<rparr>)]\<rparr>" by blast
  have nn: "\<forall>(_, rv)\<in>set (ad_active a). \<forall>r. 0 \<le> rv_demand rv r" and w: "fits_pools (ad_pools a) (ad_active a)"
    using assms(2) by (simp_all add: admission_ok_def)
  note dn = demand_nonneg [OF assms(3)]
  have "in_use (ad_active a') k r \<le> n"
    if k: "map_of (ad_pools a) k = Some c" "fget (obj_of c) (js (resource_name r)) = JNum n" "0 < n" for k c r n
  proof (cases "?kind = JStr k")
    case True
    have "totals_with a spec r = demand_of spec r + in_use (ad_active a) k r"
      using fold_add_safe [where t = "demand_of spec" and r = r and k = k, OF nn dn] fit(1) [of r]
      unfolding totals_with_def True js_same_string by blast
    moreover have "totals_with a spec r \<le> n" using fit(2) [of r] cap k by (simp add: True over_limit_def)
    ultimately show ?thesis using True by (simp add: a')
  next
    case False
    then show ?thesis using w k by (simp add: a' fits_pools_def)
  qed
  with nn dn show ?thesis by (auto simp: admission_ok_def fits_pools_def a')
qed

lemma in_use_delete:
  assumes "\<forall>(_, rv)\<in>set active. \<forall>r. 0 \<le> rv_demand rv r"
  shows "in_use (AList.delete i active) k r \<le> in_use active k r"
  using assms by (induction active) (auto simp: AList.delete_eq intro: add_increasing)

lemma release_ok: "admission_ok a \<Longrightarrow> admission_ok (release a i)"
proof -
  assume a: "admission_ok a"
  then have nn: "\<forall>(_, rv)\<in>set (ad_active a). \<forall>r. 0 \<le> rv_demand rv r" by (simp add: admission_ok_def)
  have "fits_pools (ad_pools a) (AList.delete i (ad_active a))"
    using a in_use_delete [OF nn] unfolding admission_ok_def fits_pools_def by (meson order_trans)
  moreover have "\<forall>(_, rv)\<in>set (AList.delete i (ad_active a)). \<forall>r. 0 \<le> rv_demand rv r"
    using nn by (auto simp: AList.delete_eq)
  ultimately show ?thesis by (simp add: admission_ok_def release_def)
qed

text \<open>The operations a client may call, in any order; a refused or failed one leaves no trace.\<close>

datatype admission_op = Reserve_op fields | Release_op jstring

definition admission_step :: "(jstring \<Rightarrow> jstring) \<Rightarrow> admission_op \<Rightarrow> admission \<Rightarrow> admission" where
  "admission_step sha cmd a =
     (case cmd of
        Reserve_op spec \<Rightarrow> (case reserve sha a spec of Inr (a', _) \<Rightarrow> a' | Inl _ \<Rightarrow> a)
      | Release_op i \<Rightarrow> release a i)"

definition valid_op :: "admission_op \<Rightarrow> bool" where
  "valid_op cmd = (case cmd of Reserve_op spec \<Rightarrow> validateExecutionSpec (JObj spec) = Inr spec | Release_op _ \<Rightarrow> True)"

lemma admission_run_ok:
  assumes "new_admission pools = Inr a0" "\<forall>cmd\<in>set cmds. valid_op cmd"
  shows "admission_ok (fold (admission_step sha) cmds a0) \<and> ad_pools (fold (admission_step sha) cmds a0) = obj_of pools"
proof -
  have "admission_ok a0 \<and> ad_pools a0 = obj_of pools"
    using assms(1) by (auto simp: new_admission_def ensure_Inr_iff admission_ok_def fits_pools_def)
  moreover have "admission_ok (fold (admission_step sha) cmds a) \<and> ad_pools (fold (admission_step sha) cmds a) = ad_pools a"
    if "admission_ok a" for a
    using that assms(2)
  proof (induction cmds arbitrary: a)
    case (Cons cmd cmds)
    have "admission_ok (admission_step sha cmd a) \<and> ad_pools (admission_step sha cmd a) = ad_pools a"
      using Cons.prems reserve_ok release_ok
      by (auto simp: admission_step_def valid_op_def release_def split: admission_op.splits sum.splits)
    with Cons show ?case by simp
  qed simp
  ultimately show ?thesis by simp
qed

text \<open>
  C26: the host is never oversubscribed. After any sequence of
  reservations of valid specifications and releases, for every kind and every resource the sum of
  the demands of the active reservations of that kind is within the frozen capacity of its pool.
\<close>

theorem admission_within_capacity:
  assumes "new_admission (JObj pools) = Inr a0" "\<forall>cmd\<in>set cmds. valid_op cmd"
    and "map_of pools k = Some (JObj cap)" "fget cap (js (resource_name r)) = JNum n"
  shows "in_use (ad_active (fold (admission_step sha) cmds a0)) k r \<le> n"
proof -
  have "0 < n"
  proof -
    have "(k, JObj cap) \<in> set pools" "(js (resource_name r), JNum n) \<in> set cap"
      using assms(3,4) by (auto simp: fget_def dest: map_of_SomeD split: option.splits)
    with assms(1) show ?thesis by (fastforce simp: new_admission_def ensure_Inr_iff list_all_iff)
  qed
  with admission_run_ok [OF assms(1,2), of sha] assms(3,4) show ?thesis
    by (auto simp: admission_ok_def fits_pools_def)
qed

definition sample_pools :: fields where
  "sample_pools = [(js ''test'', JObj (map (\<lambda>r. (js (resource_name r), JNum 100)) RESOURCES))]"

lemma identity_e1: "IDENTITY (js ''e1'')"
  by code_simp

lemma admission_within_capacity_witness:
  "\<exists>a0. new_admission (JObj sample_pools) = Inr a0
    \<and> in_use (ad_active (fold (admission_step sample_sha) [Reserve_op (sample_spec ''e1''), Release_op (js ''e2'')] a0))
        (js ''test'') MemoryBytes \<le> 100"
proof -
  have a: "new_admission (JObj sample_pools) = Inr \<lparr>ad_pools = sample_pools, ad_active = []\<rparr>"
    by (simp add: new_admission_def sample_pools_def RESOURCES_def safe_int_def max_safe_def)
  have v: "\<forall>cmd\<in>set [Reserve_op (sample_spec ''e1''), Release_op (js ''e2'')]. valid_op cmd"
    using sample_spec_valid [OF identity_e1] by (simp add: valid_op_def)
  have p: "map_of sample_pools (js ''test'') = Some (JObj (map (\<lambda>r. (js (resource_name r), JNum 100)) RESOURCES))"
    by (simp add: sample_pools_def)
  have "fget (map (\<lambda>r. (js (resource_name r), JNum 100)) RESOURCES) (js (resource_name MemoryBytes)) = JNum 100"
    by (simp add: RESOURCES_def resource_name_def)
  from admission_within_capacity [OF a v p this, of sample_sha] a show ?thesis by blast
qed

text \<open>
  A kind that is a list of one string passes the validator, because \<open>String(kind)\<close> drops the list,
  but no two reservations of such a kind are ever added up.
\<close>

lemma list_kind_name: "to_string (JArr [JStr k]) = k"
  by simp

lemma list_kind_uncounted:
  assumes "fget spec (js ''kind'') = JArr vs"
  shows "totals_with a spec = demand_of spec"
proof -
  have "fold (\<lambda>(_, rv) t. if js_same (rv_kind rv) (JArr vs) then f rv t else t) active t = t" for active t f
    by (induction active) (auto simp: js_same_def)
  then show ?thesis by (simp add: totals_with_def assms)
qed

end
