(* ===== verification/AdmissionLedger.thy ===== *)
theory AdmissionLedger
  imports Admission
begin

text \<open>
  Model of \<^verbatim>\<open>packages/dsh-evolve-le/src/execution/reservation-ledger.ts\<close> (the transaction a
  supervisor runs under the ledger lock) and of the two file operations it uses from
  \<^verbatim>\<open>execution/evidence.ts\<close>. The registry is a directory: the frozen capacity and one directory
  per execution with a reserved and a released record. The lock, which serialises the
  transactions, and the spawning of the child process are not modelled; a transaction may be
  interrupted after it has created the directory of a new execution.
\<close>

record execution_dir =
  xd_reserved :: "jstring option"
  xd_released :: "jstring option"

record registry =
  rg_capacity :: "jstring option"
  rg_reservations :: "execution_dir dict"



definition ENOENT :: jserror where
  "ENOENT = (PlainError, ''ENOENT'')"

section \<open>Files\<close>

definition readCanonicalFile :: "jstring option \<Rightarrow> jsval res" where
  "readCanonicalFile file =
     (case file of
        None \<Rightarrow> Inl ENOENT
      | Some t \<Rightarrow> ensure (utf8_length t \<le> 16777216) (x_err ''invalid evidence file'') (parseCanonicalJson t))"

text \<open>The content of the file afterwards: what was written, or what was there and is the same value.\<close>

definition publishCanonical :: "jstring option \<Rightarrow> jsval \<Rightarrow> jstring res" where
  "publishCanonical file v =
     bindR (canonicalJson v) (\<lambda>bytes.
       case file of
         None \<Rightarrow> Inr bytes
       | Some t \<Rightarrow>
           bindR (readCanonicalFile file) (\<lambda>w.
           bindR (canonicalJson w) (\<lambda>current.
             ensure (current = bytes) (x_err ''no-clobber evidence conflict'') (Inr t))))"

section \<open>A transaction\<close>

definition dir_of :: "registry \<Rightarrow> jstring \<Rightarrow> execution_dir" where
  "dir_of rg i = (case map_of (rg_reservations rg) i of None \<Rightarrow> \<lparr>xd_reserved = None, xd_released = None\<rparr> | Some d \<Rightarrow> d)"

definition put_dir :: "registry \<Rightarrow> jstring \<Rightarrow> execution_dir \<Rightarrow> registry" where
  "put_dir rg i d = rg\<lparr>rg_reservations := AList.update i d (rg_reservations rg)\<rparr>"

definition release_record :: "registry \<Rightarrow> jstring \<Rightarrow> registry \<times> bool res" where
  "release_record rg i =
     (let d = dir_of rg i in
      case bindR (readCanonicalFile (xd_reserved d)) (\<lambda>_.
             publishCanonical (xd_released d) (JObj [(js ''executionId'', JStr i), (js ''released'', JBool True)])) of
        Inl e \<Rightarrow> (rg, Inl e)
      | Inr t \<Rightarrow> (put_dir rg i (d\<lparr>xd_released := Some t\<rparr>), Inr True))"

text \<open>One round of the loop over the records.\<close>

definition admit_record ::
  "(jstring \<Rightarrow> jstring) \<Rightarrow> admission \<Rightarrow> jstring \<times> execution_dir \<Rightarrow> admission res" where
  "admit_record sha a entry =
     (case entry of (_, d) \<Rightarrow>
        if xd_released d \<noteq> None then bindR (readCanonicalFile (xd_released d)) (\<lambda>_. Inr a)
        else
          bindR (readCanonicalFile (xd_reserved d)) (\<lambda>v.
          bindR (validateExecutionSpec v) (\<lambda>spec.
          bindR (reserve sha a spec) (\<lambda>(a', admitted).
            ensure admitted (x_err ''persisted reservations exceed frozen host capacity'') (Inr a')))))"

text \<open>A record of this execution exists: the answer is yes for the same specification that is not released.\<close>

definition confirm_record ::
  "(jstring \<Rightarrow> jstring) \<Rightarrow> execution_dir \<Rightarrow> fields \<Rightarrow> bool res" where
  "confirm_record sha d request =
     bindR (readCanonicalFile (xd_reserved d)) (\<lambda>previous.
     bindR (validateExecutionSpec previous) (\<lambda>spec.
     bindR (canonicalHash sha (JObj spec)) (\<lambda>a.
     bindR (canonicalHash sha (JObj request)) (\<lambda>b.
     ensure (a = b) (x_err ''resource reservation identity drift'')
       (case xd_released d of
          None \<Rightarrow> Inr True
        | Some t \<Rightarrow> bindR (readCanonicalFile (Some t)) (\<lambda>_.
                      Inl (x_err ''released execution identity cannot reserve again'')))))))"

definition admit_new ::
  "(jstring \<Rightarrow> jstring) \<Rightarrow> registry \<Rightarrow> jsval \<Rightarrow> fields \<Rightarrow> bool res" where
  "admit_new sha rg pools spec =
     bindR (new_admission pools) (\<lambda>a0.
     bindR (foldR (admit_record sha) a0 (sort_key fst (rg_reservations rg))) (\<lambda>a.
     bindR (reserve sha a spec) (\<lambda>(_, admitted). Inr admitted)))"

definition reserve_record ::
  "(jstring \<Rightarrow> jstring) \<Rightarrow> bool \<Rightarrow> registry \<Rightarrow> jsval \<Rightarrow> jstring \<Rightarrow> fields option \<Rightarrow> registry \<times> bool res" where
  "reserve_record sha interrupted rg pools i request =
     (case request of
        None \<Rightarrow> (rg, Inl (x_err ''invalid reservation spec''))
      | Some raw \<Rightarrow>
          if fget raw (js ''executionId'') \<noteq> JStr i then (rg, Inl (x_err ''invalid reservation spec''))
          else
            (case validateExecutionSpec (JObj raw) of
               Inl e \<Rightarrow> (rg, Inl e)
             | Inr spec \<Rightarrow>
                 let d = dir_of rg i in
                 if xd_reserved d \<noteq> None then (rg, confirm_record sha d spec)
                 else
                   (case admit_new sha rg pools spec of
                      Inl e \<Rightarrow> (rg, Inl e)
                    | Inr False \<Rightarrow> (rg, Inr False)
                    | Inr True \<Rightarrow>
                        (case publishCanonical None (JObj spec) of
                           Inl e \<Rightarrow> (rg, Inl e)
                         | Inr t \<Rightarrow>
                             if interrupted then (put_dir rg i d, Inl (PlainError, ''interrupted''))
                             else (put_dir rg i (d\<lparr>xd_reserved := Some t\<rparr>), Inr True)))))"


section \<open>What the registry has promised\<close>

definition record_spec :: "execution_dir \<Rightarrow> fields res" where
  "record_spec d = bindR (readCanonicalFile (xd_reserved d)) validateExecutionSpec"

text \<open>What an unreleased record takes from the pool of a kind.\<close>

definition taken :: "jstring \<Rightarrow> resource \<Rightarrow> execution_dir \<Rightarrow> int" where
  "taken k r d =
     (if xd_released d \<noteq> None then 0
      else case record_spec d of
             Inl _ \<Rightarrow> 0
           | Inr spec \<Rightarrow> if fget spec (js ''kind'') = JStr k then demand_of spec r else 0)"

definition recorded_use :: "registry \<Rightarrow> jstring \<Rightarrow> resource \<Rightarrow> int" where
  "recorded_use rg k r = sum_list (map (taken k r \<circ> snd) (rg_reservations rg))"

definition names_ok :: "execution_dir dict \<Rightarrow> bool" where
  "names_ok ds \<longleftrightarrow> distinct (map fst ds) \<and> (\<forall>(i, d)\<in>set ds. \<forall>spec. record_spec d = Inr spec \<longrightarrow> execution_id spec = i)"








section \<open>Transactions keep the promise\<close>

definition registry_ok :: "fields \<Rightarrow> registry \<Rightarrow> bool" where
  "registry_ok pools rg \<longleftrightarrow> names_ok (rg_reservations rg)
     \<and> (\<forall>k cap r n. map_of pools k = Some (JObj cap) \<longrightarrow> fget cap (js (resource_name r)) = JNum n \<longrightarrow> 0 < n \<longrightarrow>
          recorded_use rg k r \<le> n)"

lemma registry_ok_capacity [simp]: "registry_ok pools (rg\<lparr>rg_capacity := c\<rparr>) \<longleftrightarrow> registry_ok pools rg"
  by (simp add: registry_ok_def recorded_use_def)

lemma dir_of_capacity [simp]: "dir_of (rg\<lparr>rg_capacity := c\<rparr>) i = dir_of rg i"
  by (simp add: dir_of_def)















section \<open>An interrupted reservation\<close>

lemma foldR_stuck:
  assumes "x \<in> set xs" "\<And>s. \<exists>e. f s x = Inl e"
  shows "\<exists>e. foldR f s xs = Inl e"
  using assms(1)
proof (induction xs arbitrary: s)
  case (Cons y xs)
  show ?case
  proof (cases "f s y")
    case (Inr t)
    with assms(2) [of s] have "x \<noteq> y" by auto
    with Cons have "\<exists>e. foldR f t xs = Inl e" by simp
    with Inr show ?thesis by simp
  qed simp
qed simp

text \<open>
  A transaction that stops between creating the directory of an execution and writing its record
  leaves a directory without a record; from then on every reservation of an execution that has no
  record yet fails, the interrupted one included, and releasing it fails too.
\<close>

lemma interrupted_reservation_blocks:
  assumes "(i, d) \<in> set (rg_reservations rg)" "xd_reserved d = None" "xd_released d = None"
    and "dir_of rg i = d"
  shows "xd_reserved (dir_of rg j) = None \<Longrightarrow> \<exists>e. snd (reserve_record sha c rg pools j request) = Inl e"
    "\<exists>e. snd (release_record rg i) = Inl e"
proof -
  have "\<exists>e. admit_record sha a (i, d) = Inl e" for a
    using assms by (simp add: admit_record_def readCanonicalFile_def)
  moreover have "(i, d) \<in> set (sort_key fst (rg_reservations rg))" using assms(1) by simp
  ultimately have f: "\<exists>e. foldR (admit_record sha) a (sort_key fst (rg_reservations rg)) = Inl e" for a
    by (intro foldR_stuck)
  have adm: "\<exists>e. admit_new sha rg pools spec = Inl e" for spec
  proof (cases "new_admission pools")
    case (Inr a0)
    with f [of a0] show ?thesis by (auto simp: admit_new_def)
  qed (simp add: admit_new_def)
  show "xd_reserved (dir_of rg j) = None \<Longrightarrow> \<exists>e. snd (reserve_record sha c rg pools j request) = Inl e"
  proof -
    assume new: "xd_reserved (dir_of rg j) = None"
    obtain e where "admit_new sha rg pools spec = Inl (e spec)" for spec using adm by metis
    with new show ?thesis by (simp add: reserve_record_def Let_def split: option.splits sum.splits)
  qed
  show "\<exists>e. snd (release_record rg i) = Inl e"
    using assms by (simp add: release_record_def Let_def readCanonicalFile_def)
qed

end
