(* ===== verification/SealedPlan.thy ===== *)
theory SealedPlan
  imports Rng
begin

text \<open>
  Model of \<^verbatim>\<open>packages/dsh-evolve-le/src/sealed/plan.ts\<close>: the plan that fixes every sealed
  trial before a champion is known. A plan is a JavaScript value, because the validator takes an
  unknown one; the generator builds such a value. The generator and the verifier draw a permutation,
  so they are \<open>None\<close> where the rejection loop of the draw does not return.
\<close>

section \<open>The plan\<close>

definition SEALED_PLAN_PROTOCOL :: jstring where
  "SEALED_PLAN_PROTOCOL = js ''dsh-evolve-le/sealed-plan/v1''"

definition SEALED_ANALYSIS_DEFAULTS :: fields where
  "SEALED_ANALYSIS_DEFAULTS =
     [(js ''ciResamples'', JNum 100000), (js ''ciPercentilePerMille'', JNum 25),
      (js ''ciUpperPercentilePerMille'', JNum 975), (js ''ciCounterLower'', JNum 0),
      (js ''ciCounterUpper'', JNum 1)]"

datatype side = Baseline | Champion

fun side_name :: "side \<Rightarrow> jstring" where
  "side_name Baseline = js ''baseline''"
| "side_name Champion = js ''champion''"

record trial_cell =
  tc_index :: int
  tc_taskId :: jstring
  tc_attempt :: int
  tc_side :: side
  tc_seed :: jstring

definition cell_value :: "trial_cell \<Rightarrow> jsval" where
  "cell_value c = JObj
     [(js ''index'', JNum (tc_index c)), (js ''taskId'', JStr (tc_taskId c)),
      (js ''attempt'', JNum (tc_attempt c)), (js ''side'', JStr (side_name (tc_side c))),
      (js ''seed'', JStr (tc_seed c))]"

text \<open>Reading a cell the validator has accepted.\<close>

definition cell_of :: "jsval \<Rightarrow> trial_cell" where
  "cell_of v = (let g = (\<lambda>f. fget (obj_of v) (js f)) in
     \<lparr>tc_index = num_of (g ''index''), tc_taskId = str_of (g ''taskId''),
      tc_attempt = num_of (g ''attempt''),
      tc_side = (if g ''side'' = JStr (js ''baseline'') then Baseline else Champion),
      tc_seed = str_of (g ''seed'')\<rparr>)"

record sealed_plan_input =
  spi_runId :: jsval
  spi_masterSeed :: jsval
  spi_baselineId :: jsval
  spi_taskIds :: "jsval list"
  spi_kSealed :: jsval
  spi_budget :: jsval

text \<open>The members of a plan document, read as the code reads them.\<close>

definition plan_field :: "jsval \<Rightarrow> string \<Rightarrow> jsval" where
  "plan_field plan f = fget (obj_of plan) (js f)"

definition plan_taskIds :: "jsval \<Rightarrow> jstring list" where
  "plan_taskIds plan = map str_of (arr_of (plan_field plan ''taskIds''))"

definition plan_trials :: "jsval \<Rightarrow> jsval list" where
  "plan_trials plan = arr_of (plan_field plan ''trials'')"

definition plan_order :: "jsval \<Rightarrow> jsval list" where
  "plan_order plan =
     arr_of (fget (obj_of (fget (obj_of (plan_field plan ''orderReceipt'')) (js ''result''))) (js ''order''))"

definition plan_description :: "jsval \<Rightarrow> jsval \<Rightarrow> jsval \<Rightarrow> jsval \<Rightarrow> jsval" where
  "plan_description runId baselineId taskIds kSealed = JObj
     [(js ''protocol'', JStr SEALED_PLAN_PROTOCOL), (js ''runId'', runId),
      (js ''baselineId'', baselineId), (js ''taskIds'', taskIds), (js ''kSealed'', kSealed)]"

section \<open>Validation\<close>

definition plan_err :: "string \<Rightarrow> jserror" where
  "plan_err m = (PlainError, ''sealed plan: '' @ m)"

definition bad_plan :: "string \<Rightarrow> jserror" where
  "bad_plan m = plan_err (''invalid plan: '' @ m)"

text \<open>\<open>try { ... } catch (error) { fail(error.message) }\<close>.\<close>

definition refail :: "'a res \<Rightarrow> 'a res" where
  "refail m = (case m of Inl e \<Rightarrow> Inl (bad_plan (snd e)) | Inr a \<Rightarrow> Inr a)"

definition validateBudgetShape :: "jsval \<Rightarrow> string \<Rightarrow> unit res" where
  "validateBudgetShape budget ctx =
     (let g = (\<lambda>f. fget (obj_of budget) (js f)) in
      ensure (is_object budget \<and> is_safe_number (g ''wallClockMinutes'') \<and> 1 \<le> num_of (g ''wallClockMinutes''))
        (PlainError, ctx @ '': wallClockMinutes must be a positive safe integer'')
     (ensure (is_safe_number (g ''usdMicros'') \<and> 0 \<le> num_of (g ''usdMicros''))
        (PlainError, ctx @ '': usdMicros must be a non-negative safe integer'')
     (ensure (is_safe_number (g ''solverTokens'') \<and> 0 \<le> num_of (g ''solverTokens''))
        (PlainError, ctx @ '': solverTokens must be a non-negative safe integer'') (Inr ()))))"

text \<open>A cell's place in the enumeration: by task, then attempt, then side.\<close>

definition positionOf :: "jstring list \<Rightarrow> int \<Rightarrow> trial_cell \<Rightarrow> int" where
  "positionOf taskIds kSealed cell =
     (index_of (tc_taskId cell) taskIds * kSealed + (tc_attempt cell - 1)) * 2
       + (if tc_side cell = Baseline then 0 else 1)"

definition hex8 :: "jstring \<Rightarrow> bool" where
  "hex8 s \<longleftrightarrow> length s = 8 \<and> list_all is_lower_hex s"

definition plan_trial_count :: "jsval \<Rightarrow> int" where
  "plan_trial_count plan =
     js_mul (js_mul (num_of (plan_field plan ''taskCount'')) (num_of (plan_field plan ''kSealed''))) 2"

definition validate_parameters :: "jsval \<Rightarrow> unit res" where
  "validate_parameters plan =
     (let g = plan_field plan; ids = arr_of (g ''taskIds''); trials = plan_trial_count plan in
      ensure (is_object plan) (bad_plan ''plan must be an object'')
     (ensure (g ''protocol'' = JStr SEALED_PLAN_PROTOCOL) (bad_plan ''wrong protocol'')
     (ensure (eq_num (g ''schemaVersion'') 1) (bad_plan ''schemaVersion must be 1'')
     (ensure (is_nonempty_str (g ''runId'')) (bad_plan ''runId must be non-empty'')
     (ensure (is_nonempty_str (g ''baselineId'')) (bad_plan ''baselineId must be non-empty'')
     (ensure (is_str (g ''seedCommitment'') \<and> hex64 (str_of (g ''seedCommitment'')))
        (bad_plan ''seedCommitment must be 64-hex'')
     (ensure (is_arr (g ''taskIds'') \<and> ids \<noteq> []) (bad_plan ''taskIds must be non-empty'')
     (ensure (list_all is_nonempty_str ids) (bad_plan ''taskIds must be non-empty strings'')
     (ensure (distinct ids) (bad_plan ''taskIds must be unique'')
     (ensure (eq_num (g ''taskCount'') (int (length ids))) (bad_plan ''taskCount must equal taskIds.length'')
     (ensure (is_safe_number (g ''kSealed'') \<and> 1 \<le> num_of (g ''kSealed''))
        (bad_plan ''kSealed must be a positive safe integer'')
     (ensure (eq_num (g ''seedCounterStart'') (js_add trials 1)) (bad_plan ''seedCounterStart must be trials + 1'')
     (ensure (is_arr (g ''trials'') \<and> int (length (plan_trials plan)) = trials) (bad_plan ''trial count'')
     (Inr ()))))))))))))))"

text \<open>
  \<open>[...order].sort((a, b) => a - b).every((value, index) => value === index)\<close>: no arrangement of a
  list passes unless all its elements are numbers, and then the sort is the numerical one.
\<close>

definition sorts_to_range :: "jsval list \<Rightarrow> bool" where
  "sorts_to_range xs \<longleftrightarrow> list_all is_safe_number xs \<and> sort (map num_of xs) = map int [0..<length xs]"

definition validate_order :: "(jstring \<Rightarrow> jstring) \<Rightarrow> jsval \<Rightarrow> unit res" where
  "validate_order sha plan =
     (let g = plan_field plan; receipt = obj_of (g ''orderReceipt''); result = fget receipt (js ''result'');
          order = fget (obj_of result) (js ''order'') in
      bindR (refail (validateRngReceipt (g ''orderReceipt''))) (\<lambda>_.
      ensure (fget receipt (js ''stream'') = JStr (js ''sealed-plan''))
        (bad_plan ''orderReceipt stream must be sealed-plan'')
     (ensure (eq_num (fget receipt (js ''counter'')) 1) (bad_plan ''orderReceipt counter must be 1'')
     (bindR (hashDrawInput sha (plan_description (g ''runId'') (g ''baselineId'') (g ''taskIds'') (g ''kSealed''))) (\<lambda>h.
      ensure (fget receipt (js ''inputHash'') = JStr h)
        (bad_plan ''orderReceipt inputHash does not bind the plan parameters'')
     (ensure (result \<noteq> JNull \<and> result \<noteq> JUndef) (PlainError, ''TypeError'')
     (ensure (is_arr order \<and> int (length (arr_of order)) = plan_trial_count plan \<and> sorts_to_range (arr_of order))
        (bad_plan ''orderReceipt result must be a permutation of the trial range'') (Inr ()))))))))"

text \<open>One round of the loop over the cells; the state is the set of keys seen, in insertion order.\<close>

definition cell_key :: "jsval \<Rightarrow> jstring" where
  "cell_key cell = (let g = (\<lambda>f. fget (obj_of cell) (js f)) in
     to_string (g ''taskId'') @ 0 # to_string (g ''attempt'') @ 0 # to_string (g ''side''))"

definition validate_cell :: "jsval \<Rightarrow> jstring list \<Rightarrow> jsval \<Rightarrow> jstring list res" where
  "validate_cell plan seen cell =
     (let g = (\<lambda>f. fget (obj_of cell) (js f)); k = num_of (plan_field plan ''kSealed'');
          trials = plan_trial_count plan in
      ensure (cell \<noteq> JNull \<and> cell \<noteq> JUndef) (PlainError, ''TypeError'')
     (ensure (cell_key cell \<notin> set seen) (bad_plan ''duplicate cell'')
     (ensure (g ''taskId'' \<in> set (arr_of (plan_field plan ''taskIds''))) (bad_plan ''unknown taskId'')
     (ensure (is_safe_number (g ''attempt'') \<and> 1 \<le> num_of (g ''attempt'') \<and> num_of (g ''attempt'') \<le> k)
        (bad_plan ''cell attempt must be in 1..kSealed'')
     (ensure (g ''side'' = JStr (js ''baseline'') \<or> g ''side'' = JStr (js ''champion''))
        (bad_plan ''cell side must be valid'')
     (ensure (is_str (g ''seed'') \<and> hex8 (str_of (g ''seed''))) (bad_plan ''cell seed must be 8-hex'')
     (ensure (is_safe_number (g ''index'') \<and> 0 \<le> num_of (g ''index'') \<and> num_of (g ''index'') < trials)
        (bad_plan ''cell index must be in the trial range'')
     (ensure (num_of (g ''index'')
                = num_of (plan_order plan ! nat (positionOf (plan_taskIds plan) k (cell_of cell))))
        (bad_plan ''cell index does not match the order permutation'')
     (Inr (seen @ [cell_key cell]))))))))))"

definition validate_analysis :: "jsval \<Rightarrow> unit res" where
  "validate_analysis v =
     (let g = (\<lambda>f. fget (obj_of v) (js f)); lower = g ''ciPercentilePerMille''; upper = g ''ciUpperPercentilePerMille'' in
      ensure (is_object v) (bad_plan ''analysis must be an object'')
     (ensure (is_safe_number (g ''ciResamples'') \<and> 100000 \<le> num_of (g ''ciResamples''))
        (bad_plan ''ciResamples must be a safe integer >= 100000'')
     (ensure (is_safe_number lower \<and> 1 \<le> num_of lower \<and> num_of lower \<le> 500)
        (bad_plan ''ciPercentilePerMille must be an integer in 1..500'')
     (ensure (is_safe_number upper \<and> 501 \<le> num_of upper \<and> num_of upper \<le> 999)
        (bad_plan ''ciUpperPercentilePerMille must be an integer in 501..999'')
     (ensure (num_of lower < num_of upper) (bad_plan ''CI bounds must be ordered'')
     (eachR (\<lambda>counter. ensure (is_safe_number counter \<and> 0 \<le> num_of counter)
         (bad_plan ''CI counters must be non-negative'') (Inr ())) [g ''ciCounterLower'', g ''ciCounterUpper'']))))))"

definition validateSealedPlan :: "(jstring \<Rightarrow> jstring) \<Rightarrow> jsval \<Rightarrow> jsval res" where
  "validateSealedPlan sha plan =
     bindR (validate_parameters plan) (\<lambda>_.
     bindR (validate_order sha plan) (\<lambda>_.
     bindR (foldR (validate_cell plan) [] (plan_trials plan)) (\<lambda>seen.
     ensure (int (length seen) = plan_trial_count plan) (bad_plan ''cells do not cover the full trial population'')
     (bindR (validate_analysis (plan_field plan ''analysis'')) (\<lambda>_.
      bindR (refail (validateBudgetShape (plan_field plan ''budget'') ''sealed plan budget'')) (\<lambda>_.
      Inr plan))))))"

section \<open>Generation\<close>

text \<open>\<open>word.toString(16)\<close>.\<close>

fun hex_digits :: "int \<Rightarrow> jstring" where
  "hex_digits n = (if n < 16 then [hex_digit n] else hex_digits (n div 16) @ [hex_digit (n mod 16)])"

declare hex_digits.simps [simp del]

definition seed_text :: "32 word \<Rightarrow> jstring" where
  "seed_text word = pad_zero 8 (hex_digits (uint word))"

definition plan_draw :: "jstring \<Rightarrow> jstring \<Rightarrow> int \<Rightarrow> draw_input" where
  "plan_draw masterSeed runId counter =
     \<lparr>di_masterSeed = masterSeed, di_runId = runId, di_stream = js ''sealed-plan'', di_counter = counter\<rparr>"

text \<open>The three nested loops, and the cell pushed in each round.\<close>

definition slots :: "jstring list \<Rightarrow> nat \<Rightarrow> (jstring \<times> int \<times> side) list" where
  "slots taskIds kSealed =
     concat (map (\<lambda>taskId. concat (map (\<lambda>j. [(taskId, int (Suc j), Baseline), (taskId, int (Suc j), Champion)])
       [0..<kSealed])) taskIds)"

definition plan_cell ::
  "(jstring \<Rightarrow> jstring \<Rightarrow> 32 word) \<Rightarrow> jstring \<Rightarrow> jstring \<Rightarrow> int \<Rightarrow> int list \<Rightarrow> nat
   \<Rightarrow> jstring \<times> int \<times> side \<Rightarrow> trial_cell" where
  "plan_cell hmac masterSeed runId seedCounterStart order position slot =
     \<lparr>tc_index = order ! position, tc_taskId = fst slot, tc_attempt = fst (snd slot), tc_side = snd (snd slot),
      tc_seed = seed_text (hd (drawWords hmac
        (plan_draw masterSeed runId (seedCounterStart + int position)) 1))\<rparr>"

definition plan_cells ::
  "(jstring \<Rightarrow> jstring \<Rightarrow> 32 word) \<Rightarrow> jstring \<Rightarrow> jstring \<Rightarrow> int \<Rightarrow> jstring list \<Rightarrow> nat \<Rightarrow> int list
   \<Rightarrow> trial_cell list" where
  "plan_cells hmac masterSeed runId seedCounterStart taskIds kSealed order =
     map (\<lambda>(position, slot). plan_cell hmac masterSeed runId seedCounterStart order position slot)
       (enumerate 0 (slots taskIds kSealed))"

definition seed_commitment :: "(jstring \<Rightarrow> jstring) \<Rightarrow> jstring \<Rightarrow> jstring \<Rightarrow> jstring" where
  "seed_commitment sha masterSeed runId =
     sha (masterSeed @ js ''||'' @ runId @ js ''||'' @ SEALED_PLAN_PROTOCOL)"

definition check_plan_input :: "sealed_plan_input \<Rightarrow> unit res" where
  "check_plan_input i =
     ensure (is_nonempty_str (spi_runId i)) (plan_err ''runId must be a non-empty string'')
    (ensure (is_nonempty_str (spi_masterSeed i)) (plan_err ''masterSeed must be a non-empty string'')
    (ensure (is_nonempty_str (spi_baselineId i)) (plan_err ''baselineId must be a non-empty string'')
    (ensure (distinct (spi_taskIds i) \<and> spi_taskIds i \<noteq> [] \<and> list_all is_nonempty_str (spi_taskIds i))
       (plan_err ''taskIds must be unique non-empty strings'')
    (ensure (is_safe_number (spi_kSealed i) \<and> 1 \<le> num_of (spi_kSealed i))
       (plan_err ''kSealed must be a positive safe integer'')
    (validateBudgetShape (spi_budget i) ''sealed plan'')))))"

definition order_receipt :: "jstring \<Rightarrow> 32 word list \<Rightarrow> int list \<Rightarrow> jsval" where
  "order_receipt inputHash raw order = JObj
     [(js ''stream'', JStr (js ''sealed-plan'')), (js ''counter'', JNum 1),
      (js ''algorithm'', JStr RNG_ALGORITHM), (js ''inputHash'', JStr inputHash),
      (js ''raw'', JArr (map (\<lambda>w. JNum (uint w)) raw)),
      (js ''result'', JObj [(js ''order'', JArr (map JNum order))])]"

definition plan_document ::
  "(jstring \<Rightarrow> jstring \<Rightarrow> 32 word) \<Rightarrow> (jstring \<Rightarrow> jstring) \<Rightarrow> sealed_plan_input \<Rightarrow> int
   \<Rightarrow> int list \<Rightarrow> 32 word list \<Rightarrow> jstring \<Rightarrow> jsval" where
  "plan_document hmac sha i seedCounterStart order raw inputHash =
     (let seed = str_of (spi_masterSeed i); runId = str_of (spi_runId i);
          cells = plan_cells hmac seed runId seedCounterStart (map str_of (spi_taskIds i))
                    (nat (num_of (spi_kSealed i))) order in
      JObj
       [(js ''schemaVersion'', JNum 1), (js ''protocol'', JStr SEALED_PLAN_PROTOCOL),
        (js ''runId'', spi_runId i), (js ''seedCommitment'', JStr (seed_commitment sha seed runId)),
        (js ''baselineId'', spi_baselineId i), (js ''taskCount'', JNum (int (length (spi_taskIds i)))),
        (js ''taskIds'', JArr (spi_taskIds i)), (js ''kSealed'', spi_kSealed i),
        (js ''seedCounterStart'', JNum seedCounterStart), (js ''trials'', JArr (map cell_value cells)),
        (js ''orderReceipt'', order_receipt inputHash raw order),
        (js ''analysis'', JObj SEALED_ANALYSIS_DEFAULTS), (js ''budget'', JObj (obj_of (spi_budget i)))])"

text \<open>
  The permutation starts with \<open>Array.from({ length })\<close>, which throws for a length of \<open>2 ^ 32\<close> or
  more.
\<close>

definition generateSealedPlan ::
  "(jstring \<Rightarrow> jstring \<Rightarrow> 32 word) \<Rightarrow> (jstring \<Rightarrow> jstring) \<Rightarrow> sealed_plan_input \<Rightarrow> jsval res option" where
  "generateSealedPlan hmac sha i =
     (case check_plan_input i of
        Inl e \<Rightarrow> Some (Inl e)
      | Inr _ \<Rightarrow>
          let trials = js_mul (js_mul (int (length (spi_taskIds i))) (num_of (spi_kSealed i))) 2 in
          if 4294967295 < trials then Some (Inl (PlainError, ''RangeError: Invalid array length''))
          else (case permutationOf hmac (plan_draw (str_of (spi_masterSeed i)) (str_of (spi_runId i)) 1) (nat trials) of
             None \<Rightarrow> None
           | Some (order, raw) \<Rightarrow> Some (
               ensure (int (length raw) \<le> trials)
                 (plan_err ''order permutation consumed counters into the seed range'')
              (bindR (hashDrawInput sha (plan_description (spi_runId i) (spi_baselineId i)
                  (JArr (spi_taskIds i)) (spi_kSealed i))) (\<lambda>h.
               validateSealedPlan sha (plan_document hmac sha i (trials + 1) order raw h))))))"

section \<open>Verification against the master seed\<close>

definition verify_cell :: "(jstring \<Rightarrow> jstring \<Rightarrow> 32 word) \<Rightarrow> jsval \<Rightarrow> jstring \<Rightarrow> jsval \<Rightarrow> unit res" where
  "verify_cell hmac plan masterSeed cell =
     (let position = positionOf (plan_taskIds plan) (num_of (plan_field plan ''kSealed'')) (cell_of cell);
          word = hd (drawWords hmac (plan_draw masterSeed (str_of (plan_field plan ''runId''))
                   (num_of (plan_field plan ''seedCounterStart'') + position)) 1) in
      ensure (fget (obj_of cell) (js ''seed'') = JStr (seed_text word))
        (plan_err ''trial seed does not re-derive'') (Inr ()))"

definition verifySealedPlanDraws ::
  "(jstring \<Rightarrow> jstring \<Rightarrow> 32 word) \<Rightarrow> (jstring \<Rightarrow> jstring) \<Rightarrow> jsval \<Rightarrow> jstring \<Rightarrow> unit res option" where
  "verifySealedPlanDraws hmac sha plan masterSeed =
     (let runId = str_of (plan_field plan ''runId'');
          raw = arr_of (fget (obj_of (plan_field plan ''orderReceipt'')) (js ''raw'')) in
      case validateSealedPlan sha plan of
        Inl e \<Rightarrow> Some (Inl e)
      | Inr _ \<Rightarrow>
          if plan_field plan ''seedCommitment'' \<noteq> JStr (seed_commitment sha masterSeed runId)
          then Some (Inl (plan_err ''seed commitment does not match the master seed''))
          else (case permutationOf hmac (plan_draw masterSeed runId 1) (length (plan_trials plan)) of
             None \<Rightarrow> None
           | Some (order, words) \<Rightarrow> Some (
               ensure (map uint words = map num_of raw \<and> order = map num_of (plan_order plan))
                 (plan_err ''order receipt does not re-derive from the master seed'')
              (eachR (verify_cell hmac plan masterSeed) (plan_trials plan)))))"

section \<open>The enumeration\<close>

fun slot_pos :: "jstring list \<Rightarrow> int \<Rightarrow> jstring \<times> int \<times> side \<Rightarrow> int" where
  "slot_pos taskIds k (t, a, s) =
     (index_of t taskIds * k + (a - 1)) * 2 + (if s = Baseline then 0 else 1)"

definition slot_of :: "trial_cell \<Rightarrow> jstring \<times> int \<times> side" where
  "slot_of c = (tc_taskId c, tc_attempt c, tc_side c)"

lemma positionOf_slot: "positionOf taskIds k c = slot_pos taskIds k (slot_of c)"
  by (simp add: positionOf_def slot_of_def)

lemma set_slots: "(t, a, s) \<in> set (slots taskIds k) \<longleftrightarrow> t \<in> set taskIds \<and> 1 \<le> a \<and> a \<le> int k"
proof -
  have "(\<exists>j<k. a = 1 + int j) \<longleftrightarrow> 1 \<le> a \<and> a \<le> int k"
    by (auto intro!: exI [of _ "nat (a - 1)"])
  then show ?thesis by (cases s) (auto simp: slots_def)
qed

lemma slots_snoc: "slots (taskIds @ [t]) k =
    slots taskIds k @ concat (map (\<lambda>j. [(t, int (Suc j), Baseline), (t, int (Suc j), Champion)]) [0..<k])"
  by (simp add: slots_def)

lemma upt_int_append: "map int [0..<a + b] = map int [0..<a] @ map int [a..<a + b]"
  by (simp add: upt_add_eq_append [of 0 a b])

lemma block_positions:
  assumes "index_of t taskIds = int n"
  shows "map (slot_pos taskIds (int k))
      (concat (map (\<lambda>j. [(t, int (Suc j), Baseline), (t, int (Suc j), Champion)]) [0..<m]))
    = map int [2 * n * k..<2 * n * k + 2 * m]"
proof (induction m)
  case 0
  then show ?case by simp
next
  case (Suc m)
  have up: "[2 * n * k..<2 * n * k + 2 * Suc m] = [2 * n * k..<2 * n * k + 2 * m] @ [2 * n * k + 2 * m, 2 * n * k + 2 * m + 1]"
    by simp
  show ?case unfolding up using Suc.IH by (simp add: assms algebra_simps)
qed

lemma map_slot_pos:
  assumes "distinct taskIds"
  shows "map (slot_pos taskIds (int k)) (slots taskIds k) = map int [0..<2 * length taskIds * k]"
  using assms
proof (induction taskIds rule: rev_induct)
  case Nil
  then show ?case by (simp add: slots_def)
next
  case (snoc t ts)
  have "map (slot_pos (ts @ [t]) (int k)) (slots ts k) = map (slot_pos ts (int k)) (slots ts k)"
    using snoc.prems by (intro map_cong) (auto simp: set_slots index_of_append)
  also have "\<dots> = map int [0..<2 * length ts * k]" using snoc by simp
  finally have "map (slot_pos (ts @ [t]) (int k)) (slots ts k) = map int [0..<2 * length ts * k]" .
  moreover have "index_of t (ts @ [t]) = int (length ts)" using snoc.prems by (intro index_of_last) simp
  ultimately have "map (slot_pos (ts @ [t]) (int k)) (slots (ts @ [t]) k)
      = map int [0..<2 * length ts * k] @ map int [2 * length ts * k..<2 * length ts * k + 2 * k]"
    using block_positions [of t "ts @ [t]" "length ts" k k] by (simp only: slots_snoc map_append)
  also have "\<dots> = map int [0..<2 * length ts * k + 2 * k]" by (rule upt_int_append [symmetric])
  finally show ?case by (simp add: algebra_simps)
qed

lemma length_slots: "distinct taskIds \<Longrightarrow> length (slots taskIds k) = 2 * length taskIds * k"
  by (metis map_slot_pos length_map length_upt diff_zero)

lemma distinct_slots: "distinct taskIds \<Longrightarrow> distinct (slots taskIds k)"
  by (metis map_slot_pos distinct_map distinct_upt inj_on_of_nat)

lemma slot_pos_nth:
  assumes "distinct taskIds" "p < length (slots taskIds k)"
  shows "slot_pos taskIds (int k) (slots taskIds k ! p) = int p"
proof -
  have "map (slot_pos taskIds (int k)) (slots taskIds k) ! p = map int [0..<2 * length taskIds * k] ! p"
    using assms(1) by (simp only: map_slot_pos)
  with assms show ?thesis by (simp add: length_slots)
qed

lemma slot_pos_bounds:
  assumes "distinct taskIds" "slot \<in> set (slots taskIds k)"
  shows "0 \<le> slot_pos taskIds (int k) slot" "slot_pos taskIds (int k) slot < 2 * int (length taskIds) * int k"
proof -
  from assms(2) obtain p where p: "p < length (slots taskIds k)" "slot = slots taskIds k ! p"
    by (auto simp: in_set_conv_nth)
  have "int p < int (2 * length taskIds * k)"
    using p(1) by (simp only: length_slots [OF assms(1)] of_nat_less_iff)
  then have bound: "int p < 2 * int (length taskIds) * int k" by simp
  show "0 \<le> slot_pos taskIds (int k) slot" "slot_pos taskIds (int k) slot < 2 * int (length taskIds) * int k"
    using slot_pos_nth [OF assms(1) p(1)] p(2) by simp_all (use bound in simp)
qed

lemma plan_cells_slots:
  assumes "distinct taskIds"
  shows "plan_cells hmac seed runId start taskIds k order
       = map (\<lambda>slot. plan_cell hmac seed runId start order (nat (slot_pos taskIds (int k) slot)) slot) (slots taskIds k)"
  by (rule nth_equalityI) (auto simp: plan_cells_def nth_enumerate_eq slot_pos_nth [OF assms])

lemma map_slot_of_plan_cells:
  "map slot_of (plan_cells hmac seed runId start taskIds k order) = slots taskIds k"
  by (rule nth_equalityI) (auto simp: plan_cells_def plan_cell_def slot_of_def nth_enumerate_eq)

section \<open>Seeds and keys\<close>

lemma hex_digit_lower: "0 \<le> d \<Longrightarrow> d < 16 \<Longrightarrow> is_lower_hex (hex_digit d)"
proof -
  assume "0 \<le> d" "d < 16"
  then have "d = 0 \<or> d = 1 \<or> d = 2 \<or> d = 3 \<or> d = 4 \<or> d = 5 \<or> d = 6 \<or> d = 7 \<or> d = 8 \<or> d = 9
    \<or> d = 10 \<or> d = 11 \<or> d = 12 \<or> d = 13 \<or> d = 14 \<or> d = 15" by presburger
  then show ?thesis by (elim disjE) (simp_all add: hex_digit_def is_lower_hex_def is_dec_digit_def)
qed

lemma hex_digits_lower: "0 \<le> n \<Longrightarrow> list_all is_lower_hex (hex_digits n)"
  by (induction n rule: hex_digits.induct) (subst hex_digits.simps, auto intro: hex_digit_lower)

lemma hex_digits_length: "0 \<le> n \<Longrightarrow> n < 16 ^ Suc m \<Longrightarrow> length (hex_digits n) \<le> Suc m"
proof (induction m arbitrary: n)
  case 0
  then show ?case by (subst hex_digits.simps) simp
next
  case (Suc m)
  have "n div 16 < 16 ^ Suc m" using Suc.prems(2) by (simp add: div_less_iff_less_mult)
  with Suc.IH [of "n div 16"] Suc.prems(1) show ?case by (subst hex_digits.simps) simp
qed

lemma hex8_seed_text: "hex8 (seed_text w)"
proof -
  have "uint w < 16 ^ Suc 7" using uint_lt2p [of w] by simp
  then have "length (hex_digits (uint w)) \<le> 8" using hex_digits_length [of "uint w" 7] by simp
  moreover have "is_lower_hex (digit 0)" by (simp add: is_lower_hex_def)
  then have "list_all is_lower_hex (replicate n (digit 0))" for n by (simp add: list_all_iff)
  ultimately show ?thesis using hex_digits_lower [of "uint w"]
    by (simp add: hex8_def seed_text_def pad_zero_def)
qed

lemma zero_notin_dec: "0 \<le> a \<Longrightarrow> 0 \<notin> set (dec a)"
  using list_all_digits [of a] by (auto simp: dec_def list_all_iff is_dec_digit_def)

lemma split_at_zero: "0 \<notin> set a \<Longrightarrow> 0 \<notin> set b \<Longrightarrow> s @ 0 # a = t @ 0 # b \<Longrightarrow> s = t \<and> a = (b :: jstring)"
proof (induction s arbitrary: t)
  case Nil
  then show ?case by (cases t) auto
next
  case (Cons x s)
  then show ?case by (cases t) auto
qed

lemma slot_key_inject:
  assumes "t @ 0 # dec a @ 0 # side_name s = t' @ 0 # dec a' @ 0 # side_name s'" "0 \<le> a" "0 \<le> a'"
  shows "(t, a, s) = (t', a', s')"
proof -
  have "length (side_name s) = length (side_name s')" by (cases s; cases s') simp_all
  moreover have "(t @ 0 # dec a @ [0]) @ side_name s = (t' @ 0 # dec a' @ [0]) @ side_name s'"
    using assms(1) by simp
  ultimately have "t @ 0 # dec a @ [0] = t' @ 0 # dec a' @ [0] \<and> side_name s = side_name s'"
    by (intro append_eq_append_conv [THEN iffD1] disjI2)
  then have eq: "(t @ 0 # dec a) @ [0] = (t' @ 0 # dec a') @ [0]" "side_name s = side_name s'" by simp_all
  then have "s = s'" by (cases s; cases s') simp_all
  moreover have "t @ 0 # dec a = t' @ 0 # dec a'" using eq(1) by (simp only: append1_eq_conv)
  ultimately show ?thesis using split_at_zero [OF zero_notin_dec [OF assms(2)] zero_notin_dec [OF assms(3)]]
      dec_inject [OF assms(2,3)] by auto
qed

section \<open>What validation establishes\<close>

lemma refail_Inr_iff [res_simps]: "refail m = Inr a \<longleftrightarrow> m = Inr a"
  by (cases m) (simp_all add: refail_def)

definition cell_ok :: "jsval \<Rightarrow> jsval \<Rightarrow> bool" where
  "cell_ok plan cell \<longleftrightarrow>
     (let g = (\<lambda>f. fget (obj_of cell) (js f)); k = num_of (plan_field plan ''kSealed'') in
      cell \<noteq> JNull \<and> cell \<noteq> JUndef \<and> g ''taskId'' \<in> set (arr_of (plan_field plan ''taskIds''))
      \<and> is_safe_number (g ''attempt'') \<and> 1 \<le> num_of (g ''attempt'') \<and> num_of (g ''attempt'') \<le> k
      \<and> (g ''side'' = JStr (js ''baseline'') \<or> g ''side'' = JStr (js ''champion''))
      \<and> is_str (g ''seed'') \<and> hex8 (str_of (g ''seed''))
      \<and> is_safe_number (g ''index'') \<and> 0 \<le> num_of (g ''index'') \<and> num_of (g ''index'') < plan_trial_count plan
      \<and> num_of (g ''index'') = num_of (plan_order plan ! nat (positionOf (plan_taskIds plan) k (cell_of cell))))"

lemma validate_cell_Inr:
  "validate_cell plan seen c = Inr seen' \<longleftrightarrow>
     cell_ok plan c \<and> cell_key c \<notin> set seen \<and> seen' = seen @ [cell_key c]"
  by (auto simp: validate_cell_def cell_ok_def Let_def res_simps)

lemma validate_cells_Inr:
  "foldR (validate_cell plan) seen cs = Inr seen' \<longleftrightarrow>
     (\<forall>c\<in>set cs. cell_ok plan c) \<and> distinct (map cell_key cs)
     \<and> set (map cell_key cs) \<inter> set seen = {} \<and> seen' = seen @ map cell_key cs"
  by (induction cs arbitrary: seen) (auto simp: res_simps validate_cell_Inr)

lemma validateSealedPlan_Inr:
  "validateSealedPlan sha plan = Inr p \<longleftrightarrow>
     validate_parameters plan = Inr () \<and> validate_order sha plan = Inr ()
     \<and> (\<forall>c\<in>set (plan_trials plan). cell_ok plan c) \<and> distinct (map cell_key (plan_trials plan))
     \<and> int (length (plan_trials plan)) = plan_trial_count plan
     \<and> validate_analysis (plan_field plan ''analysis'') = Inr ()
     \<and> validateBudgetShape (plan_field plan ''budget'') ''sealed plan budget'' = Inr () \<and> p = plan"
  by (auto simp: validateSealedPlan_def res_simps validate_cells_Inr)

lemma trial_product:
  assumes "0 \<le> n" "0 \<le> k" "js_mul (js_mul n k) 2 \<le> max_safe"
  shows "js_mul (js_mul n k) 2 = 2 * n * k"
proof -
  have pos: "0 \<le> js_mul n k" using assms(1,2) by (rule js_mul_nonneg)
  have outer: "js_mul (js_mul n k) 2 = js_mul n k * 2" using js_mul_safe [OF pos _ assms(3)] by simp
  then have "js_mul n k \<le> max_safe" using assms(3) pos by simp
  then have "js_mul n k = n * k" using assms(1,2) by (intro js_mul_safe)
  with outer show ?thesis by simp
qed

lemma map_str_of: "list_all is_str vs \<Longrightarrow> map JStr (map str_of vs) = vs"
  by (induction vs) (auto dest: is_strE)

lemma nonempty_is_str: "is_nonempty_str v \<Longrightarrow> is_str v"
  by (cases v) auto

lemma eq_num_num_of: "eq_num v n \<Longrightarrow> num_of v = n"
  by (auto simp: eq_num_def)

lemma validate_parametersD:
  assumes "validate_parameters plan = Inr ()" "length (plan_trials plan) \<le> 4294967296"
  shows "distinct (plan_taskIds plan)" "arr_of (plan_field plan ''taskIds'') = map JStr (plan_taskIds plan)"
    and "1 \<le> num_of (plan_field plan ''kSealed'')"
    and "length (plan_trials plan) = 2 * length (plan_taskIds plan) * nat (num_of (plan_field plan ''kSealed''))"
    and "num_of (plan_field plan ''seedCounterStart'') = int (length (plan_trials plan)) + 1"
proof -
  let ?ids = "arr_of (plan_field plan ''taskIds'')" and ?k = "num_of (plan_field plan ''kSealed'')"
  have ids: "list_all is_nonempty_str ?ids" "distinct ?ids"
    and count: "num_of (plan_field plan ''taskCount'') = int (length ?ids)" and k: "1 \<le> ?k"
    and start: "num_of (plan_field plan ''seedCounterStart'') = js_add (plan_trial_count plan) 1"
    and trials: "int (length (plan_trials plan)) = plan_trial_count plan"
    using assms(1) by (auto simp: validate_parameters_def Let_def res_simps dest!: eq_num_num_of)
  from ids(1) have "list_all is_str ?ids" by (auto simp: list_all_iff nonempty_is_str)
  then show arr: "?ids = map JStr (plan_taskIds plan)" by (simp only: plan_taskIds_def map_str_of)
  then show "distinct (plan_taskIds plan)" using ids(2) by (simp add: distinct_map)
  show "1 \<le> ?k" by (rule k)
  have len: "length ?ids = length (plan_taskIds plan)" by (simp add: plan_taskIds_def)
  let ?n = "int (length ?ids)"
  have small: "js_mul (js_mul ?n ?k) 2 \<le> max_safe"
    using trials assms(2) by (simp add: plan_trial_count_def count max_safe_def)
  have "int (length (plan_trials plan)) = int (2 * length (plan_taskIds plan) * nat ?k)"
    using trials trial_product [OF _ _ small] k len by (simp add: plan_trial_count_def count)
  then show "length (plan_trials plan) = 2 * length (plan_taskIds plan) * nat ?k" by (simp only: of_nat_eq_iff)
  show "num_of (plan_field plan ''seedCounterStart'') = int (length (plan_trials plan)) + 1"
    unfolding start trials [symmetric] using assms(2) by (intro js_add_exact) (simp add: max_safe_def)
qed

lemma validate_orderD:
  assumes "validate_order sha plan = Inr ()"
  shows "int (length (plan_order plan)) = plan_trial_count plan" "sorts_to_range (plan_order plan)"
  using assms by (auto simp: validate_order_def Let_def res_simps plan_order_def)

lemma side_of_value:
  "v = JStr (js ''baseline'') \<or> v = JStr (js ''champion'') \<Longrightarrow>
   to_string v = side_name (if v = JStr (js ''baseline'') then Baseline else Champion)"
  by auto

lemma to_string_positive: "is_safe_number v \<Longrightarrow> 1 \<le> num_of v \<Longrightarrow> to_string v = dec (num_of v)"
  by (cases v) auto

lemma cell_ok_key:
  assumes "cell_ok plan c" "arr_of (plan_field plan ''taskIds'') = map JStr ids"
  shows "cell_key c = (case slot_of (cell_of c) of (t, a, s) \<Rightarrow> t @ 0 # dec a @ 0 # side_name s)"
  using assms
  by (auto simp: cell_ok_def cell_key_def cell_of_def slot_of_def Let_def to_string_positive)

lemma cell_ok_slot:
  assumes "cell_ok plan c" "arr_of (plan_field plan ''taskIds'') = map JStr ids"
  shows "slot_of (cell_of c) \<in> set (slots ids (nat (num_of (plan_field plan ''kSealed''))))"
  using assms by (auto simp: cell_ok_def cell_of_def slot_of_def Let_def set_slots)

lemma permutationOf_size:
  assumes "permutationOf hmac i n = Some r"
  shows "n \<le> 4294967296"
proof (rule ccontr)
  assume big: "\<not> n \<le> 4294967296"
  then obtain step where step: "n - 1 = Suc step" by (cases "n - 1") auto
  with assms obtain q where
    "drawIndex (word_at hmac i) (int (Suc step) + 1) (di_counter i) [] = Some q"
    by (auto simp: permutationOf_def split: option.splits)
  from drawIndex_result [OF this] obtain w j where "accept w (int (Suc step) + 1) = Some j" by blast
  moreover have "(4294967296 :: int) div (int (Suc step) + 1) = 0" using big step
    by (intro div_pos_pos_trivial) auto
  ultimately show False using uint_ge_0 [of w]
    by (auto simp: accept_def unbiasedIndex_def ensure_def Let_def split: if_splits)
qed

lemma same_distinct_mset:
  assumes "distinct xs" "distinct ys" "set xs \<subseteq> set ys" "length xs = length ys"
  shows "mset xs = mset ys"
proof -
  have "set xs = set ys"
    using assms by (intro card_subset_eq) (auto simp: distinct_card)
  with assms(1,2) show ?thesis by (simp add: set_eq_iff_mset_eq_distinct)
qed

section \<open>The generated plan\<close>

lemma cell_of_value [simp]: "cell_of (cell_value c) = c"
  by (cases "tc_side c") (simp_all add: cell_of_def cell_value_def Let_def)

lemma seed_of_value: "fget (obj_of (cell_value c)) (js ''seed'') = JStr (tc_seed c)"
  by (simp add: cell_value_def)

lemma plan_document_fields:
  "plan_field (plan_document hmac sha i start order raw h) ''schemaVersion'' = JNum 1"
  "plan_field (plan_document hmac sha i start order raw h) ''protocol'' = JStr SEALED_PLAN_PROTOCOL"
  "plan_field (plan_document hmac sha i start order raw h) ''runId'' = spi_runId i"
  "plan_field (plan_document hmac sha i start order raw h) ''seedCommitment''
     = JStr (seed_commitment sha (str_of (spi_masterSeed i)) (str_of (spi_runId i)))"
  "plan_field (plan_document hmac sha i start order raw h) ''baselineId'' = spi_baselineId i"
  "plan_field (plan_document hmac sha i start order raw h) ''taskCount'' = JNum (int (length (spi_taskIds i)))"
  "plan_field (plan_document hmac sha i start order raw h) ''taskIds'' = JArr (spi_taskIds i)"
  "plan_field (plan_document hmac sha i start order raw h) ''kSealed'' = spi_kSealed i"
  "plan_field (plan_document hmac sha i start order raw h) ''seedCounterStart'' = JNum start"
  "plan_field (plan_document hmac sha i start order raw h) ''trials'' = JArr (map cell_value
     (plan_cells hmac (str_of (spi_masterSeed i)) (str_of (spi_runId i)) start (map str_of (spi_taskIds i))
        (nat (num_of (spi_kSealed i))) order))"
  "plan_field (plan_document hmac sha i start order raw h) ''orderReceipt'' = order_receipt h raw order"
  "plan_field (plan_document hmac sha i start order raw h) ''analysis'' = JObj SEALED_ANALYSIS_DEFAULTS"
  "plan_field (plan_document hmac sha i start order raw h) ''budget'' = JObj (obj_of (spi_budget i))"
  "is_object (plan_document hmac sha i start order raw h)"
  by (simp_all add: plan_field_def plan_document_def Let_def)

lemma check_plan_inputD:
  assumes "check_plan_input i = Inr u"
  shows "is_nonempty_str (spi_runId i)" "is_nonempty_str (spi_masterSeed i)" "is_nonempty_str (spi_baselineId i)"
    and "distinct (spi_taskIds i)" "spi_taskIds i \<noteq> []" "list_all is_nonempty_str (spi_taskIds i)"
    and "is_safe_number (spi_kSealed i)" "1 \<le> num_of (spi_kSealed i)"
    and "validateBudgetShape (spi_budget i) ''sealed plan'' = Inr ()"
  using assms by (auto simp: check_plan_input_def res_simps)

lemma budget_shape_copy:
  "validateBudgetShape b ctx = Inr () \<Longrightarrow> validateBudgetShape (JObj (obj_of b)) ctx' = Inr ()"
  by (auto simp: validateBudgetShape_def Let_def res_simps)

lemma plan_description_hashes:
  assumes "is_str runId" "is_str baselineId" "list_all is_str ids" "is_safe_number k" "1 \<le> num_of k"
  shows "\<exists>h. hashDrawInput sha (plan_description runId baselineId (JArr ids) k) = Inr h"
proof -
  have "\<exists>t. serialize v = Inr t" if "is_str v" for v using is_strE [OF that] by auto
  then have "map serialize ids = map Inr (map (\<lambda>v. projr (serialize v)) ids)"
    using assms(3) by (fastforce simp: list_all_iff)
  then have arr: "seqR (map serialize ids) = Inr (map (\<lambda>v. projr (serialize v)) ids)"
    by (simp only: seqR_Inr_iff)
  obtain n where "k = JNum n" "safe_int n" using assms(4,5) by (cases k) auto
  then have "\<exists>t. canonicalJson (plan_description runId baselineId (JArr ids) k) = Inr t"
    using assms(1,2) arr unfolding plan_description_def canonicalJson_JObj_ok by (auto dest!: is_strE)
  then show ?thesis by (auto simp: hashDrawInput_def canonicalHash_def)
qed

text \<open>The facts the rest of the section shares: the input passed its checks and the draw returned.\<close>

lemma generated_sizes:
  assumes "check_plan_input i = Inr u"
    and "js_mul (js_mul (int (length (spi_taskIds i))) (num_of (spi_kSealed i))) 2 \<le> 4294967295"
  shows "js_mul (js_mul (int (length (spi_taskIds i))) (num_of (spi_kSealed i))) 2
       = int (2 * length (spi_taskIds i) * nat (num_of (spi_kSealed i)))"
proof -
  let ?n = "int (length (spi_taskIds i))" and ?k = "num_of (spi_kSealed i)"
  have k: "1 \<le> ?k" by (rule check_plan_inputD(8) [OF assms(1)])
  have small: "js_mul (js_mul ?n ?k) 2 \<le> max_safe" using assms(2) by (simp add: max_safe_def)
  show ?thesis using trial_product [OF _ _ small] k by simp
qed

lemma generated_order:
  assumes "permutationOf hmac d T = Some (order, raw)" "T \<le> 4294967295"
  shows "length order = T" "sorts_to_range (map JNum order)" "\<forall>p<T. 0 \<le> order ! p \<and> order ! p < int T"
    and "T - 1 \<le> length raw"
proof -
  have ms: "mset order = mset (map int [0..<T])" and raw: "T - 1 \<le> length raw"
    using shuffle_result [OF assms(1) [unfolded permutationOf_def]] by (fastforce, fastforce)
  show len: "length order = T" using arg_cong [OF ms, of size] by simp
  show "T - 1 \<le> length raw" by (rule raw)
  have "set order = set (map int [0..<T])" by (rule mset_eq_setD [OF ms])
  then have range: "0 \<le> x \<and> x < int T" if "x \<in> set order" for x using that by auto
  then show "\<forall>p<T. 0 \<le> order ! p \<and> order ! p < int T" using len by simp
  have "sort order = map int [0..<T]"
    by (rule properties_for_sort) (simp_all add: ms sorted_map)
  moreover have "list_all is_safe_number (map JNum order)"
    using range assms(2) by (force simp: list_all_iff safe_int_def max_safe_def)
  ultimately show "sorts_to_range (map JNum order)" by (simp add: sorts_to_range_def comp_def len)
qed

lemma order_receipt_valid:
  assumes "hex64 h" "raw \<noteq> []"
  shows "validateRngReceipt (order_receipt h raw order) = Inr ()"
proof -
  have "field_set (obj_of (order_receipt h raw order)) = js ''algorithm,counter,inputHash,raw,result,stream''"
    unfolding order_receipt_def obj_of.simps field_set_def list.map fst_conv by code_simp
  moreover have "uint32_value (JNum (uint w))" for w :: "32 word"
    using uint_lt2p [of w] order_trans [OF _ uint_ge_0 [of w]]
    by (simp add: uint32_value_def safe_int_def max_safe_def)
  ultimately show ?thesis using assms
    by (simp add: validateRngReceipt_def Let_def order_receipt_def RNG_STREAMS_def list_all_iff safe_int_def max_safe_def)
qed

text \<open>The cells of a generated plan pass the checks of the validator.\<close>

lemma generated_cells_ok:
  fixes hmac sha i order raw h
  defines "ids \<equiv> map str_of (spi_taskIds i)" and "k \<equiv> nat (num_of (spi_kSealed i))"
    and "T \<equiv> 2 * length (spi_taskIds i) * nat (num_of (spi_kSealed i))"
  defines "plan \<equiv> plan_document hmac sha i (int T + 1) order raw h"
  assumes inp: "check_plan_input i = Inr u" and T: "T \<le> 4294967295"
    and perm: "permutationOf hmac d T = Some (order, raw)" and count: "plan_trial_count plan = int T"
    and c: "c \<in> set (plan_cells hmac seed runId start ids k order)"
  shows "cell_ok plan (cell_value c)"
proof -
  note chk = check_plan_inputD [OF inp]
  have "list_all is_str (spi_taskIds i)" using chk(6) by (auto simp: list_all_iff nonempty_is_str)
  then have arr: "spi_taskIds i = map JStr ids" unfolding ids_def by (simp only: map_str_of)
  then have dist: "distinct ids" using chk(4) by (simp add: distinct_map)
  have kk: "int k = num_of (spi_kSealed i)" using chk(8) by (simp add: k_def)
  from c obtain slot where slot: "slot \<in> set (slots ids k)"
    and cdef: "c = plan_cell hmac seed runId start order (nat (slot_pos ids (int k) slot)) slot"
    by (auto simp: plan_cells_slots [OF dist])
  obtain t a s where tas: "slot = (t, a, s)" by (cases slot)
  let ?p = "slot_pos ids (int k) slot"
  have p: "0 \<le> ?p" "?p < int T"
    using slot_pos_bounds [OF dist slot] arg_cong [OF arr, of length] by (simp_all add: T_def k_def)
  have pos: "positionOf ids (int k) c = ?p"
    by (simp add: positionOf_slot cdef plan_cell_def slot_of_def)
  have idx: "0 \<le> order ! nat ?p" "order ! nat ?p < int T" "nat ?p < length order"
    using generated_order(1,3) [OF perm T] p by auto
  have "a \<le> int k" "1 \<le> a" "t \<in> set ids" using slot by (simp_all add: tas set_slots)
  moreover have "safe_int a" using \<open>a \<le> int k\<close> \<open>1 \<le> a\<close> chk(7) kk
    by (cases "spi_kSealed i") (auto simp: safe_int_def)
  moreover have "safe_int (order ! nat ?p)" using idx T by (simp add: safe_int_def max_safe_def)
  moreover have "plan_order plan = map JNum order"
    by (simp add: plan_order_def plan_def plan_document_fields order_receipt_def)
  moreover have "plan_taskIds plan = ids"
    by (simp add: plan_taskIds_def plan_def plan_document_fields ids_def)
  moreover have "obj_of (cell_value c) = [(js ''index'', JNum (order ! nat ?p)), (js ''taskId'', JStr t),
      (js ''attempt'', JNum a), (js ''side'', JStr (side_name s)), (js ''seed'', JStr (tc_seed c))]"
    by (simp add: cell_value_def cdef plan_cell_def tas)
  moreover have "hex8 (tc_seed c)" by (simp add: cdef plan_cell_def hex8_seed_text)
  moreover have "side_name s = js ''baseline'' \<or> side_name s = js ''champion''" by (cases s) simp_all
  ultimately show ?thesis using idx kk pos count arr
    by (simp add: cell_ok_def Let_def plan_def plan_document_fields) (simp add: cell_value_def)
qed

lemma generated_keys_distinct:
  assumes "\<forall>c\<in>set cells. cell_ok plan (cell_value c)" "distinct (map slot_of cells)"
    and "arr_of (plan_field plan ''taskIds'') = map JStr ids"
  shows "distinct (map (cell_key \<circ> cell_value) cells)"
proof -
  have key: "cell_key (cell_value c) = (case slot_of c of (t, a, s) \<Rightarrow> t @ 0 # dec a @ 0 # side_name s)"
    if "c \<in> set cells" for c using cell_ok_key [OF bspec [OF assms(1) that] assms(3)] by simp
  have pos: "0 \<le> fst (snd (slot_of c))" if "c \<in> set cells" for c
    using cell_ok_slot [OF bspec [OF assms(1) that] assms(3)] by (cases "slot_of c") (simp add: set_slots)
  have "inj_on (cell_key \<circ> cell_value) (set cells)"
  proof (rule inj_onI)
    fix c d assume in_cells: "c \<in> set cells" "d \<in> set cells"
      and "(cell_key \<circ> cell_value) c = (cell_key \<circ> cell_value) d"
    then have "slot_of c = slot_of d" using key [of c] key [of d] pos [of c] pos [of d]
      by (cases "slot_of c"; cases "slot_of d") (auto dest: slot_key_inject)
    then show "c = d" using assms(2) in_cells by (auto simp: distinct_map dest: inj_onD)
  qed
  moreover have "distinct cells" using assms(2) by (simp add: distinct_map)
  ultimately show ?thesis by (simp add: distinct_map)
qed

lemma generated_plan_valid:
  fixes hmac sha i order raw h
  defines "T \<equiv> 2 * length (spi_taskIds i) * nat (num_of (spi_kSealed i))"
  defines "plan \<equiv> plan_document hmac sha i (int T + 1) order raw h"
  assumes inp: "check_plan_input i = Inr u" and T: "T \<le> 4294967295"
    and prod: "js_mul (js_mul (int (length (spi_taskIds i))) (num_of (spi_kSealed i))) 2 = int T"
    and perm: "permutationOf hmac d T = Some (order, raw)"
    and h: "hashDrawInput sha (plan_description (spi_runId i) (spi_baselineId i) (JArr (spi_taskIds i)) (spi_kSealed i)) = Inr h"
    and sha: "\<forall>t. hex64 (sha t)"
  shows "validateSealedPlan sha plan = Inr plan"
proof -
  note chk = check_plan_inputD [OF inp]
  let ?ids = "map str_of (spi_taskIds i)" and ?k = "nat (num_of (spi_kSealed i))"
  let ?cells = "plan_cells hmac (str_of (spi_masterSeed i)) (str_of (spi_runId i)) (int T + 1) ?ids ?k order"
  have "list_all is_str (spi_taskIds i)" using chk(6) by (auto simp: list_all_iff nonempty_is_str)
  then have arr: "arr_of (plan_field plan ''taskIds'') = map JStr ?ids"
    by (simp only: plan_def plan_document_fields arr_of.simps map_str_of)
  then have "distinct (map JStr ?ids)" using chk(4) by (simp only: plan_def plan_document_fields arr_of.simps)
  then have dist: "distinct ?ids" unfolding distinct_map [of JStr] by blast
  have trials: "plan_trials plan = map cell_value ?cells"
    by (simp add: plan_trials_def plan_def plan_document_fields)
  have count: "plan_trial_count plan = int T" using prod by (simp add: plan_trial_count_def plan_def plan_document_fields)
  have len: "length (plan_trials plan) = T"
    using length_slots [OF dist, of ?k] by (simp add: trials plan_cells_slots [OF dist] T_def)
  have ok: "\<forall>c\<in>set ?cells. cell_ok plan (cell_value c)"
    unfolding plan_def T_def using T
    by (intro ballI generated_cells_ok [OF inp T [unfolded T_def] perm [unfolded T_def] count [unfolded plan_def T_def]])
  have keys: "distinct (map cell_key (plan_trials plan))"
    using generated_keys_distinct [OF ok _ arr] by (simp add: trials map_slot_of_plan_cells distinct_slots [OF dist])
  have "validate_parameters plan = Inr ()"
    using chk(1,3-8) sha len count T
    by (simp add: validate_parameters_def Let_def plan_def plan_document_fields js_add_exact max_safe_def eq_num_def
        seed_commitment_def)
  moreover have hash64: "hex64 h" using h sha by (auto simp: hashDrawInput_def canonicalHash_def res_simps)
  moreover have "1 \<le> length (spi_taskIds i) * ?k" using chk(5,8) by (simp add: Suc_le_eq)
  then have "2 \<le> T" by (simp add: T_def)
  with generated_order(4) [OF perm T] have "raw \<noteq> []" by auto
  then have "validate_order sha plan = Inr ()"
    using order_receipt_valid [of h raw order] generated_order(1,2) [OF perm] T h hash64 count
    by (simp add: validate_order_def Let_def plan_def plan_document_fields)
      (simp add: order_receipt_def eq_num_def refail_def)
  moreover have "validate_analysis (plan_field plan ''analysis'') = Inr ()"
    by (simp add: plan_def plan_document_fields validate_analysis_def SEALED_ANALYSIS_DEFAULTS_def Let_def
        safe_int_def max_safe_def)
  moreover have "validateBudgetShape (plan_field plan ''budget'') ''sealed plan budget'' = Inr ()"
    using budget_shape_copy [OF chk(9)] by (simp add: plan_def plan_document_fields)
  ultimately show ?thesis using ok keys len count by (simp add: validateSealedPlan_Inr trials)
qed

text \<open>Drawing again from the master seed finds what the generator wrote.\<close>

lemma generated_plan_verifies:
  fixes hmac sha i order raw h
  defines "T \<equiv> 2 * length (spi_taskIds i) * nat (num_of (spi_kSealed i))"
  defines "plan \<equiv> plan_document hmac sha i (int T + 1) order raw h"
  assumes inp: "check_plan_input i = Inr u"
    and valid: "validateSealedPlan sha plan = Inr plan" and len: "length (plan_trials plan) = T"
    and perm: "permutationOf hmac (plan_draw (str_of (spi_masterSeed i)) (str_of (spi_runId i)) 1) T = Some (order, raw)"
    and dist: "distinct (map str_of (spi_taskIds i))"
  shows "verifySealedPlanDraws hmac sha plan (str_of (spi_masterSeed i)) = Some (Inr ())"
proof -
  let ?ids = "map str_of (spi_taskIds i)" and ?k = "nat (num_of (spi_kSealed i))"
  let ?seed = "str_of (spi_masterSeed i)" and ?run = "str_of (spi_runId i)"
  have kk: "0 \<le> num_of (spi_kSealed i)" using check_plan_inputD(8) [OF inp] by simp
  have "verify_cell hmac plan ?seed c = Inr ()" if c: "c \<in> set (plan_trials plan)" for c
  proof -
    from c obtain slot where slot: "slot \<in> set (slots ?ids ?k)"
      and cdef: "c = cell_value (plan_cell hmac ?seed ?run (int T + 1) order (nat (slot_pos ?ids (int ?k) slot)) slot)"
      by (auto simp: plan_trials_def plan_def plan_document_fields plan_cells_slots [OF dist])
    have "positionOf ?ids (num_of (spi_kSealed i)) (cell_of c) = slot_pos ?ids (int ?k) slot"
      unfolding cdef using kk by (simp add: positionOf_slot plan_cell_def slot_of_def)
    moreover have "0 \<le> slot_pos ?ids (int ?k) slot" by (rule slot_pos_bounds [OF dist slot])
    moreover have "fget (obj_of c) (js ''seed'') = JStr (tc_seed (cell_of c))" unfolding cdef by (simp add: seed_of_value)
    ultimately show ?thesis using kk
      by (simp add: verify_cell_def Let_def plan_taskIds_def plan_def plan_document_fields)
        (simp add: cdef plan_cell_def split: if_splits)
  qed
  then have "eachR (verify_cell hmac plan ?seed) (plan_trials plan) = Inr ()" by (simp add: eachR_Inr_iff)
  moreover have "plan_field plan ''seedCommitment'' = JStr (seed_commitment sha ?seed ?run)"
    "plan_field plan ''runId'' = spi_runId i"
    "arr_of (fget (obj_of (plan_field plan ''orderReceipt'')) (js ''raw'')) = map (\<lambda>w. JNum (uint w)) raw"
    "plan_order plan = map JNum order"
    by (simp_all add: plan_def plan_document_fields order_receipt_def plan_order_def)
  ultimately show ?thesis
    by (simp add: verifySealedPlanDraws_def Let_def valid len perm comp_def)
qed

text \<open>A verified cell is the one the generator puts in its slot, and no two cells share a slot.\<close>

lemma cell_of_fields:
  "tc_index (cell_of c) = num_of (fget (obj_of c) (js ''index''))"
  "tc_seed (cell_of c) = str_of (fget (obj_of c) (js ''seed''))"
  by (simp_all add: cell_of_def Let_def)

lemma verified_cell:
  assumes ok: "cell_ok plan c" and seed: "verify_cell hmac plan seed c = Inr ()"
    and ids: "distinct ids" "arr_of (plan_field plan ''taskIds'') = map JStr ids"
    and "1 \<le> num_of (plan_field plan ''kSealed'')"
    and start: "num_of (plan_field plan ''seedCounterStart'') = start"
    and order: "order = map num_of (plan_order plan)"
    and len: "length (plan_order plan) = 2 * length ids * nat (num_of (plan_field plan ''kSealed''))"
  defines "k \<equiv> nat (num_of (plan_field plan ''kSealed''))"
  shows "cell_of c = plan_cell hmac seed (str_of (plan_field plan ''runId'')) start order
           (nat (slot_pos ids (int k) (slot_of (cell_of c)))) (slot_of (cell_of c))
    \<and> slot_of (cell_of c) \<in> set (slots ids k)"
proof -
  have k: "num_of (plan_field plan ''kSealed'') = int k" using assms(5) by (simp add: k_def)
  have slot: "slot_of (cell_of c) \<in> set (slots ids k)" using cell_ok_slot [OF ok ids(2)] by (simp add: k_def)
  let ?p = "slot_pos ids (int k) (slot_of (cell_of c))"
  have p: "0 \<le> ?p" "?p < 2 * int (length ids) * int k" by (rule slot_pos_bounds [OF ids(1) slot])+
  have task: "plan_taskIds plan = ids" by (simp add: plan_taskIds_def ids(2) comp_def)
  have "int (length (plan_order plan)) = 2 * int (length ids) * int k" by (simp add: len k_def)
  then have np: "nat ?p < length (plan_order plan)" using p by linarith
  have "tc_index (cell_of c) = order ! nat ?p" using ok np
    by (simp add: cell_ok_def Let_def k task positionOf_slot order cell_of_fields(1))
  moreover have "tc_seed (cell_of c)
      = seed_text (hd (drawWords hmac (plan_draw seed (str_of (plan_field plan ''runId'')) (start + int (nat ?p))) 1))"
    using seed p(1) cell_of_fields(2) [of c]
    by (simp add: verify_cell_def Let_def k task positionOf_slot start res_simps)
  ultimately show ?thesis using slot by (simp add: plan_cell_def slot_of_def)
qed

lemma distinct_cell_slots:
  assumes "\<forall>c\<in>set cs. cell_ok plan c" "distinct (map cell_key cs)"
    and "arr_of (plan_field plan ''taskIds'') = map JStr ids"
  shows "distinct (map (slot_of \<circ> cell_of) cs)"
proof -
  have "map cell_key cs = map (\<lambda>(t, a, s). t @ 0 # dec a @ 0 # side_name s) (map (slot_of \<circ> cell_of) cs)"
    using cell_ok_key [OF _ assms(3)] assms(1) by simp
  then have "distinct (map (\<lambda>(t, a, s). t @ 0 # dec a @ 0 # side_name s) (map (slot_of \<circ> cell_of) cs))"
    using assms(2) by (simp only:)
  then show ?thesis unfolding distinct_map by blast
qed

section \<open>A plan of one task\<close>

definition sample_plan_input :: sealed_plan_input where
  "sample_plan_input =
     \<lparr>spi_runId = JStr (js ''r''), spi_masterSeed = JStr (js ''s''), spi_baselineId = JStr (js ''b''),
      spi_taskIds = [JStr (js ''sealed-01'')], spi_kSealed = JNum 1,
      spi_budget = JObj [(js ''wallClockMinutes'', JNum 1), (js ''usdMicros'', JNum 0), (js ''solverTokens'', JNum 0)]\<rparr>"

definition sample_plan_hash :: jstring where
  "sample_plan_hash = projr (hashDrawInput sample_sha (plan_description (spi_runId sample_plan_input)
     (spi_baselineId sample_plan_input) (JArr (spi_taskIds sample_plan_input)) (spi_kSealed sample_plan_input)))"

definition sample_plan :: jsval where
  "sample_plan = plan_document (\<lambda>_ _. 0) sample_sha sample_plan_input 3 [1, 0] [0] sample_plan_hash"

lemma sample_plan_checks: "check_plan_input sample_plan_input = Inr ()"
  by (simp add: check_plan_input_def sample_plan_input_def validateBudgetShape_def Let_def safe_int_def max_safe_def)

lemma sample_plan_count:
  "js_mul (js_mul (int (length (spi_taskIds sample_plan_input))) (num_of (spi_kSealed sample_plan_input))) 2 = 2"
  by (simp add: sample_plan_input_def js_mul_def round53_def)

lemma sample_plan_permutation: "permutationOf (\<lambda>_ _. 0) d 2 = Some ([1, 0], [0])"
proof -
  have w: "word_at (\<lambda>_ _. 0) d = (\<lambda>_. 0)" by (simp add: word_at_def drawWords_def fun_eq_iff)
  show ?thesis by (simp add: permutationOf_def w numeral_2_eq_2 drawIndex_zero upt_rec)
qed

lemma sample_plan_verifies: "verifySealedPlanDraws (\<lambda>_ _. 0) sample_sha sample_plan (js ''s'') = Some (Inr ())"
proof -
  have h: "hashDrawInput sample_sha (plan_description (spi_runId sample_plan_input)
     (spi_baselineId sample_plan_input) (JArr (spi_taskIds sample_plan_input)) (spi_kSealed sample_plan_input))
     = Inr sample_plan_hash"
    unfolding sample_plan_hash_def
    using plan_description_hashes [of "JStr (js ''r'')" "JStr (js ''b'')" "[JStr (js ''sealed-01'')]" "JNum 1" sample_sha]
    by (auto simp: sample_plan_input_def safe_int_def max_safe_def)
  have n: "2 * length (spi_taskIds sample_plan_input) * nat (num_of (spi_kSealed sample_plan_input)) = 2"
    by (simp add: sample_plan_input_def)
  have valid: "validateSealedPlan sample_sha sample_plan = Inr sample_plan"
    using generated_plan_valid [OF sample_plan_checks _ _ _ h hex64_sample_sha, where hmac = "\<lambda>_ _. 0"
        and d = "plan_draw (js ''s'') (js ''r'') 1" and order = "[1, 0]" and raw = "[0]"] sample_plan_count
    by (simp add: n sample_plan_permutation sample_plan_def)
  have "length (plan_trials sample_plan) = 2"
    by (simp add: sample_plan_def plan_trials_def plan_document_fields plan_cells_def slots_def sample_plan_input_def)
  with valid show ?thesis
    using generated_plan_verifies [OF sample_plan_checks, where hmac = "\<lambda>_ _. 0" and sha = sample_sha
        and order = "[1, 0]" and raw = "[0]" and h = sample_plan_hash]
    by (simp add: n sample_plan_permutation sample_plan_def) (simp add: sample_plan_input_def)
qed

section \<open>Properties\<close>

text \<open>
  C36: the generator never refuses its own plan, and the verifier accepts it.
  For an input that passes the checks, fewer than \<open>2 ^ 32\<close> trials and a permutation that is drawn
  within the counters reserved for it, a plan is returned whose cells are those of the enumeration, and
  every draw of it re-derives from the master seed.
\<close>

theorem sealed_plan_roundtrip:
  fixes i
  defines "T \<equiv> js_mul (js_mul (int (length (spi_taskIds i))) (num_of (spi_kSealed i))) 2"
    and "seed \<equiv> str_of (spi_masterSeed i)" and "runId \<equiv> str_of (spi_runId i)"
  assumes "check_plan_input i = Inr ()" "T \<le> 4294967295" "\<forall>t. hex64 (sha t)"
    and "permutationOf hmac (plan_draw seed runId 1) (nat T) = Some (order, raw)" "int (length raw) \<le> T"
  shows "\<exists>plan. generateSealedPlan hmac sha i = Some (Inr plan)
    \<and> verifySealedPlanDraws hmac sha plan seed = Some (Inr ())
    \<and> map cell_of (plan_trials plan) = plan_cells hmac seed runId (T + 1)
        (map str_of (spi_taskIds i)) (nat (num_of (spi_kSealed i))) order"
proof -
  let ?N = "2 * length (spi_taskIds i) * nat (num_of (spi_kSealed i))"
  note chk = check_plan_inputD [OF assms(4)]
  have TN: "T = int ?N" using generated_sizes [OF assms(4) assms(5) [unfolded T_def]] by (simp add: T_def)
  have strs: "list_all is_str (spi_taskIds i)" using chk(6) by (auto simp: list_all_iff nonempty_is_str)
  obtain h where h: "hashDrawInput sha (plan_description (spi_runId i) (spi_baselineId i)
      (JArr (spi_taskIds i)) (spi_kSealed i)) = Inr h"
    using plan_description_hashes [OF nonempty_is_str nonempty_is_str strs] chk by blast
  let ?plan = "plan_document hmac sha i (int ?N + 1) order raw h"
  have small: "?N \<le> 4294967295" using assms(5) unfolding TN by linarith
  have perm: "permutationOf hmac (plan_draw seed runId 1) ?N = Some (order, raw)"
    using assms(7) by (simp only: TN nat_int)
  have prod: "js_mul (js_mul (int (length (spi_taskIds i))) (num_of (spi_kSealed i))) 2 = int ?N"
    using TN by (simp only: T_def)
  have valid: "validateSealedPlan sha ?plan = Inr ?plan"
    by (rule generated_plan_valid [OF assms(4) small prod perm h assms(6)])
  have "map JStr (map str_of (spi_taskIds i)) = spi_taskIds i" by (rule map_str_of [OF strs])
  then have dist: "distinct (map str_of (spi_taskIds i))" using chk(4) by (metis distinct_map)
  have cells: "map cell_of (plan_trials ?plan) = plan_cells hmac seed runId (T + 1)
        (map str_of (spi_taskIds i)) (nat (num_of (spi_kSealed i))) order"
    by (simp add: plan_trials_def plan_document_fields TN seed_def runId_def comp_def)
  have len: "length (plan_trials ?plan) = ?N"
    using arg_cong [OF cells, of length] by (simp add: plan_cells_slots [OF dist] length_slots [OF dist])
  have "generateSealedPlan hmac sha i = Some (Inr ?plan)"
    using assms(4,5,7,8) h valid unfolding TN [symmetric]
    by (simp add: generateSealedPlan_def Let_def T_def [symmetric] seed_def [symmetric] runId_def [symmetric])
  moreover have "verifySealedPlanDraws hmac sha ?plan seed = Some (Inr ())"
    unfolding seed_def
    by (rule generated_plan_verifies [OF assms(4) valid len perm [unfolded seed_def runId_def] dist])
  ultimately show ?thesis using cells by blast
qed

lemma sealed_plan_roundtrip_witness:
  "\<exists>plan. generateSealedPlan (\<lambda>_ _. 0) sample_sha sample_plan_input = Some (Inr plan)
    \<and> verifySealedPlanDraws (\<lambda>_ _. 0) sample_sha plan (js ''s'') = Some (Inr ())
    \<and> map cell_of (plan_trials plan) = plan_cells (\<lambda>_ _. 0) (js ''s'') (js ''r'') 3 [js ''sealed-01''] 1 [1, 0]"
  using sealed_plan_roundtrip [OF sample_plan_checks _ hex64_sample_sha, of "\<lambda>_ _. 0" "[1, 0]" "[0]"]
    sample_plan_count
  by (simp add: sample_plan_permutation) (simp add: sample_plan_input_def)

text \<open>
  C37: whoever wrote it, a plan that verifies against a master seed
  schedules exactly the trials the generator schedules for its run, tasks and attempts. The permutation
  is the one the seed draws, and its cells are a rearrangement of the generator's: every (task, attempt,
  side) once, with that execution slot and that seed.
\<close>

theorem sealed_plan_verified_cells:
  fixes plan
  defines "runId \<equiv> str_of (plan_field plan ''runId'')" and "n \<equiv> length (plan_trials plan)"
  assumes "verifySealedPlanDraws hmac sha plan seed = Some (Inr ())"
  shows "\<exists>order raw. permutationOf hmac (plan_draw seed runId 1) n = Some (order, raw)
    \<and> mset (map cell_of (plan_trials plan)) = mset (plan_cells hmac seed runId (int n + 1)
        (plan_taskIds plan) (nat (num_of (plan_field plan ''kSealed''))) order)"
proof -
  let ?ids = "plan_taskIds plan" and ?k = "nat (num_of (plan_field plan ''kSealed''))"
  from assms(3) obtain p order raw where valid: "validateSealedPlan sha plan = Inr p"
    and perm: "permutationOf hmac (plan_draw seed runId 1) n = Some (order, raw)"
    and order: "order = map num_of (plan_order plan)"
    and seeds: "\<forall>c\<in>set (plan_trials plan). verify_cell hmac plan seed c = Inr ()"
    by (auto simp: verifySealedPlanDraws_def Let_def runId_def n_def res_simps split: sum.splits if_splits option.splits)
  note V = validateSealedPlan_Inr [THEN iffD1, OF valid]
  have small: "length (plan_trials plan) \<le> 4294967296" using permutationOf_size [OF perm] by (simp add: n_def)
  note P = validate_parametersD [OF conjunct1 [OF V] small]
  have kk: "num_of (plan_field plan ''kSealed'') = int ?k" using P(3) by simp
  have "int (length (plan_order plan)) = int (length (plan_trials plan))"
    using validate_orderD(1) [of sha plan] V by simp
  then have olen: "length (plan_order plan) = 2 * length ?ids * ?k" using P(4) by linarith
  define F where "F slot = plan_cell hmac seed runId (int n + 1) order (nat (slot_pos ?ids (int ?k) slot)) slot" for slot
  have cell: "cell_of c = F (slot_of (cell_of c)) \<and> slot_of (cell_of c) \<in> set (slots ?ids ?k)"
    if c: "c \<in> set (plan_trials plan)" for c
    using verified_cell [OF _ _ P(1,2,3) P(5) order olen, of c hmac seed] V c seeds
    unfolding F_def n_def runId_def by blast
  have dist: "distinct (map (slot_of \<circ> cell_of) (plan_trials plan))"
    using distinct_cell_slots [OF _ _ P(2)] V by blast
  have "mset (map (slot_of \<circ> cell_of) (plan_trials plan)) = mset (slots ?ids ?k)"
    by (rule same_distinct_mset) (use dist cell P(4) distinct_slots [OF P(1)] length_slots [OF P(1)] in auto)
  then have "image_mset F (mset (map (slot_of \<circ> cell_of) (plan_trials plan))) = image_mset F (mset (slots ?ids ?k))"
    by (rule arg_cong)
  moreover have "map cell_of (plan_trials plan) = map F (map (slot_of \<circ> cell_of) (plan_trials plan))"
    using cell by simp
  ultimately have "mset (map cell_of (plan_trials plan)) = mset (map F (slots ?ids ?k))" by (simp only: mset_map)
  moreover have "plan_cells hmac seed runId (int n + 1) ?ids ?k order = map F (slots ?ids ?k)"
    unfolding plan_cells_slots [OF P(1)] F_def ..
  ultimately show ?thesis using perm by auto
qed

lemma sealed_plan_verified_cells_witness:
  "\<exists>order raw. permutationOf (\<lambda>_ _. 0) (plan_draw (js ''s'') (js ''r'') 1) (length (plan_trials sample_plan))
      = Some (order, raw)
    \<and> mset (map cell_of (plan_trials sample_plan)) = mset (plan_cells (\<lambda>_ _. 0) (js ''s'') (js ''r'')
        (int (length (plan_trials sample_plan)) + 1) (plan_taskIds sample_plan) 1 order)"
proof -
  have f: "plan_field sample_plan ''runId'' = JStr (js ''r'')" "plan_field sample_plan ''kSealed'' = JNum 1"
    unfolding sample_plan_def plan_document_fields by (simp_all add: sample_plan_input_def)
  show ?thesis using sealed_plan_verified_cells [OF sample_plan_verifies] by (simp add: f)
qed

end
