(* ===== verification/SplitCeremony.thy ===== *)
theory SplitCeremony
  imports Rng
begin

text \<open>
  Model of \<^verbatim>\<open>packages/dsh-evolve-le/src/split/ceremony.ts\<close>: the task population is split
  once into an observed, a guard and a sealed part. The ceremony draws one permutation per stratum, so
  it is \<open>None\<close> where a draw does not return.

  The proportions are computed with doubles in the code. Below \<open>2 ^ 46\<close> tasks the integer part and the
  order of the remainders are exact there: products are exact, quotients that are not integral are at
  least \<open>1 / 89\<close> away from an integer and rounded by at most \<open>1 / 256\<close>, and two remainders are equal
  only when \<open>89\<close> divides the population, where all three are zero. The model computes with integers.
\<close>

section \<open>The sizes of the parts\<close>

definition SPLIT_PROTOCOL :: jstring where
  "SPLIT_PROTOCOL = js ''dsh-evolve-le/split-ceremony/v1''"

record split_counts =
  sc_observed :: int
  sc_guard :: int
  sc_sealed :: int

definition SPLIT_COUNTS :: split_counts where
  "SPLIT_COUNTS = \<lparr>sc_observed = 48, sc_guard = 12, sc_sealed = 29\<rparr>"

text \<open>The first loop: one more for each item, while some remainder is left.\<close>

fun add_remainder :: "int list \<Rightarrow> int \<Rightarrow> nat list \<Rightarrow> int list" where
  "add_remainder counts remainder [] = counts"
| "add_remainder counts remainder (item # items) =
     (if remainder = 0 then counts
      else add_remainder (counts[item := counts ! item + 1]) (remainder - 1) items)"

text \<open>One round of the second loop: an empty part takes one from the first part that can give.\<close>

definition fill_empty :: "int list \<Rightarrow> nat \<Rightarrow> int list res" where
  "fill_empty counts index =
     (if 0 < counts ! index then Inr counts
      else case find (\<lambda>d. 1 < counts ! d) [0..<length counts] of
        None \<Rightarrow> Inl (PlainError, ''split: cannot form three non-empty splits'')
      | Some donor \<Rightarrow> Inr (counts[donor := counts ! donor - 1, index := 1]))"

definition splitCountsForPopulation :: "int \<Rightarrow> split_counts res" where
  "splitCountsForPopulation n =
     ensure (safe_int n \<and> 3 \<le> n) (PlainError, ''split: population must contain at least 3 tasks'')
    (if n = sc_observed SPLIT_COUNTS + sc_guard SPLIT_COUNTS + sc_sealed SPLIT_COUNTS then Inr SPLIT_COUNTS
     else
       let weights = [sc_observed SPLIT_COUNTS, sc_guard SPLIT_COUNTS, sc_sealed SPLIT_COUNTS];
           counts = map (\<lambda>weight. weight * n div 89) weights;
           remainder = n - sum_list counts;
           order = sort_key (\<lambda>index. - (weights ! index * n mod 89)) [0..<3] in
       bindR (foldR fill_empty (add_remainder counts remainder order) [0..<3]) (\<lambda>counts.
       Inr \<lparr>sc_observed = counts ! 0, sc_guard = counts ! 1, sc_sealed = counts ! 2\<rparr>))"

section \<open>The ceremony\<close>

record split_input =
  si_runId :: jstring
  si_masterSeed :: jstring
  si_handles :: "jstring list"
  si_strata :: "jstring dict option"
  si_counts :: "split_counts option"

record split_ceremony =
  sy_runId :: jstring
  sy_datasetInputHash :: jstring
  sy_seedCommitment :: jstring
  sy_observedHandles :: "jstring list"
  sy_guardOpaqueIds :: "jstring list"
  sy_sealedCount :: int
  sy_sealedRoot :: jstring
  sy_strata :: "jstring list"

record sealed_split_store =
  ss_guardMap :: "jstring dict"
  ss_guardHandles :: "jstring list"
  ss_sealedHandles :: "jstring list"
  ss_sealedMap :: "jstring dict"

text \<open>Pairs of neighbours are hashed together; a last one without a partner is hashed with itself.\<close>

fun merkle_level :: "(jstring \<Rightarrow> jstring) \<Rightarrow> jstring list \<Rightarrow> jstring list" where
  "merkle_level sha (left # right # rest) = sha (left @ right) # merkle_level sha rest"
| "merkle_level sha [left] = [sha (left @ left)]"
| "merkle_level sha [] = []"

lemma length_merkle_level: "length (merkle_level sha xs) = (length xs + 1) div 2"
  by (induction sha xs rule: merkle_level.induct) auto

function merkle_up :: "(jstring \<Rightarrow> jstring) \<Rightarrow> jstring list \<Rightarrow> jstring" where
  "merkle_up sha level = (if 1 < length level then merkle_up sha (merkle_level sha level) else level ! 0)"
  by auto
termination by (relation "measure (length \<circ> snd)") (auto simp: length_merkle_level)

declare merkle_up.simps [simp del]

definition split_merkle_root :: "(jstring \<Rightarrow> jstring) \<Rightarrow> jstring list \<Rightarrow> jstring" where
  "split_merkle_root sha handles =
     (if handles = [] then sha [] else merkle_up sha (map sha (sort handles)))"

definition stratum_of :: "jstring dict \<Rightarrow> jstring \<Rightarrow> jstring" where
  "stratum_of strata handle = (case map_of strata handle of Some key \<Rightarrow> key | None \<Rightarrow> js ''all'')"

text \<open>The loop over the strata: each takes one counter range of its size and one more.\<close>

fun assign_strata ::
  "(jstring \<Rightarrow> jstring \<Rightarrow> 32 word) \<Rightarrow> jstring \<Rightarrow> jstring \<Rightarrow> jstring dict \<Rightarrow> jstring list
   \<Rightarrow> int \<Rightarrow> jstring list \<Rightarrow> jstring list option" where
  "assign_strata hmac masterSeed runId strata unique counter [] = Some []"
| "assign_strata hmac masterSeed runId strata unique counter (key # keys) =
     (let members = filter (\<lambda>handle. stratum_of strata handle = key) unique in
      case permutationOf hmac \<lparr>di_masterSeed = masterSeed, di_runId = runId, di_stream = js ''split'',
             di_counter = counter\<rparr> (length members) of
        None \<Rightarrow> None
      | Some (order, raw) \<Rightarrow>
          (case assign_strata hmac masterSeed runId strata unique (counter + int (length members) + 1) keys of
             None \<Rightarrow> None
           | Some assigned \<Rightarrow> Some (map (\<lambda>index. members ! nat index) order @ assigned)))"

definition opaque_map :: "string \<Rightarrow> jstring list \<Rightarrow> jstring dict" where
  "opaque_map prefix handles =
     map (\<lambda>(index, handle). (js prefix @ pad_zero 2 (dec (int index + 1)), handle)) (enumerate 0 handles)"

definition split_result ::
  "(jstring \<Rightarrow> jstring) \<Rightarrow> split_input \<Rightarrow> split_counts \<Rightarrow> jstring list \<Rightarrow> jstring list \<Rightarrow> jstring list
   \<Rightarrow> (split_ceremony \<times> sealed_split_store) res" where
  "split_result sha i counts unique stratumKeys assigned =
     (let n = int (length assigned);
          observed = sort (js_slice assigned 0 (sc_observed counts));
          guard = sort (js_slice assigned (sc_observed counts) (sc_observed counts + sc_guard counts));
          sealed = sort (js_slice assigned (sc_observed counts + sc_guard counts) n) in
      bindR (canonicalHash sha (JObj [(js ''handles'', JArr (map JStr unique))])) (\<lambda>datasetInputHash.
      Inr (\<lparr>sy_runId = si_runId i, sy_datasetInputHash = datasetInputHash,
             sy_seedCommitment = sha (si_masterSeed i @ 0 # datasetInputHash @ 0 # SPLIT_PROTOCOL),
             sy_observedHandles = observed, sy_guardOpaqueIds = map fst (opaque_map ''guard-'' guard),
             sy_sealedCount = int (length sealed), sy_sealedRoot = split_merkle_root sha sealed,
             sy_strata = stratumKeys\<rparr>,
           \<lparr>ss_guardMap = opaque_map ''guard-'' guard, ss_guardHandles = guard, ss_sealedHandles = sealed,
             ss_sealedMap = opaque_map ''sealed-'' sealed\<rparr>)))"

definition runSplitCeremony ::
  "(jstring \<Rightarrow> jstring \<Rightarrow> 32 word) \<Rightarrow> (jstring \<Rightarrow> jstring) \<Rightarrow> split_input
   \<Rightarrow> (split_ceremony \<times> sealed_split_store) res option" where
  "runSplitCeremony hmac sha i =
     (let counts = (case si_counts i of Some c \<Rightarrow> c | None \<Rightarrow> SPLIT_COUNTS);
          unique = sort (remdups (si_handles i));
          strata = (case si_strata i of Some s \<Rightarrow> s | None \<Rightarrow> []);
          stratumKeys = sort (remdups (map (stratum_of strata) unique)) in
      if int (length unique) \<noteq> sc_observed counts + sc_guard counts + sc_sealed counts
      then Some (Inl (PlainError, ''split: population cannot fill the slots''))
      else if length unique \<noteq> length (si_handles i)
      then Some (Inl (PlainError, ''split: duplicate handles in the population''))
      else (case assign_strata hmac (si_masterSeed i) (si_runId i) strata unique 1 stratumKeys of
          None \<Rightarrow> None
        | Some assigned \<Rightarrow> Some (split_result sha i counts unique stratumKeys assigned)))"

section \<open>The sizes add up\<close>

lemma length_add_remainder [simp]: "length (add_remainder counts r items) = length counts"
  by (induction counts r items rule: add_remainder.induct) auto

lemma sum_list_bump: "i < length xs \<Longrightarrow> sum_list (xs[i := xs ! i + 1]) = sum_list xs + (1 :: int)"
  by (induction xs arbitrary: i) (auto split: nat.split)

lemma add_remainder_sum:
  assumes "0 \<le> r" "r \<le> int (length items)" "\<forall>i\<in>set items. i < length counts"
  shows "sum_list (add_remainder counts r items) = sum_list counts + r"
  using assms
  by (induction counts r items rule: add_remainder.induct) (auto simp: sum_list_bump)

lemma add_remainder_ge:
  "\<forall>i\<in>set items. i < length counts \<Longrightarrow> counts ! j \<le> add_remainder counts r items ! j"
proof (induction counts r items rule: add_remainder.induct)
  case (2 counts r item items)
  show ?case
  proof (cases "r = 0")
    case False
    have "counts ! j \<le> counts[item := counts ! item + 1] ! j"
      using 2(2) by (cases "j < length counts") (auto simp: nth_list_update)
    with 2 False show ?thesis by fastforce
  qed simp
qed simp

lemma fill_positive: "\<forall>i\<in>set is. 0 < counts ! i \<Longrightarrow> foldR fill_empty counts is = Inr counts"
  by (induction "is") (auto simp: fill_empty_def)

lemma small_splits:
  "splitCountsForPopulation 3 = Inr \<lparr>sc_observed = 1, sc_guard = 1, sc_sealed = 1\<rparr>"
  "splitCountsForPopulation 4 = Inr \<lparr>sc_observed = 2, sc_guard = 1, sc_sealed = 1\<rparr>"
  "splitCountsForPopulation 5 = Inr \<lparr>sc_observed = 3, sc_guard = 1, sc_sealed = 1\<rparr>"
  "splitCountsForPopulation 6 = Inr \<lparr>sc_observed = 3, sc_guard = 1, sc_sealed = 2\<rparr>"
  "splitCountsForPopulation 7 = Inr \<lparr>sc_observed = 4, sc_guard = 1, sc_sealed = 2\<rparr>"
  by code_simp+

definition counts_ok :: "int \<Rightarrow> split_counts \<Rightarrow> bool" where
  "counts_ok n c \<longleftrightarrow> sc_observed c + sc_guard c + sc_sealed c = n
     \<and> 0 < sc_observed c \<and> 0 < sc_guard c \<and> 0 < sc_sealed c"

lemma large_split:
  assumes "8 \<le> n" "n \<le> max_safe"
  shows "\<exists>c. splitCountsForPopulation n = Inr c \<and> counts_ok n c"
proof (cases "n = 89")
  case True
  then show ?thesis by (simp add: splitCountsForPopulation_def SPLIT_COUNTS_def safe_int_def max_safe_def counts_ok_def)
next
  case False
  define counts where "counts = [48 * n div 89, 12 * n div 89, 29 * n div 89]"
  define order where "order = sort_key (\<lambda>index. - ([48, 12, 29] ! index * n mod 89)) [0..<3 :: nat]"
  define r where "r = n - sum_list counts"
  have r: "0 \<le> r" "r \<le> 2" by (simp_all add: r_def counts_def)
  have order: "set order = {0..<3}" "length order = 3" by (simp_all add: order_def)
  define res where "res = add_remainder counts r order"
  have len: "length res = 3" by (simp add: res_def counts_def)
  have "sum_list res = n"
    unfolding res_def using r order by (subst add_remainder_sum) (auto simp: counts_def r_def)
  moreover have "0 < counts ! i" if "i < 3" for i
    using assms(1) that by (auto simp: counts_def less_Suc_eq numeral_3_eq_3 numeral_2_eq_2)
  then have pos: "0 < res ! i" if "i < 3" for i
    using that add_remainder_ge [of order counts i r] order unfolding res_def counts_def by force
  moreover have "res = [res ! 0, res ! 1, res ! 2]"
    using len by (intro nth_equalityI) (auto simp: less_Suc_eq numeral_3_eq_3 numeral_2_eq_2)
  then have "sum_list res = res ! 0 + res ! 1 + res ! 2" by (metis (no_types) sum_list.Cons sum_list.Nil add.assoc add_0_right)
  moreover have "foldR fill_empty res [0..<3] = Inr res" by (rule fill_positive) (auto intro: pos)
  then have "splitCountsForPopulation n
      = Inr \<lparr>sc_observed = res ! 0, sc_guard = res ! 1, sc_sealed = res ! 2\<rparr>"
    using assms False
    by (simp add: splitCountsForPopulation_def SPLIT_COUNTS_def safe_int_def max_safe_def Let_def
        counts_def [symmetric] order_def [symmetric] r_def [symmetric] res_def [symmetric])
  ultimately show ?thesis by (auto simp: counts_ok_def pos)
qed

lemma split_counts_ok:
  assumes "3 \<le> n" "n \<le> max_safe"
  shows "\<exists>c. splitCountsForPopulation n = Inr c \<and> counts_ok n c"
proof (cases "8 \<le> n")
  case True
  then show ?thesis using assms(2) by (rule large_split)
next
  case False
  then have "n = 3 \<or> n = 4 \<or> n = 5 \<or> n = 6 \<or> n = 7" using assms(1) by presburger
  then show ?thesis by (elim disjE) (simp_all add: small_splits counts_ok_def)
qed

section \<open>The draw keeps the population\<close>

lemma permuted_members:
  assumes "permutationOf hmac d (length members) = Some (order, raw)"
  shows "mset (map (\<lambda>index. members ! nat index) order) = mset members"
proof -
  have "mset order = mset (map int [0..<length members])"
    using shuffle_result [OF assms [unfolded permutationOf_def]] by fastforce
  then have "mset (map (\<lambda>index. members ! nat index) order)
      = mset (map (\<lambda>index. members ! nat index) (map int [0..<length members]))" by (simp only: mset_map)
  also have "map (\<lambda>index. members ! nat index) (map int [0..<length members]) = members"
    by (simp add: comp_def map_nth)
  finally show ?thesis .
qed

lemma assign_strata_mset:
  assumes "assign_strata hmac seed runId strata unique counter keys = Some assigned" "distinct keys"
  shows "mset assigned = mset (filter (\<lambda>h. stratum_of strata h \<in> set keys) unique)"
  using assms
proof (induction keys arbitrary: counter assigned)
  case Nil
  then show ?case by simp
next
  case (Cons key keys)
  let ?members = "filter (\<lambda>h. stratum_of strata h = key) unique"
  from Cons.prems(1) obtain order raw rest where
    p: "permutationOf hmac \<lparr>di_masterSeed = seed, di_runId = runId, di_stream = js ''split'', di_counter = counter\<rparr>
          (length ?members) = Some (order, raw)"
    and rest: "assign_strata hmac seed runId strata unique (counter + int (length ?members) + 1) keys = Some rest"
    and assigned: "assigned = map (\<lambda>index. ?members ! nat index) order @ rest"
    by (auto simp: Let_def split: option.splits)
  have "mset assigned = mset ?members + mset (filter (\<lambda>h. stratum_of strata h \<in> set keys) unique)"
    using permuted_members [OF p] Cons.IH [OF rest] Cons.prems(2) by (simp only: assigned mset_append) auto
  also have "\<dots> = mset (filter (\<lambda>h. stratum_of strata h \<in> set (key # keys)) unique)"
    using Cons.prems(2) by (induction unique) auto
  finally show ?case .
qed

text \<open>The draws of the ceremony all return when none of them rejects for ever.\<close>

definition draws_return :: "(jstring \<Rightarrow> jstring \<Rightarrow> 32 word) \<Rightarrow> jstring \<Rightarrow> jstring \<Rightarrow> int \<Rightarrow> bool" where
  "draws_return hmac seed runId n \<longleftrightarrow>
     (\<forall>c m. 0 < m \<and> m \<le> n \<longrightarrow> (\<exists>k. accept (word_at hmac
        \<lparr>di_masterSeed = seed, di_runId = runId, di_stream = js ''split'', di_counter = 0\<rparr> (c + int k)) m \<noteq> None))"

lemma assign_strata_returns:
  assumes "draws_return hmac seed runId (int (length unique))"
  shows "\<exists>assigned. assign_strata hmac seed runId strata unique counter keys = Some assigned"
proof (induction keys arbitrary: counter)
  case Nil
  then show ?case by simp
next
  case (Cons key keys)
  let ?members = "filter (\<lambda>h. stratum_of strata h = key) unique"
  let ?d = "\<lparr>di_masterSeed = seed, di_runId = runId, di_stream = js ''split'', di_counter = counter\<rparr>"
  have w: "word_at hmac ?d = word_at hmac (?d\<lparr>di_counter := 0\<rparr>)" by (simp add: word_at_def fun_eq_iff)
  have "\<exists>r. permutationOf hmac ?d (length ?members) = Some r"
  proof (cases "length ?members")
    case 0
    then show ?thesis by (simp add: permutationOf_def)
  next
    case (Suc m)
    have "length ?members \<le> length unique" by (rule length_filter_le)
    then show ?thesis using assms Suc unfolding permutationOf_def draws_return_def
      by (intro shuffle_returns) (auto simp: w)
  qed
  with Cons.IH show ?case by (force simp: Let_def split: option.splits)
qed

section \<open>The parts\<close>

lemma unique_handles:
  assumes "distinct handles"
  shows "mset (sort (remdups handles)) = mset handles" "length (sort (remdups handles)) = length handles"
  using assms by (simp_all add: distinct_remdups_id)

lemma handles_hash: "\<exists>h. canonicalHash sha (JObj [(js ''handles'', JArr (map JStr unique))]) = Inr h"
proof -
  have "map serialize (map JStr unique) = map Inr (map json_string unique)" by simp
  then have "seqR (map serialize (map JStr unique)) = Inr (map json_string unique)" by (simp only: seqR_Inr_iff)
  then have "\<exists>t. canonicalJson (JObj [(js ''handles'', JArr (map JStr unique))]) = Inr t"
    unfolding canonicalJson_JObj_ok by simp
  then show ?thesis by (auto simp: canonicalHash_def)
qed

lemma map_snd_opaque [simp]: "map snd (opaque_map prefix hs) = hs"
  by (rule nth_equalityI) (auto simp: opaque_map_def nth_enumerate_eq)

lemma length_opaque [simp]: "length (opaque_map prefix hs) = length hs"
  by (simp add: opaque_map_def)

lemma opaque_names: "length hs = length hs' \<Longrightarrow> map fst (opaque_map prefix hs) = map fst (opaque_map prefix hs')"
  by (rule nth_equalityI) (auto simp: opaque_map_def nth_enumerate_eq)

text \<open>What a ceremony and its store hold together.\<close>

definition partition_of ::
  "jstring list \<Rightarrow> split_counts \<Rightarrow> split_ceremony \<times> sealed_split_store \<Rightarrow> bool" where
  "partition_of handles counts r \<longleftrightarrow>
     mset (sy_observedHandles (fst r) @ ss_guardHandles (snd r) @ ss_sealedHandles (snd r)) = mset handles
     \<and> int (length (sy_observedHandles (fst r))) = sc_observed counts
     \<and> int (length (ss_guardHandles (snd r))) = sc_guard counts
     \<and> int (length (ss_sealedHandles (snd r))) = sc_sealed counts \<and> sy_sealedCount (fst r) = sc_sealed counts
     \<and> map fst (ss_guardMap (snd r)) = sy_guardOpaqueIds (fst r) \<and> map snd (ss_guardMap (snd r)) = ss_guardHandles (snd r)
     \<and> map snd (ss_sealedMap (snd r)) = ss_sealedHandles (snd r)"

lemma split_result_partition:
  assumes "0 \<le> sc_observed counts" "0 \<le> sc_guard counts" "0 \<le> sc_sealed counts"
    and n: "int (length assigned) = sc_observed counts + sc_guard counts + sc_sealed counts"
    and "mset assigned = mset handles"
  shows "\<exists>r. split_result sha i counts unique keys assigned = Inr r \<and> partition_of handles counts r"
proof -
  let ?a = "sc_observed counts" and ?b = "sc_guard counts"
  have le: "?a + ?b \<le> int (length assigned)" using assms(3) n by simp
  note sl = slices_cover [OF assms(1,2) le]
  have "mset (sort (take (nat ?a) assigned) @ sort (take (nat ?b) (drop (nat ?a) assigned))
      @ sort (drop (nat (?a + ?b)) assigned))
    = mset (take (nat ?a) assigned @ take (nat ?b) (drop (nat ?a) assigned) @ drop (nat ?b) (drop (nat ?a) assigned))"
    using assms(1,2) by (simp add: nat_add_distrib add.commute)
  also have "\<dots> = mset handles" using assms(5) by (simp only: append_take_drop_id)
  finally have part: "mset (sort (take (nat ?a) assigned) @ sort (take (nat ?b) (drop (nat ?a) assigned))
      @ sort (drop (nat (?a + ?b)) assigned)) = mset handles" .
  have len: "int (length (take (nat ?a) assigned)) = ?a" "int (length (take (nat ?b) (drop (nat ?a) assigned))) = ?b"
    "int (length (drop (nat (?a + ?b)) assigned)) = sc_sealed counts"
    using assms(1-3) n by (auto simp: min_def)
  from handles_hash obtain h where "canonicalHash sha (JObj [(js ''handles'', JArr (map JStr unique))]) = Inr h"
    by blast
  then show ?thesis using part len by (simp add: split_result_def Let_def sl partition_of_def)
qed

section \<open>Properties\<close>

text \<open>
  C38: with the sizes computed for its population, the ceremony of at least
  three different handles is never refused: it ends whenever the draws do, the three parts are non-empty,
  have the sizes computed, and hold every handle exactly once, whatever the strata are; and the opaque
  identifiers name exactly the guard and sealed handles.
\<close>

theorem split_ceremony_partitions:
  assumes "distinct (si_handles i)" "3 \<le> length (si_handles i)" "int (length (si_handles i)) \<le> max_safe"
    and "draws_return hmac (si_masterSeed i) (si_runId i) (int (length (si_handles i)))"
  shows "\<exists>counts r. splitCountsForPopulation (int (length (si_handles i))) = Inr counts
    \<and> runSplitCeremony hmac sha (i\<lparr>si_counts := Some counts\<rparr>) = Some (Inr r)
    \<and> partition_of (si_handles i) counts r
    \<and> 0 < sc_observed counts \<and> 0 < sc_guard counts \<and> 0 < sc_sealed counts"
proof -
  obtain counts where counts: "splitCountsForPopulation (int (length (si_handles i))) = Inr counts"
    and ok: "counts_ok (int (length (si_handles i))) counts"
    using split_counts_ok [of "int (length (si_handles i))"] assms(2,3) by auto
  let ?u = "sort (remdups (si_handles i))"
  define strata where "strata = (case si_strata i of Some s \<Rightarrow> s | None \<Rightarrow> [])"
  let ?keys = "sort (remdups (map (stratum_of strata) ?u))"
  note u = unique_handles [OF assms(1)]
  have "\<exists>assigned. assign_strata hmac (si_masterSeed i) (si_runId i) strata ?u 1 ?keys = Some assigned"
    by (rule assign_strata_returns) (simp only: u(2) assms(4))
  then obtain assigned where a: "assign_strata hmac (si_masterSeed i) (si_runId i) strata ?u 1 ?keys = Some assigned" ..
  have "mset assigned = mset (filter (\<lambda>h. stratum_of strata h \<in> set ?keys) ?u)"
    by (rule assign_strata_mset [OF a]) simp
  also have "filter (\<lambda>h. stratum_of strata h \<in> set ?keys) ?u = ?u" by (rule filter_True) simp
  finally have ms: "mset assigned = mset (si_handles i)" using u(1) by simp
  then have "length assigned = length (si_handles i)" by (rule mset_eq_length)
  then obtain r where r: "split_result sha (i\<lparr>si_counts := Some counts\<rparr>) counts ?u ?keys assigned = Inr r"
    "partition_of (si_handles i) counts r"
    using split_result_partition [OF _ _ _ _ ms, of counts] ok by (fastforce simp: counts_ok_def)
  have "runSplitCeremony hmac sha (i\<lparr>si_counts := Some counts\<rparr>) = Some (Inr r)"
    using a r(1) ok u(2) by (simp add: runSplitCeremony_def Let_def strata_def [symmetric] counts_ok_def)
  then show ?thesis using counts r(2) ok unfolding counts_ok_def by blast
qed

definition sample_split :: split_input where
  "sample_split = \<lparr>si_runId = js ''r'', si_masterSeed = js ''s'', si_handles = [js ''b'', js ''a'', js ''c''],
     si_strata = None, si_counts = None\<rparr>"

lemma split_ceremony_partitions_witness:
  "\<exists>counts r. splitCountsForPopulation 3 = Inr counts
    \<and> runSplitCeremony (\<lambda>_ _. 0) sample_sha (sample_split\<lparr>si_counts := Some counts\<rparr>) = Some (Inr r)
    \<and> partition_of [js ''b'', js ''a'', js ''c''] counts r
    \<and> 0 < sc_observed counts \<and> 0 < sc_guard counts \<and> 0 < sc_sealed counts"
proof -
  have accepts: "accept (0 :: 32 word) m \<noteq> None" if "0 < m" "m \<le> 3" for m
  proof -
    have "m = 1 \<or> m = 2 \<or> m = 3" using that by auto
    then show ?thesis by (auto simp: accept_eq max_safe_def)
  qed
  have "draws_return (\<lambda>_ _. 0) (js ''s'') (js ''r'') 3"
    unfolding draws_return_def by (auto simp: word_at_def drawWords_def accepts)
  then show ?thesis using split_ceremony_partitions [of sample_split "\<lambda>_ _. 0" sample_sha]
    by (simp add: sample_split_def max_safe_def)
qed

end
