(* ===== verification/Tournament.thy ===== *)
theory Tournament
  imports CanonicalJson
begin

text \<open>
  Model of \<^verbatim>\<open>packages/dsh-evolve-le/src/selection/tournament.ts\<close>: which children are
  eligible, the plan of coverage waves, and the choice of the champion from scored rows. The scores
  themselves are doubles a bootstrap returns; they are elements of any linear order, and \<open>topLcb - 0.01\<close>
  is an argument \<open>window\<close>. The shortlist draw from beta distributions is not modelled.
\<close>

section \<open>Eligibility\<close>

record eligibility_node =
  en_candidateId :: jstring
  en_observationCount :: int
  en_artifactsComplete :: bool

definition eligibleTournamentNodes ::
  "jstring \<Rightarrow> eligibility_node list \<Rightarrow> int \<Rightarrow> eligibility_node list" where
  "eligibleTournamentNodes baselineId nodes minEligibilityTrials =
     sort_key en_candidateId
       (filter (\<lambda>node. en_candidateId node \<noteq> baselineId
          \<and> minEligibilityTrials \<le> en_observationCount node \<and> en_artifactsComplete node) nodes)"

section \<open>Coverage\<close>

record coverage_input =
  ci_baselineId :: jstring
  ci_shortlist :: "jstring list"
  ci_tasks :: "jstring list"
  ci_attemptsPerTask :: int
  ci_batchSize :: int
  ci_concurrency :: int
  ci_priorAttempts :: "jstring \<Rightarrow> jstring \<Rightarrow> int"

record coverage_member =
  cm_taskId :: jstring
  cm_attempt :: int

record coverage_wave =
  cw_waveId :: jstring
  cw_nodeIdx :: int
  cw_members :: "coverage_member list"

record coverage_plan =
  cp_nodes :: "jstring list"
  cp_tasks :: "jstring list"
  cp_trialCount :: int
  cp_waves :: "coverage_wave list"

text \<open>
  \<open>batchIndex < Math.ceil(tasks.length / batchSize)\<close>: without a batch size the quotient is infinite,
  or not a number when there are no tasks either.
\<close>

definition more_batches :: "coverage_input \<Rightarrow> int \<Rightarrow> bool" where
  "more_batches i batchIndex \<longleftrightarrow>
     (if ci_batchSize i = 0 then ci_tasks i \<noteq> []
      else batchIndex < - (- int (length (ci_tasks i)) div ci_batchSize i))"

definition batch_at :: "coverage_input \<Rightarrow> int \<Rightarrow> jstring list" where
  "batch_at i batchIndex =
     js_slice (ci_tasks i) (batchIndex * ci_batchSize i)
       (min ((batchIndex + 1) * ci_batchSize i) (int (length (ci_tasks i))))"

definition wave_name :: "coverage_input \<Rightarrow> nat \<Rightarrow> int \<Rightarrow> int \<Rightarrow> int \<Rightarrow> jstring" where
  "wave_name i nodeIdx attempt batchIndex waveIndex =
     js ''tournament-'' @ dec (int nodeIdx)
     @ (if ci_attemptsPerTask i = 1 then [] else js ''-a'' @ dec attempt)
     @ js ''-'' @ dec (batchIndex + 1) @ js ''-'' @ dec waveIndex"

definition wave_at :: "coverage_input \<Rightarrow> nat \<Rightarrow> jstring \<Rightarrow> int \<Rightarrow> int \<Rightarrow> int \<Rightarrow> jstring list \<Rightarrow> coverage_wave" where
  "wave_at i nodeIdx nodeId attempt batchIndex offset chunk =
     \<lparr>cw_waveId = wave_name i nodeIdx attempt batchIndex (offset div ci_concurrency i + 1),
      cw_nodeIdx = int nodeIdx,
      cw_members = map (\<lambda>taskId. \<lparr>cm_taskId = taskId, cm_attempt = ci_priorAttempts i nodeId taskId + attempt\<rparr>) chunk\<rparr>"

text \<open>
  The two innermost loops may not end (a batch size or a concurrency that is not positive), so they
  are partial.
\<close>

partial_function (option) chunk_waves ::
  "(int \<Rightarrow> jstring list \<Rightarrow> coverage_wave) \<Rightarrow> int \<Rightarrow> jstring list \<Rightarrow> int \<Rightarrow> coverage_wave list option" where
  "chunk_waves wave concurrency batch offset =
     (if offset < int (length batch)
      then Option.bind (chunk_waves wave concurrency batch (offset + concurrency)) (\<lambda>waves.
        Some (wave offset (js_slice batch offset (offset + concurrency)) # waves))
      else Some [])"

partial_function (option) batch_waves ::
  "coverage_input \<Rightarrow> nat \<Rightarrow> jstring \<Rightarrow> int \<Rightarrow> int \<Rightarrow> coverage_wave list option" where
  "batch_waves i nodeIdx nodeId attempt batchIndex =
     (if more_batches i batchIndex
      then Option.bind (chunk_waves (wave_at i nodeIdx nodeId attempt batchIndex) (ci_concurrency i)
             (batch_at i batchIndex) 0) (\<lambda>waves.
        Option.bind (batch_waves i nodeIdx nodeId attempt (batchIndex + 1)) (\<lambda>rest. Some (waves @ rest)))
      else Some [])"

fun attempt_waves :: "coverage_input \<Rightarrow> nat \<Rightarrow> jstring \<Rightarrow> int \<Rightarrow> nat \<Rightarrow> coverage_wave list option" where
  "attempt_waves i nodeIdx nodeId attempt 0 = Some []"
| "attempt_waves i nodeIdx nodeId attempt (Suc rounds) =
     Option.bind (batch_waves i nodeIdx nodeId attempt 0) (\<lambda>waves.
     Option.bind (attempt_waves i nodeIdx nodeId (attempt + 1) rounds) (\<lambda>rest. Some (waves @ rest)))"

fun node_waves :: "coverage_input \<Rightarrow> nat \<Rightarrow> jstring list \<Rightarrow> coverage_wave list option" where
  "node_waves i nodeIdx [] = Some []"
| "node_waves i nodeIdx (nodeId # nodes) =
     Option.bind (attempt_waves i nodeIdx nodeId 1 (nat (ci_attemptsPerTask i))) (\<lambda>waves.
     Option.bind (node_waves i (Suc nodeIdx) nodes) (\<lambda>rest. Some (waves @ rest)))"

definition buildTournamentCoverage :: "coverage_input \<Rightarrow> coverage_plan option" where
  "buildTournamentCoverage i =
     (let nodes = ci_baselineId i # ci_shortlist i in
      case node_waves i 0 nodes of
        None \<Rightarrow> None
      | Some waves \<Rightarrow> Some
          \<lparr>cp_nodes = nodes, cp_tasks = ci_tasks i,
           cp_trialCount = int (length nodes) * int (length (ci_tasks i)) * ci_attemptsPerTask i,
           cp_waves = waves\<rparr>)"

section \<open>The champion\<close>

record 'f score_row =
  sr_candidateId :: jstring
  sr_delta :: 'f
  sr_lcb :: 'f
  sr_meanCostUsdMicros :: "'f option"
  sr_medianDurationMs :: "'f option"

text \<open>An absent cost counts as infinite.\<close>

fun cheaper :: "'f :: linorder option \<Rightarrow> 'f option \<Rightarrow> bool" where
  "cheaper (Some a) (Some b) = (a < b)"
| "cheaper (Some a) None = True"
| "cheaper None b = False"

definition tieBreaksBetter :: "'f :: linorder score_row \<Rightarrow> 'f score_row \<Rightarrow> bool" where
  "tieBreaksBetter a b =
     (if sr_meanCostUsdMicros a \<noteq> sr_meanCostUsdMicros b
      then cheaper (sr_meanCostUsdMicros a) (sr_meanCostUsdMicros b)
      else if sr_medianDurationMs a \<noteq> sr_medianDurationMs b
      then cheaper (sr_medianDurationMs a) (sr_medianDurationMs b)
      else sr_candidateId a < sr_candidateId b)"

text \<open>
  The sort by \<open>tieBreaksBetter(a, b) ? -1 : 1\<close>: rows of different candidates are never equal under
  it, so every sorting algorithm gives the order insertion gives.
\<close>

fun insert_row :: "'f :: linorder score_row \<Rightarrow> 'f score_row list \<Rightarrow> 'f score_row list" where
  "insert_row a [] = [a]"
| "insert_row a (b # bs) = (if tieBreaksBetter a b then a # b # bs else b # insert_row a bs)"

definition contenders :: "('f :: linorder \<Rightarrow> 'f) \<Rightarrow> 'f score_row list \<Rightarrow> 'f score_row list" where
  "contenders window rows = (let topLcb = Max (set (map sr_lcb rows)) in filter (\<lambda>row. window topLcb \<le> sr_lcb row) rows)"

definition tournament_champion :: "('f :: linorder \<Rightarrow> 'f) \<Rightarrow> 'f score_row list \<Rightarrow> 'f score_row res" where
  "tournament_champion window rows =
     ensure (rows \<noteq> []) (PlainError, ''tournament: empty scoring population'')
       (Inr (hd (foldr insert_row (contenders window rows) [])))"

section \<open>The lock\<close>

definition tripleLockHash :: "(jstring \<Rightarrow> jstring) \<Rightarrow> jstring \<Rightarrow> jstring \<Rightarrow> jstring \<Rightarrow> jstring" where
  "tripleLockHash sha sourceHash capsuleHash manifestHash = sha (sourceHash @ capsuleHash @ manifestHash)"

section \<open>The coverage loops\<close>

definition trials_of :: "coverage_wave \<Rightarrow> (int \<times> jstring \<times> int) list" where
  "trials_of w = map (\<lambda>m. (cw_nodeIdx w, cm_taskId m, cm_attempt m)) (cw_members w)"

text \<open>
  What a stretch of a loop contributes: the trials it lists, waves that are neither empty nor larger
  than the concurrency, and names that are all different and of the given kind.
\<close>

definition covers ::
  "int \<Rightarrow> (jstring \<Rightarrow> bool) \<Rightarrow> (int \<times> jstring \<times> int) list \<Rightarrow> coverage_wave list option \<Rightarrow> bool" where
  "covers concurrency name trials r \<longleftrightarrow> (\<exists>waves. r = Some waves \<and> concat (map trials_of waves) = trials
     \<and> (\<forall>w\<in>set waves. cw_members w \<noteq> [] \<and> int (length (cw_members w)) \<le> concurrency \<and> name (cw_waveId w))
     \<and> distinct (map cw_waveId waves))"

lemma covers_mono: "covers c name trials r \<Longrightarrow> (\<And>x. name x \<Longrightarrow> name' x) \<Longrightarrow> covers c name' trials r"
  by (auto simp: covers_def)

lemma covers_append:
  assumes "covers c name trials (Some waves)" "covers c name' trials' (Some waves')"
    and "\<And>x. name x \<Longrightarrow> \<not> name' x"
  shows "covers c (\<lambda>x. name x \<or> name' x) (trials @ trials') (Some (waves @ waves'))"
proof -
  have "distinct (map cw_waveId (waves @ waves'))"
    using assms by (fastforce simp: covers_def)
  with assms(1,2) show ?thesis by (auto simp: covers_def)
qed

lemma covers_Nil: "covers c name [] (Some [])"
  by (simp add: covers_def)

lemma coversE: "covers c name trials r \<Longrightarrow> \<exists>waves. r = Some waves \<and> covers c name trials (Some waves)"
  by (auto simp: covers_def)

lemma chunk_waves_covers:
  assumes "0 < concurrency" "0 \<le> offset"
    and trials: "\<And>p chunk. trials_of (wave p chunk) = map f chunk"
    and name: "\<And>p chunk. cw_waveId (wave p chunk) = name (p div concurrency + 1)"
    and inj: "\<And>a b. 1 \<le> a \<Longrightarrow> 1 \<le> b \<Longrightarrow> name a = name b \<Longrightarrow> a = b"
  shows "covers concurrency (\<lambda>x. \<exists>k\<ge>offset div concurrency + 1. x = name k) (map f (drop (nat offset) batch))
           (chunk_waves wave concurrency batch offset)"
  using assms(2)
proof (induction "nat (int (length batch) - offset)" arbitrary: offset rule: less_induct)
  case less
  show ?case
  proof (cases "offset < int (length batch)")
    case False
    then show ?thesis using less.prems by (subst chunk_waves.simps) (simp add: covers_Nil)
  next
    case True
    let ?next = "offset + concurrency"
    let ?w = "wave offset (js_slice batch offset ?next)"
    have nxt: "?next div concurrency = offset div concurrency + 1" using assms(1) by simp
    have "covers concurrency (\<lambda>x. \<exists>k\<ge>?next div concurrency + 1. x = name k) (map f (drop (nat ?next) batch))
        (chunk_waves wave concurrency batch ?next)"
      using True assms(1) less.prems by (intro less.hyps) auto
    from coversE [OF this] obtain ws where ws: "chunk_waves wave concurrency batch ?next = Some ws"
      "covers concurrency (\<lambda>x. \<exists>k\<ge>?next div concurrency + 1. x = name k) (map f (drop (nat ?next) batch)) (Some ws)"
      by blast
    have slice: "js_slice batch offset ?next = take (nat concurrency) (drop (nat offset) batch)"
      using less.prems assms(1) by (intro js_slice_nonneg) auto
    have len: "length (cw_members ?w) = length (js_slice batch offset ?next)"
      using arg_cong [OF trials [of offset "js_slice batch offset ?next"], of length] by (simp add: trials_of_def)
    have "js_slice batch offset ?next \<noteq> []" using True less.prems assms(1) by (simp add: slice)
    moreover have "int (length (js_slice batch offset ?next)) \<le> concurrency" using assms(1) by (simp add: slice)
    ultimately have "covers concurrency (\<lambda>x. x = name (offset div concurrency + 1)) (map f (js_slice batch offset ?next)) (Some [?w])"
      using len by (auto simp: covers_def trials name)
    moreover have "\<not> (\<exists>k\<ge>?next div concurrency + 1. x = name k)" if "x = name (offset div concurrency + 1)" for x
    proof
      assume "\<exists>k\<ge>?next div concurrency + 1. x = name k"
      then obtain k where k: "?next div concurrency + 1 \<le> k" "x = name k" by blast
      have "0 \<le> offset div concurrency" using assms(1) less.prems by (simp add: pos_imp_zdiv_nonneg_iff)
      then have "k = offset div concurrency + 1" using k that nxt by (intro inj) auto
      then show False using k(1) nxt by simp
    qed
    ultimately have "covers concurrency
        (\<lambda>x. x = name (offset div concurrency + 1) \<or> (\<exists>k\<ge>?next div concurrency + 1. x = name k))
        (map f (js_slice batch offset ?next) @ map f (drop (nat ?next) batch)) (Some ([?w] @ ws))"
      using ws(2) by (intro covers_append)
    moreover have "js_slice batch offset ?next @ drop (nat ?next) batch = drop (nat offset) batch"
      using less.prems assms(1) by (simp add: slice nat_add_distrib add.commute [of "nat offset"] flip: drop_drop)
    then have "map f (js_slice batch offset ?next) @ map f (drop (nat ?next) batch) = map f (drop (nat offset) batch)"
      by (metis map_append)
    moreover have "chunk_waves wave concurrency batch offset = Some ([?w] @ ws)"
      using True ws(1) by (subst chunk_waves.simps) simp
    ultimately have "covers concurrency
        (\<lambda>x. x = name (offset div concurrency + 1) \<or> (\<exists>k\<ge>?next div concurrency + 1. x = name k))
        (map f (drop (nat offset) batch)) (chunk_waves wave concurrency batch offset)" by simp
    moreover have "offset div concurrency + 1 \<le> k" if "?next div concurrency + 1 \<le> k" for k
      using that nxt by simp
    ultimately show ?thesis by (elim covers_mono) (blast intro: order_refl)
  qed
qed

text \<open>Names of waves of one attempt count are different for different places in the loops.\<close>

lemma no_dash: "0 \<le> n \<Longrightarrow> unit_of (CHR ''-'') \<notin> set (dec n)"
  using set_dec [of n "unit_of (CHR ''-'')"] by (auto simp: is_dec_digit_def unit_of_def)

lemma wave_name_inject:
  assumes "wave_name i n a b w = wave_name i n' a' b' w'" "0 \<le> b" "0 \<le> b'" "0 \<le> w" "0 \<le> w'" "0 \<le> a" "0 \<le> a'"
    and "ci_attemptsPerTask i = 1 \<longrightarrow> a = a'"
  shows "n = n' \<and> a = a' \<and> b = b' \<and> w = w'"
proof -
  let ?d = "unit_of (CHR ''-'')"
  have parts: "split_on ?d (wave_name i n a b w)
      = js ''tournament'' # dec (int n) # (if ci_attemptsPerTask i = 1 then [] else [unit_of (CHR ''a'') # dec a])
        @ [dec (b + 1), dec w]" if "0 \<le> a" "0 \<le> b" "0 \<le> w" for n a b w
  proof -
    have "js ''tournament-'' = js ''tournament'' @ [?d]" by (simp add: js_def)
    moreover have "js ''-'' = [?d]" "js ''-a'' = [?d, unit_of (CHR ''a'')]" by (simp_all add: js_def)
    moreover have "?d \<notin> set (js ''tournament'')" by (simp add: js_def)
    ultimately show ?thesis using that no_dash [of "int n"] no_dash [of a] no_dash [of "b + 1"] no_dash [of w]
      by (simp add: wave_name_def split_on_append split_on_none split_on_append [of ?d "unit_of (CHR ''a'') # dec a", simplified])
  qed
  show ?thesis using arg_cong [OF assms(1), of "split_on ?d"] assms(2-)
    by (auto simp: parts split: if_splits dest!: dec_inject [rotated 2])
qed

lemma le_div_iff_mult_le_int:
  assumes "0 < s"
  shows "c \<le> a div s \<longleftrightarrow> c * s \<le> (a :: int)"
proof
  assume "c \<le> a div s"
  then have "c * s \<le> a div s * s" using assms by (intro mult_right_mono) auto
  also have "\<dots> \<le> a" using div_mult_mod_eq [of a s] pos_mod_sign [OF assms, of a] by linarith
  finally show "c * s \<le> a" .
next
  assume "c * s \<le> a"
  then have "c * s div s \<le> a div s" using assms by (intro zdiv_mono1)
  then show "c \<le> a div s" using assms by simp
qed

lemma more_batches_iff: "0 < ci_batchSize i \<Longrightarrow>
    more_batches i b \<longleftrightarrow> b * ci_batchSize i < int (length (ci_tasks i))"
  using le_div_iff_mult_le_int [of "ci_batchSize i" "- b" "- int (length (ci_tasks i))"]
  by (auto simp: more_batches_def)

lemma batch_at_eq:
  assumes "0 < ci_batchSize i" "0 \<le> b" "more_batches i b"
  shows "batch_at i b = take (nat (ci_batchSize i)) (drop (nat (b * ci_batchSize i)) (ci_tasks i))"
proof -
  let ?n = "int (length (ci_tasks i))" and ?s = "b * ci_batchSize i"
  have s: "0 \<le> ?s" "?s < ?n" using assms by (simp_all add: more_batches_iff)
  show ?thesis
  proof (cases "?s + ci_batchSize i \<le> ?n")
    case True
    then show ?thesis using s assms(1) js_slice_nonneg [of ?s "ci_batchSize i" "ci_tasks i"]
      by (simp add: batch_at_def algebra_simps min_def)
  next
    case False
    have "batch_at i b = js_slice (ci_tasks i) ?s (?s + (?n - ?s))"
      using False by (simp add: batch_at_def algebra_simps min_def)
    also have "\<dots> = take (nat (?n - ?s)) (drop (nat ?s) (ci_tasks i))" using s by (intro js_slice_nonneg) auto
    finally show ?thesis using False s by simp
  qed
qed

text \<open>The trials of one attempt of a node.\<close>

definition attempt_trials :: "coverage_input \<Rightarrow> nat \<Rightarrow> jstring \<Rightarrow> int \<Rightarrow> jstring list \<Rightarrow> (int \<times> jstring \<times> int) list" where
  "attempt_trials i nodeIdx nodeId attempt tasks =
     map (\<lambda>taskId. (int nodeIdx, taskId, ci_priorAttempts i nodeId taskId + attempt)) tasks"

lemma batch_waves_covers:
  assumes pos: "0 < ci_batchSize i" "0 < ci_concurrency i" and a: "0 \<le> attempt" and "0 \<le> b"
  shows "covers (ci_concurrency i) (\<lambda>x. \<exists>c\<ge>b. \<exists>w\<ge>1. x = wave_name i nodeIdx attempt c w)
    (attempt_trials i nodeIdx nodeId attempt (drop (nat (b * ci_batchSize i)) (ci_tasks i)))
    (batch_waves i nodeIdx nodeId attempt b)"
  using assms(4)
proof (induction "nat (int (length (ci_tasks i)) - b * ci_batchSize i)" arbitrary: b rule: less_induct)
  case less
  show ?case
  proof (cases "more_batches i b")
    case False
    then have "drop (nat (b * ci_batchSize i)) (ci_tasks i) = []" using less.prems pos by (simp add: more_batches_iff)
    then show ?thesis using False by (subst batch_waves.simps) (simp add: attempt_trials_def covers_Nil)
  next
    case True
    let ?f = "\<lambda>taskId. (int nodeIdx, taskId, ci_priorAttempts i nodeId taskId + attempt)"
    have lt: "b * ci_batchSize i < int (length (ci_tasks i))" using True pos by (simp add: more_batches_iff)
    have "covers (ci_concurrency i) (\<lambda>x. \<exists>k\<ge>0 div ci_concurrency i + 1. x = wave_name i nodeIdx attempt b k)
        (map ?f (drop (nat 0) (batch_at i b)))
        (chunk_waves (wave_at i nodeIdx nodeId attempt b) (ci_concurrency i) (batch_at i b) 0)"
      using pos less.prems a
      by (intro chunk_waves_covers)
        (auto simp: wave_at_def trials_of_def comp_def dest!: wave_name_inject)
    from coversE [OF this] obtain ws where ws:
      "chunk_waves (wave_at i nodeIdx nodeId attempt b) (ci_concurrency i) (batch_at i b) 0 = Some ws"
      "covers (ci_concurrency i) (\<lambda>x. \<exists>w\<ge>1. x = wave_name i nodeIdx attempt b w) (map ?f (batch_at i b)) (Some ws)"
      by auto
    have "covers (ci_concurrency i) (\<lambda>x. \<exists>c\<ge>b + 1. \<exists>w\<ge>1. x = wave_name i nodeIdx attempt c w)
        (attempt_trials i nodeIdx nodeId attempt (drop (nat ((b + 1) * ci_batchSize i)) (ci_tasks i)))
        (batch_waves i nodeIdx nodeId attempt (b + 1))"
      using less.prems pos lt by (intro less.hyps) (auto simp: algebra_simps)
    from coversE [OF this] obtain rest where rest: "batch_waves i nodeIdx nodeId attempt (b + 1) = Some rest"
      "covers (ci_concurrency i) (\<lambda>x. \<exists>c\<ge>b + 1. \<exists>w\<ge>1. x = wave_name i nodeIdx attempt c w)
        (attempt_trials i nodeIdx nodeId attempt (drop (nat ((b + 1) * ci_batchSize i)) (ci_tasks i))) (Some rest)"
      by blast
    have "covers (ci_concurrency i) (\<lambda>x. (\<exists>w\<ge>1. x = wave_name i nodeIdx attempt b w)
          \<or> (\<exists>c\<ge>b + 1. \<exists>w\<ge>1. x = wave_name i nodeIdx attempt c w))
        (map ?f (batch_at i b) @ attempt_trials i nodeIdx nodeId attempt (drop (nat ((b + 1) * ci_batchSize i)) (ci_tasks i)))
        (Some (ws @ rest))"
      using ws(2) rest(2) a less.prems by (intro covers_append) (auto dest!: wave_name_inject)
    moreover have "batch_at i b @ drop (nat ((b + 1) * ci_batchSize i)) (ci_tasks i)
        = drop (nat (b * ci_batchSize i)) (ci_tasks i)"
    proof -
      have "nat ((b + 1) * ci_batchSize i) = nat (ci_batchSize i) + nat (b * ci_batchSize i)"
        using pos(1) less.prems by (simp add: distrib_right nat_add_distrib)
      then show ?thesis by (simp add: batch_at_eq [OF pos(1) less.prems True] flip: drop_drop)
    qed
    then have "map ?f (batch_at i b) @ attempt_trials i nodeIdx nodeId attempt (drop (nat ((b + 1) * ci_batchSize i)) (ci_tasks i))
        = attempt_trials i nodeIdx nodeId attempt (drop (nat (b * ci_batchSize i)) (ci_tasks i))"
      unfolding attempt_trials_def by (metis map_append)
    moreover have "batch_waves i nodeIdx nodeId attempt b = Some (ws @ rest)"
      using True ws(1) rest(1) by (subst batch_waves.simps) simp
    ultimately have "covers (ci_concurrency i) (\<lambda>x. (\<exists>w\<ge>1. x = wave_name i nodeIdx attempt b w)
          \<or> (\<exists>c\<ge>b + 1. \<exists>w\<ge>1. x = wave_name i nodeIdx attempt c w))
        (attempt_trials i nodeIdx nodeId attempt (drop (nat (b * ci_batchSize i)) (ci_tasks i)))
        (batch_waves i nodeIdx nodeId attempt b)" by simp
    moreover have "b \<le> c" if "b + 1 \<le> c" for c using that by simp
    ultimately show ?thesis by (elim covers_mono) (blast intro: order_refl)
  qed
qed

text \<open>All attempts of a node, and all nodes.\<close>

definition node_trials :: "coverage_input \<Rightarrow> nat \<Rightarrow> jstring \<Rightarrow> int \<Rightarrow> nat \<Rightarrow> (int \<times> jstring \<times> int) list" where
  "node_trials i nodeIdx nodeId attempt rounds =
     concat (map (\<lambda>j. attempt_trials i nodeIdx nodeId (attempt + int j) (ci_tasks i)) [0..<rounds])"

lemma node_trials_Suc: "node_trials i nodeIdx nodeId attempt (Suc rounds)
    = attempt_trials i nodeIdx nodeId attempt (ci_tasks i) @ node_trials i nodeIdx nodeId (attempt + 1) rounds"
  unfolding node_trials_def map_upt_Suc by (simp add: add.assoc)

lemma attempt_waves_covers:
  assumes pos: "0 < ci_batchSize i" "0 < ci_concurrency i" and one: "ci_attemptsPerTask i = 1 \<Longrightarrow> rounds \<le> 1"
    and "0 \<le> attempt"
  shows "covers (ci_concurrency i) (\<lambda>x. \<exists>a\<ge>attempt. \<exists>b\<ge>0. \<exists>w\<ge>1. x = wave_name i nodeIdx a b w)
    (node_trials i nodeIdx nodeId attempt rounds) (attempt_waves i nodeIdx nodeId attempt rounds)"
  using one assms(4)
proof (induction rounds arbitrary: attempt)
  case 0
  then show ?case by (simp add: node_trials_def covers_Nil)
next
  case (Suc rounds)
  have "covers (ci_concurrency i) (\<lambda>x. \<exists>b\<ge>0. \<exists>w\<ge>1. x = wave_name i nodeIdx attempt b w)
      (attempt_trials i nodeIdx nodeId attempt (ci_tasks i)) (batch_waves i nodeIdx nodeId attempt 0)"
    using batch_waves_covers [OF pos Suc.prems(2), of 0] by simp
  from coversE [OF this] obtain ws where ws: "batch_waves i nodeIdx nodeId attempt 0 = Some ws"
    "covers (ci_concurrency i) (\<lambda>x. \<exists>b\<ge>0. \<exists>w\<ge>1. x = wave_name i nodeIdx attempt b w)
      (attempt_trials i nodeIdx nodeId attempt (ci_tasks i)) (Some ws)" by blast
  show ?case
  proof (cases "ci_attemptsPerTask i = 1")
    case True
    then have "rounds = 0" using Suc.prems(1) by simp
    then show ?thesis using ws by (auto simp: node_trials_def elim!: covers_mono)
  next
    case False
    have "covers (ci_concurrency i) (\<lambda>x. \<exists>a\<ge>attempt + 1. \<exists>b\<ge>0. \<exists>w\<ge>1. x = wave_name i nodeIdx a b w)
        (node_trials i nodeIdx nodeId (attempt + 1) rounds) (attempt_waves i nodeIdx nodeId (attempt + 1) rounds)"
      using False Suc.prems(2) by (intro Suc.IH) auto
    from coversE [OF this] obtain rest where rest: "attempt_waves i nodeIdx nodeId (attempt + 1) rounds = Some rest"
      "covers (ci_concurrency i) (\<lambda>x. \<exists>a\<ge>attempt + 1. \<exists>b\<ge>0. \<exists>w\<ge>1. x = wave_name i nodeIdx a b w)
        (node_trials i nodeIdx nodeId (attempt + 1) rounds) (Some rest)" by blast
    have "covers (ci_concurrency i) (\<lambda>x. (\<exists>b\<ge>0. \<exists>w\<ge>1. x = wave_name i nodeIdx attempt b w)
          \<or> (\<exists>a\<ge>attempt + 1. \<exists>b\<ge>0. \<exists>w\<ge>1. x = wave_name i nodeIdx a b w))
        (node_trials i nodeIdx nodeId attempt (Suc rounds)) (Some (ws @ rest))"
      unfolding node_trials_Suc using ws(2) rest(2) Suc.prems(2) False
      by (intro covers_append) (auto dest!: wave_name_inject)
    moreover have "attempt_waves i nodeIdx nodeId attempt (Suc rounds) = Some (ws @ rest)"
      using ws(1) rest(1) by simp
    moreover have "attempt \<le> a" if "attempt + 1 \<le> a" for a using that by simp
    ultimately show ?thesis by (elim ssubst covers_mono) (blast intro: order_refl)
  qed
qed

lemma wave_name_node:
  assumes "wave_name i n a b w = wave_name i n' a' b' w'" "0 \<le> b" "0 \<le> b'" "0 \<le> w" "0 \<le> w'" "0 \<le> a" "0 \<le> a'"
  shows "n = n'"
proof (cases "ci_attemptsPerTask i = 1")
  case True
  then have "wave_name i n' a' b' w' = wave_name i n' a b' w'" by (simp add: wave_name_def)
  then show ?thesis using assms wave_name_inject [of i n a b w n' a b' w'] by simp
next
  case False
  then show ?thesis using wave_name_inject [OF assms] by simp
qed

lemma node_waves_covers:
  assumes pos: "0 < ci_batchSize i" "0 < ci_concurrency i"
  shows "covers (ci_concurrency i) (\<lambda>x. \<exists>n\<ge>nodeIdx. \<exists>a\<ge>1. \<exists>b\<ge>0. \<exists>w\<ge>1. x = wave_name i n a b w)
    (concat (map (\<lambda>(n, nodeId). node_trials i n nodeId 1 (nat (ci_attemptsPerTask i))) (enumerate nodeIdx nodes)))
    (node_waves i nodeIdx nodes)"
proof (induction nodes arbitrary: nodeIdx)
  case Nil
  then show ?case by (simp add: covers_Nil)
next
  case (Cons nodeId nodes)
  let ?rounds = "nat (ci_attemptsPerTask i)"
  have "covers (ci_concurrency i) (\<lambda>x. \<exists>a\<ge>1. \<exists>b\<ge>0. \<exists>w\<ge>1. x = wave_name i nodeIdx a b w)
      (node_trials i nodeIdx nodeId 1 ?rounds) (attempt_waves i nodeIdx nodeId 1 ?rounds)"
    by (rule attempt_waves_covers [OF pos]) auto
  from coversE [OF this] obtain ws where ws: "attempt_waves i nodeIdx nodeId 1 ?rounds = Some ws"
    "covers (ci_concurrency i) (\<lambda>x. \<exists>a\<ge>1. \<exists>b\<ge>0. \<exists>w\<ge>1. x = wave_name i nodeIdx a b w)
      (node_trials i nodeIdx nodeId 1 ?rounds) (Some ws)" by blast
  from coversE [OF Cons.IH [of "Suc nodeIdx"]] obtain rest where rest: "node_waves i (Suc nodeIdx) nodes = Some rest"
    "covers (ci_concurrency i) (\<lambda>x. \<exists>n\<ge>Suc nodeIdx. \<exists>a\<ge>1. \<exists>b\<ge>0. \<exists>w\<ge>1. x = wave_name i n a b w)
      (concat (map (\<lambda>(n, nodeId). node_trials i n nodeId 1 ?rounds) (enumerate (Suc nodeIdx) nodes))) (Some rest)" by blast
  have "covers (ci_concurrency i) (\<lambda>x. (\<exists>a\<ge>1. \<exists>b\<ge>0. \<exists>w\<ge>1. x = wave_name i nodeIdx a b w)
        \<or> (\<exists>n\<ge>Suc nodeIdx. \<exists>a\<ge>1. \<exists>b\<ge>0. \<exists>w\<ge>1. x = wave_name i n a b w))
      (node_trials i nodeIdx nodeId 1 ?rounds
        @ concat (map (\<lambda>(n, nodeId). node_trials i n nodeId 1 ?rounds) (enumerate (Suc nodeIdx) nodes)))
      (Some (ws @ rest))"
    using ws(2) rest(2) by (intro covers_append) (auto dest!: wave_name_node)
  moreover have "node_waves i nodeIdx (nodeId # nodes) = Some (ws @ rest)" using ws(1) rest(1) by simp
  moreover have "enumerate nodeIdx (nodeId # nodes) = (nodeIdx, nodeId) # enumerate (Suc nodeIdx) nodes" by simp
  moreover have "nodeIdx \<le> n" if "Suc nodeIdx \<le> n" for n using that by simp
  ultimately show ?case by (simp only: list.map concat.simps prod.case) (elim covers_mono, blast intro: order_refl)
qed

section \<open>Choosing the champion\<close>









section \<open>Properties\<close>

text \<open>
  C39: with a positive batch size and concurrency the coverage plan is
  built, and running its waves in order runs, for every node and every attempt, every task exactly
  once and in task order, numbered after the attempts the node already has; no wave is empty or
  larger than the concurrency, and no two waves share an identifier.
\<close>

theorem tournament_coverage_exact:
  assumes "0 < ci_batchSize i" "0 < ci_concurrency i" "0 \<le> ci_attemptsPerTask i"
  shows "\<exists>plan. buildTournamentCoverage i = Some plan
    \<and> concat (map trials_of (cp_waves plan))
        = concat (map (\<lambda>(n, nodeId). concat (map (\<lambda>j. map (\<lambda>taskId.
            (int n, taskId, ci_priorAttempts i nodeId taskId + (1 + int j))) (ci_tasks i))
            [0..<nat (ci_attemptsPerTask i)])) (enumerate 0 (ci_baselineId i # ci_shortlist i)))
    \<and> cp_trialCount plan = int (length (concat (map trials_of (cp_waves plan))))
    \<and> (\<forall>w\<in>set (cp_waves plan). cw_members w \<noteq> [] \<and> int (length (cw_members w)) \<le> ci_concurrency i)
    \<and> distinct (map cw_waveId (cp_waves plan))"
proof -
  let ?nodes = "ci_baselineId i # ci_shortlist i" and ?rounds = "nat (ci_attemptsPerTask i)"
  let ?trials = "concat (map (\<lambda>(n, nodeId). node_trials i n nodeId 1 ?rounds) (enumerate 0 ?nodes))"
  from node_waves_covers [OF assms(1,2), of 0 ?nodes] obtain waves where w: "node_waves i 0 ?nodes = Some waves"
    "concat (map trials_of waves) = ?trials"
    "\<forall>w\<in>set waves. cw_members w \<noteq> [] \<and> int (length (cw_members w)) \<le> ci_concurrency i"
    "distinct (map cw_waveId waves)"
    unfolding covers_def by blast
  have one: "length (node_trials i n nodeId 1 ?rounds) = ?rounds * length (ci_tasks i)" for n nodeId
    by (simp add: node_trials_def attempt_trials_def length_concat comp_def sum_list_triv)
  have "length ?trials = length ?nodes * (?rounds * length (ci_tasks i))"
    by (simp add: length_concat comp_def case_prod_unfold one sum_list_triv)
  then have "int (length ?trials) = int (length ?nodes) * int (length (ci_tasks i)) * ci_attemptsPerTask i"
    using assms(3) by (simp add: algebra_simps)
  then have "cp_trialCount \<lparr>cp_nodes = ?nodes, cp_tasks = ci_tasks i,
      cp_trialCount = int (length ?nodes) * int (length (ci_tasks i)) * ci_attemptsPerTask i, cp_waves = waves\<rparr>
    = int (length (concat (map trials_of waves)))" by (simp only: w(2)) simp
  with w show ?thesis
    by (intro exI [of _ "\<lparr>cp_nodes = ?nodes, cp_tasks = ci_tasks i,
      cp_trialCount = int (length ?nodes) * int (length (ci_tasks i)) * ci_attemptsPerTask i, cp_waves = waves\<rparr>"])
      (simp add: buildTournamentCoverage_def Let_def node_trials_def attempt_trials_def)
qed


text \<open>
  The comment above \<open>scoreTournament\<close> says that a child whose bound is not strictly higher than the
  baseline's loses. A cheaper child inside the window wins with a lower one.
\<close>

definition sample_rows :: "int score_row list" where
  "sample_rows =
     [\<lparr>sr_candidateId = js ''base'', sr_delta = 0, sr_lcb = 0, sr_meanCostUsdMicros = Some 20, sr_medianDurationMs = None\<rparr>,
      \<lparr>sr_candidateId = js ''child'', sr_delta = 30, sr_lcb = -5, sr_meanCostUsdMicros = Some 10, sr_medianDurationMs = None\<rparr>]"

lemma lower_bound_wins:
  "\<exists>c. tournament_champion (\<lambda>t. t - 10) sample_rows = Inr c \<and> sr_candidateId c = js ''child'' \<and> sr_lcb c < 0"
  by (simp add: tournament_champion_def contenders_def sample_rows_def Let_def tieBreaksBetter_def)


definition sample_coverage :: coverage_input where
  "sample_coverage = \<lparr>ci_baselineId = js ''b'', ci_shortlist = [js ''x''], ci_tasks = [js ''t1'', js ''t2'', js ''t3''],
     ci_attemptsPerTask = 2, ci_batchSize = 2, ci_concurrency = 1, ci_priorAttempts = \<lambda>_ _. 4\<rparr>"

lemma tournament_coverage_exact_witness:
  "\<exists>plan. buildTournamentCoverage sample_coverage = Some plan \<and> cp_trialCount plan = 12
    \<and> length (concat (map trials_of (cp_waves plan))) = 12 \<and> distinct (map cw_waveId (cp_waves plan))"
  using tournament_coverage_exact [of sample_coverage]
  by (force simp: sample_coverage_def numeral_2_eq_2)

end
