(* ===== verification/Controller.thy ===== *)
theory Controller
  imports ReducerSpec JournalAudit
begin

text \<open>
  Model of the operations of \<^verbatim>\<open>packages/dsh-evolve-le/src/controller/controller.ts\<close>: the steps by
  which the controller records events and budget entries and drives one evaluation or attribution
  action. Its state is the folded run state, the position of the journal writer, the committed events,
  the ledger with its file, and what the outside world keeps: the jobs of the provider by key, the
  launches that had an effect and the attribution requests that were sent.

  Every step that outlives the process goes through \<open>durable\<close>, which takes one unit of
  \<open>ct_fuel\<close>: \<open>None\<close> is a process that is not interrupted, \<open>Some n\<close> one that dies when it has done
  \<open>n\<close> such steps. The journal's append is one step (\<open>JournalSpec\<close> shows that it is atomic), and so is
  the ledger's.
\<close>

section \<open>State and environment\<close>

record terminal_fact =
  tm_outcome :: jstring
  tm_costUsdMicros :: "int option"
  tm_durationMs :: "int option"
  tm_solverTokens :: "int option"

datatype job_status = JobRunning | JobSucceeded | JobFailed | JobLost | JobUnknown

fun job_status_name :: "job_status \<Rightarrow> string" where
  "job_status_name JobRunning = ''RUNNING''"
| "job_status_name JobSucceeded = ''SUCCEEDED''"
| "job_status_name JobFailed = ''FAILED''"
| "job_status_name JobLost = ''LOST''"
| "job_status_name JobUnknown = ''UNKNOWN''"

record attribution_attempt =
  at_ok :: bool
  at_error :: "jstring option"
  at_promptTokens :: "int option"
  at_completionTokens :: "int option"
  at_costUsdMicros :: "int option"
  at_receiptRef :: jsval
  at_artifactRef :: jsval

text \<open>
  What the code calls: the digest, the clock and the identifiers of the journal by event number, the
  provider (the job a key gets, whether it refuses a launch, the status seen by the \<open>n\<close>-th poll, the
  terminal fact and the references \<open>storeTerminalArtifacts\<close> gives its artifacts), the verification of
  stored objects, the attribution call (a message when it throws) with the references of what it stores,
  and the reference of the receipt written when the outcome of the call is not known.
\<close>

record environment =
  ev_sha :: "jstring \<Rightarrow> jstring"
  ev_clock :: "int \<Rightarrow> jstring"
  ev_fresh :: "int \<Rightarrow> jstring"
  ev_provider :: jstring
  ev_job :: "jstring \<Rightarrow> jstring"
  ev_refuses :: "jstring \<Rightarrow> bool"
  ev_status :: "jstring \<Rightarrow> nat \<Rightarrow> job_status"
  ev_collect :: "jstring \<Rightarrow> terminal_fact"
  ev_refs :: "jstring \<Rightarrow> jstring \<Rightarrow> jsval list"
  ev_scrub :: "jsval list \<Rightarrow> unit res"
  ev_attribution :: "jstring \<Rightarrow> jstring + attribution_attempt"
  ev_uncertainRef :: "jstring \<Rightarrow> jsval"

record controller =
  ct_config :: reducer_config
  ct_state :: run_state
  ct_journal :: journal
  ct_committed :: "fields list"
  ct_ledger :: budget_ledger
  ct_ledgerFile :: "jstring option"
  ct_jobs :: "jstring dict"
  ct_effects :: "jstring list"
  ct_requests :: "jstring list"
  ct_fuel :: "nat option"

definition c_err :: "string \<Rightarrow> jserror" where
  "c_err m = (PlainError, ''controller: '' @ m)"

definition stopped :: jserror where
  "stopped = (Unmodelled, ''the process stopped'')"

section \<open>Operations on the state\<close>

type_synonym 'a act = "controller \<Rightarrow> controller \<times> 'a res"

definition doneA :: "'a \<Rightarrow> 'a act" where
  "doneA a w = (w, Inr a)"

definition bindA :: "'a act \<Rightarrow> ('a \<Rightarrow> 'b act) \<Rightarrow> 'b act" where
  "bindA m f w = (case m w of (w', Inl e) \<Rightarrow> (w', Inl e) | (w', Inr a) \<Rightarrow> f a w')"

definition liftA :: "(controller \<Rightarrow> 'a res) \<Rightarrow> 'a act" where
  "liftA f w = (w, f w)"

definition askA :: "(controller \<Rightarrow> 'a) \<Rightarrow> 'a act" where
  "askA f w = (w, Inr (f w))"

definition durable :: "(controller \<Rightarrow> controller \<times> 'a res) \<Rightarrow> 'a act" where
  "durable f w =
     (case ct_fuel w of
        None \<Rightarrow> f w
      | Some 0 \<Rightarrow> (w, Inl stopped)
      | Some (Suc n) \<Rightarrow> f (w\<lparr>ct_fuel := Some n\<rparr>))"

text \<open>\<open>for (const x of xs) await f(x)\<close>, and the same with the results kept.\<close>

fun eachA :: "('a \<Rightarrow> unit act) \<Rightarrow> 'a list \<Rightarrow> unit act" where
  "eachA f [] = doneA ()"
| "eachA f (x # xs) = bindA (f x) (\<lambda>_. eachA f xs)"

fun mapA :: "('a \<Rightarrow> 'b act) \<Rightarrow> 'a list \<Rightarrow> 'b list act" where
  "mapA f [] = doneA []"
| "mapA f (x # xs) = bindA (f x) (\<lambda>y. bindA (mapA f xs) (\<lambda>ys. doneA (y # ys)))"

text \<open>\<open>Promise.allSettled\<close>: every call runs, failures are collected.\<close>

fun settledA :: "('a \<Rightarrow> 'b act) \<Rightarrow> 'a list \<Rightarrow> ('a \<times> 'b res) list act" where
  "settledA f [] = doneA []"
| "settledA f (x # xs) = (\<lambda>w. case f x w of (w', r) \<Rightarrow> bindA (settledA f xs) (\<lambda>rs. doneA ((x, r) # rs)) w')"

section \<open>Events and budget entries\<close>

text \<open>
  \<open>emit\<close>: the payload is validated, the event is appended, and only then reduced. An event the
  reducer refuses is in the journal already.
\<close>

definition push_event :: "fields \<Rightarrow> controller \<Rightarrow> controller" where
  "push_event e w =
     w\<lparr>ct_journal := (ct_journal w)\<lparr>jw_lastSeq := event_seq e, jw_lastHash := event_hash e\<rparr>,
       ct_committed := ct_committed w @ [e]\<rparr>"

definition emit :: "environment \<Rightarrow> string \<Rightarrow> fields \<Rightarrow> unit act" where
  "emit ev ty payload =
     bindA (liftA (\<lambda>_. validatePayload (js ty) payload)) (\<lambda>_.
     bindA (liftA (\<lambda>w. draft_event (ev_sha ev) (ev_fresh ev (jw_lastSeq (ct_journal w))) (ct_journal w)
         \<lparr>ed_type = js ty, ed_actor = js ''controller'', ed_payload = payload,
          ed_occurredAt = ev_clock ev (jw_lastSeq (ct_journal w)), ed_causationId = None,
          ed_correlationId = None, ed_eventId = None\<rparr>)) (\<lambda>e.
     bindA (durable (\<lambda>w. (push_event e w, Inr ()))) (\<lambda>_ w.
       case reduceEvent (ev_sha ev) (ct_config w) (ct_state w) e of
         Inl err \<Rightarrow> (w, Inl err)
       | Inr s \<Rightarrow> (w\<lparr>ct_state := s\<rparr>, Inr ()))))"

definition ledger_append :: "environment \<Rightarrow> budget_append \<Rightarrow> budget_entry act" where
  "ledger_append ev entry =
     durable (\<lambda>w. case append_entry (ev_sha ev) None (ct_ledger w) (ct_ledgerFile w) entry of
       (l, f, r) \<Rightarrow> (w\<lparr>ct_ledger := l, ct_ledgerFile := f\<rparr>, r))"

definition mirror_budget ::
  "environment \<Rightarrow> budget_kind \<Rightarrow> budget_dimension \<Rightarrow> jstring \<Rightarrow> int \<Rightarrow> int \<Rightarrow> unit act" where
  "mirror_budget ev kind dimension actionId amount unpricedUnits =
     bindA (askA (\<lambda>w. ev_clock ev (jw_lastSeq (ct_journal w)))) (\<lambda>now.
     bindA (ledger_append ev
         \<lparr>ba_kind = kind, ba_dimension = dimension, ba_actionId = Some actionId, ba_amount = JNum amount,
          ba_unpricedUnits = JNum unpricedUnits, ba_occurredAt = now\<rparr>) (\<lambda>entry.
     emit ev ''budget.entry''
       [(js ''kind'', JStr (kind_name kind)), (js ''dimension'', JStr (dimension_name dimension)),
        (js ''actionId'', JStr actionId), (js ''amount'', JNum amount),
        (js ''unpricedUnits'', JNum unpricedUnits), (js ''entryHash'', JStr (be_entryHash entry))]))"

definition settleIfAccountable ::
  "environment \<Rightarrow> budget_dimension \<Rightarrow> jstring \<Rightarrow> int \<Rightarrow> int \<Rightarrow> unit act" where
  "settleIfAccountable ev dimension actionId amount unpricedUnits =
     (if amount = 0 \<and> unpricedUnits = 0 then doneA ()
      else mirror_budget ev Settle dimension actionId amount unpricedUnits)"

text \<open>The calls that record one event.\<close>

definition changePhase :: "environment \<Rightarrow> phase \<Rightarrow> jstring \<Rightarrow> unit act" where
  "changePhase ev to reason =
     emit ev ''run.phase.changed'' [(js ''to'', JStr (phase_name to)), (js ''reason'', JStr reason)]"

definition planWave :: "environment \<Rightarrow> jstring \<Rightarrow> jsval \<Rightarrow> jstring list \<Rightarrow> unit act" where
  "planWave ev waveId split members =
     emit ev ''wave.planned''
       [(js ''waveId'', JStr waveId), (js ''split'', split), (js ''members'', JArr (map JStr members))]"

definition registerCandidate :: "environment \<Rightarrow> jstring \<Rightarrow> jstring \<Rightarrow> jsval \<Rightarrow> jsval \<Rightarrow> unit act" where
  "registerCandidate ev candidateId sourceHash parentCandidateId proposalActionId =
     emit ev ''candidate.registered''
       [(js ''candidateId'', JStr candidateId), (js ''sourceHash'', JStr sourceHash),
        (js ''parentCandidateId'', parentCandidateId), (js ''proposalActionId'', proposalActionId)]"

definition changeCandidateStatus :: "environment \<Rightarrow> jstring \<Rightarrow> candidate_status \<Rightarrow> jstring \<Rightarrow> unit act" where
  "changeCandidateStatus ev candidateId to reason =
     emit ev ''candidate.status.changed''
       [(js ''candidateId'', JStr candidateId), (js ''to'', JStr (candidate_status_name to)),
        (js ''reason'', JStr reason)]"

definition recordRngDraw :: "environment \<Rightarrow> jsval \<Rightarrow> unit act" where
  "recordRngDraw ev receipt = emit ev ''rng.drawn'' [(js ''receipt'', receipt)]"

definition lockCandidate :: "environment \<Rightarrow> jstring \<Rightarrow> jstring \<Rightarrow> unit act" where
  "lockCandidate ev candidateId lockHash =
     emit ev ''candidate.locked'' [(js ''candidateId'', JStr candidateId), (js ''lockHash'', JStr lockHash)]"

definition revealSealed :: "environment \<Rightarrow> jstring \<Rightarrow> jstring \<Rightarrow> unit act" where
  "revealSealed ev candidateId revealReceiptHash =
     emit ev ''sealed.revealed''
       [(js ''candidateId'', JStr candidateId), (js ''revealReceiptHash'', JStr revealReceiptHash)]"

end
