(* ===== verification/ControllerSaga.thy ===== *)
theory ControllerSaga
  imports Controller
begin

text \<open>
  The sagas of \<^verbatim>\<open>packages/dsh-evolve-le/src/controller/controller.ts\<close> over the steps of
  \<open>Controller\<close>: one evaluation from reservation to commit, evaluation waves, the attribution call,
  waves, and what a restart does. The launches of a wave interleave and its jobs
  finish in any order: both orders are arguments. Not in the model are the boundary hooks of the
  configuration, which only tests set, and the wait between two polls.
\<close>

section \<open>Reading the folded state\<close>

definition TERMINAL_ACTIONS :: "action_status list" where
  "TERMINAL_ACTIONS = [COMMITTED, FAILED, CANCELLED, ABANDONED]"

definition action_of :: "jstring \<Rightarrow> action_state act" where
  "action_of actionId = liftA (\<lambda>w.
     case rget (rs_actions (ct_state w)) actionId of
       Own a \<Rightarrow> Inr a
     | Absent \<Rightarrow> Inl (c_err ''unknown action'')
     | Inherited \<Rightarrow> Inl (Unmodelled, ''action of an inherited name''))"

definition external_job :: "jstring \<Rightarrow> controller \<Rightarrow> jstring option" where
  "external_job actionId w = map_of (rs_externalJobs (ct_state w)) actionId"

record evaluation_request =
  rq_candidateId :: jstring
  rq_opaqueTaskId :: jstring
  rq_attempt :: jsval
  rq_split :: jstring
  rq_infoFlowGuardCanary :: "jstring option"

record evaluation_input = evaluation_request +
  in_actionId :: jstring
  in_waveId :: "jstring option"
  in_estimate :: "(budget_dimension \<times> int) list"

definition is_number :: "jsval \<Rightarrow> bool" where
  "is_number v \<longleftrightarrow> (case v of JNum _ \<Rightarrow> True | JBad _ \<Rightarrow> True | _ \<Rightarrow> False)"

definition event_payload :: "fields \<Rightarrow> fields" where
  "event_payload e = obj_of (fget e (js ''payload''))"

definition reservation_of :: "jstring \<Rightarrow> fields list \<Rightarrow> fields option" where
  "reservation_of actionId events =
     find (\<lambda>e. fget e (js ''type'') = JStr (js ''action.reserved'')
              \<and> fget (event_payload e) (js ''actionId'') = JStr actionId) events"

text \<open>\<open>requestOf\<close> copies four members of the recorded request.\<close>

definition request_of :: "jstring \<Rightarrow> evaluation_request act" where
  "request_of actionId =
     bindA (action_of actionId) (\<lambda>_. liftA (\<lambda>w.
       case reservation_of actionId (ct_committed w) of
         None \<Rightarrow> Inl (c_err ''no reservation found'')
       | Some e \<Rightarrow>
           (let g = (\<lambda>f. fget (obj_of (fget (event_payload e) (js ''request''))) (js f)) in
            ensure (is_str (g ''candidateId'') \<and> is_str (g ''opaqueTaskId'') \<and> is_number (g ''attempt'')
                    \<and> g ''split'' \<in> {JStr (js ''dev-observed''), JStr (js ''dev-guard'')})
              (c_err ''reservation does not carry an evaluation request'')
              (Inr \<lparr>rq_candidateId = str_of (g ''candidateId''), rq_opaqueTaskId = str_of (g ''opaqueTaskId''),
                    rq_attempt = g ''attempt'', rq_split = str_of (g ''split''),
                    rq_infoFlowGuardCanary = None\<rparr>))))"

definition observation_of :: "jstring \<Rightarrow> jsval act" where
  "observation_of actionId =
     bindA (request_of actionId) (\<lambda>rq. liftA (\<lambda>w.
       case rget (rs_observations (ct_state w))
              (join [0] [rq_candidateId rq, rq_opaqueTaskId rq, rq_split rq, to_string (rq_attempt rq)]) of
         Own v \<Rightarrow> Inr v
       | Absent \<Rightarrow> Inl (c_err ''committed without an observation'')
       | Inherited \<Rightarrow> Inl (Unmodelled, ''observation of an inherited name'')))"

section \<open>One evaluation\<close>

definition estimate_value :: "(budget_dimension \<times> int) list \<Rightarrow> jsval" where
  "estimate_value es =
     JArr (map (\<lambda>(d, n). JObj [(js ''dimension'', JStr (dimension_name d)), (js ''amount'', JNum n)]) es)"

definition request_value :: "'a evaluation_request_scheme \<Rightarrow> jsval" where
  "request_value rq = JObj
     ([(js ''candidateId'', JStr (rq_candidateId rq)), (js ''opaqueTaskId'', JStr (rq_opaqueTaskId rq)),
       (js ''attempt'', rq_attempt rq), (js ''split'', JStr (rq_split rq))]
      @ (case rq_infoFlowGuardCanary rq of None \<Rightarrow> [] | Some t \<Rightarrow> [(js ''infoFlowGuardCanary'', JStr t)]))"

definition reserve_evaluation :: "environment \<Rightarrow> evaluation_input \<Rightarrow> unit act" where
  "reserve_evaluation ev i =
     bindA (askA (\<lambda>w. rget (rs_actions (ct_state w)) (in_actionId i) \<noteq> Absent)) (\<lambda>known.
     if known then doneA ()
     else
       bindA (emit ev ''action.reserved''
         [(js ''actionId'', JStr (in_actionId i)), (js ''kind'', JStr (js ''evaluation'')),
          (js ''idempotencyKey'', JStr (js ''eval-'' @ in_actionId i)), (js ''request'', request_value i),
          (js ''waveId'', opt_string (in_waveId i)), (js ''budget'', estimate_value (in_estimate i))]) (\<lambda>_.
       eachA (\<lambda>(d, n). mirror_budget ev Reserve d (in_actionId i) n 0) (in_estimate i)))"

text \<open>The provider: a launch is idempotent by key, and may be refused.\<close>

definition provider_launch :: "environment \<Rightarrow> jstring \<Rightarrow> jstring act" where
  "provider_launch ev key =
     durable (\<lambda>w.
       if ev_refuses ev key then (w, Inl (PlainError, ''provider refused the launch''))
       else case map_of (ct_jobs w) key of
           Some job \<Rightarrow> (w, Inr job)
         | None \<Rightarrow> (w\<lparr>ct_jobs := AList.update key (ev_job ev key) (ct_jobs w), ct_effects := ct_effects w @ [key]\<rparr>,
                     Inr (ev_job ev key)))"

text \<open>
  \<open>launch\<close> in two parts, because the launches of a wave interleave: up to the effect (nothing is left
  to do when the receipt is durable already), and the receipt.
\<close>

definition launch_effect :: "environment \<Rightarrow> jstring \<Rightarrow> jstring option act" where
  "launch_effect ev actionId =
     bindA (askA (external_job actionId)) (\<lambda>job.
     case job of
       Some _ \<Rightarrow> doneA None
     | None \<Rightarrow>
         bindA (action_of actionId) (\<lambda>a.
         bindA (request_of actionId) (\<lambda>_.
         bindA (askA (\<lambda>w. map_of (ct_jobs w) (act_idempotencyKey a))) (\<lambda>known.
         case known of
           Some j \<Rightarrow> doneA (Some j)
         | None \<Rightarrow> bindA (provider_launch ev (act_idempotencyKey a)) (\<lambda>j. doneA (Some j))))))"

definition launch_receipt :: "environment \<Rightarrow> jstring \<Rightarrow> jstring \<Rightarrow> unit act" where
  "launch_receipt ev actionId j =
     emit ev ''action.launched''
       [(js ''actionId'', JStr actionId), (js ''externalJobId'', JStr j),
        (js ''provider'', JStr (ev_provider ev))]"

definition launch_action :: "environment \<Rightarrow> jstring \<Rightarrow> unit act" where
  "launch_action ev actionId =
     bindA (launch_effect ev actionId) (\<lambda>job.
       case job of None \<Rightarrow> doneA () | Some j \<Rightarrow> launch_receipt ev actionId j)"

definition observeExternalTerminal :: "environment \<Rightarrow> jstring \<Rightarrow> fields \<Rightarrow> unit act" where
  "observeExternalTerminal ev actionId seen =
     bindA (action_of actionId) (\<lambda>a.
     if act_status a = COLLECTING \<or> act_status a \<in> set TERMINAL_ACTIONS then doneA ()
     else emit ev ''action.observed-terminal'' [(js ''actionId'', JStr actionId), (js ''fact'', JObj seen)])"

definition status_fact :: "job_status \<Rightarrow> fields" where
  "status_fact s = [(js ''status'', JStr (js (job_status_name s)))]"

text \<open>At most a thousand polls.\<close>

definition awaitTerminal :: "environment \<Rightarrow> jstring \<Rightarrow> unit act" where
  "awaitTerminal ev actionId =
     bindA (askA (external_job actionId)) (\<lambda>job.
     case job of
       None \<Rightarrow> liftA (\<lambda>_. Inl (c_err ''action has no external job''))
     | Some j \<Rightarrow>
         (case find (\<lambda>s. s \<noteq> JobRunning) (map (ev_status ev j) [0..<1000]) of
            None \<Rightarrow> liftA (\<lambda>_. Inl (c_err ''job never reached a terminal status''))
          | Some s \<Rightarrow> observeExternalTerminal ev actionId (status_fact s)))"

definition releaseRemainder :: "environment \<Rightarrow> jstring \<Rightarrow> unit act" where
  "releaseRemainder ev actionId =
     bindA (askA (\<lambda>w. case rget (rs_budgetByAction (ct_state w)) actionId of Own m \<Rightarrow> m | _ \<Rightarrow> [])) (\<lambda>perAction.
     eachA (\<lambda>(d, b). if 0 < a_reserved b then mirror_budget ev Release d actionId (a_reserved b) 0 else doneA ())
       perAction)"

definition opt_num :: "int option \<Rightarrow> jsval" where
  "opt_num v = (case v of None \<Rightarrow> JNull | Some n \<Rightarrow> JNum n)"

definition observation_value :: "jstring \<Rightarrow> evaluation_request \<Rightarrow> terminal_fact \<Rightarrow> jsval" where
  "observation_value actionId rq t = JObj
     ([(js ''actionId'', JStr actionId), (js ''candidateId'', JStr (rq_candidateId rq)),
       (js ''opaqueTaskId'', JStr (rq_opaqueTaskId rq)), (js ''split'', JStr (rq_split rq)),
       (js ''attempt'', rq_attempt rq), (js ''outcome'', JStr (tm_outcome t)),
       (js ''reward'', JNum (if tm_outcome t = js ''success'' then 1 else 0)),
       (js ''costUsdMicros'', opt_num (tm_costUsdMicros t)), (js ''durationMs'', opt_num (tm_durationMs t))]
      @ (case rq_infoFlowGuardCanary rq of None \<Rightarrow> [] | Some c \<Rightarrow> [(js ''infoFlowGuardCanary'', JStr c)]))"

definition commit_event :: "environment \<Rightarrow> jstring \<Rightarrow> jsval \<Rightarrow> unit act" where
  "commit_event ev actionId observation =
     emit ev ''action.committed'' [(js ''actionId'', JStr actionId), (js ''observation'', observation)]"

definition settle_solver_tokens :: "environment \<Rightarrow> jstring \<Rightarrow> int option \<Rightarrow> unit act" where
  "settle_solver_tokens ev actionId tokens =
     bindA (askA (\<lambda>w. rc_budgetLimits (ct_config w) SolverTokens \<noteq> None)) (\<lambda>live.
     if \<not> live then doneA ()
     else case tokens of
         None \<Rightarrow> liftA (\<lambda>_. Inl (c_err ''settled without a solver-token figure''))
       | Some n \<Rightarrow> settleIfAccountable ev SolverTokens actionId n 0)"

definition commitObservation :: "environment \<Rightarrow> jstring \<Rightarrow> evaluation_request \<Rightarrow> terminal_fact \<Rightarrow> unit act" where
  "commitObservation ev actionId rq t =
     bindA (action_of actionId) (\<lambda>a.
     if act_status a \<in> set TERMINAL_ACTIONS then doneA ()
     else
       bindA (commit_event ev actionId (observation_value actionId rq t)) (\<lambda>_.
       bindA (settleIfAccountable ev Usd actionId (case tm_costUsdMicros t of None \<Rightarrow> 0 | Some n \<Rightarrow> n)
                (if tm_costUsdMicros t = None then 1 else 0)) (\<lambda>_.
       bindA (settleIfAccountable ev TaskTrials actionId 1 0) (\<lambda>_.
       bindA (settle_solver_tokens ev actionId (tm_solverTokens t)) (\<lambda>_.
       releaseRemainder ev actionId)))))"

definition collect_artifacts :: "environment \<Rightarrow> jstring \<Rightarrow> jsval list \<Rightarrow> unit act" where
  "collect_artifacts ev actionId refs =
     eachA (\<lambda>ref. emit ev ''artifact.collected'' [(js ''actionId'', JStr actionId), (js ''artifact'', ref)]) refs"

definition prefix_of_refs :: "jsval list \<Rightarrow> jsval list \<Rightarrow> bool" where
  "prefix_of_refs stored fresh \<longleftrightarrow>
     length stored \<le> length fresh \<and> map ref_digest stored = map ref_digest (take (length stored) fresh)"

definition collectAndCommit :: "environment \<Rightarrow> jstring \<Rightarrow> jsval act" where
  "collectAndCommit ev actionId =
     bindA (action_of actionId) (\<lambda>a.
     if act_status a = COMMITTED then observation_of actionId
     else
       bindA (request_of actionId) (\<lambda>rq.
       bindA (askA (external_job actionId)) (\<lambda>job.
       case job of
         None \<Rightarrow> liftA (\<lambda>_. Inl (c_err ''action has no external job to collect''))
       | Some j \<Rightarrow>
           (let stored = act_artifacts a; fresh = ev_refs ev j (rq_split rq) in
            bindA (liftA (\<lambda>_. ensure (prefix_of_refs stored fresh)
                (c_err ''collected artifacts do not match the stored artifacts'')
                (if stored = [] then Inr () else ev_scrub ev stored))) (\<lambda>_.
            bindA (collect_artifacts ev actionId (drop (length stored) fresh)) (\<lambda>_.
            bindA (commitObservation ev actionId rq (ev_collect ev j)) (\<lambda>_.
            observation_of actionId)))))))"

section \<open>Waves of evaluations\<close>

text \<open>
  The launches of a wave run at the same time. \<open>schedule\<close> names, one after the other, the position
  of the launch that goes on next: to its effect, then to its receipt. What the schedule leaves open is finished at its
  end, so every list is a schedule.
\<close>

datatype launch_task = BeforeEffect | BeforeReceipt jstring | Settled "unit res"

fun launch_step :: "environment \<Rightarrow> jstring \<Rightarrow> launch_task \<Rightarrow> launch_task act" where
  "launch_step ev i BeforeEffect w =
     (case launch_effect ev i w of
        (w', Inl e) \<Rightarrow> (w', Inr (Settled (Inl e)))
      | (w', Inr None) \<Rightarrow> (w', Inr (Settled (Inr ())))
      | (w', Inr (Some j)) \<Rightarrow> (w', Inr (BeforeReceipt j)))"
| "launch_step ev i (BeforeReceipt j) w =
     (case launch_receipt ev i j w of (w', r) \<Rightarrow> (w', Inr (Settled r)))"
| "launch_step ev i (Settled r) w = (w, Inr (Settled r))"

fun run_launches ::
  "environment \<Rightarrow> (jstring \<times> launch_task) list \<Rightarrow> nat list \<Rightarrow> (jstring \<times> launch_task) list act" where
  "run_launches ev tasks [] = doneA tasks"
| "run_launches ev tasks (k # schedule) =
     (if k < length tasks
      then bindA (launch_step ev (fst (tasks ! k)) (snd (tasks ! k))) (\<lambda>t.
             run_launches ev (tasks[k := (fst (tasks ! k), t)]) schedule)
      else run_launches ev tasks schedule)"

definition settled_result :: "launch_task \<Rightarrow> unit res" where
  "settled_result t = (case t of Settled r \<Rightarrow> r | _ \<Rightarrow> Inr ())"

definition launch_all :: "environment \<Rightarrow> nat list \<Rightarrow> jstring list \<Rightarrow> unit res list act" where
  "launch_all ev schedule ids =
     (let every = [0..<length ids] in
      bindA (run_launches ev (map (\<lambda>i. (i, BeforeEffect)) ids) (schedule @ every @ every)) (\<lambda>tasks.
        doneA (map (settled_result \<circ> snd) tasks)))"

text \<open>The order in which the jobs turn out to be finished, as positions in the list of the calls.\<close>

definition arrange :: "nat list \<Rightarrow> nat \<Rightarrow> nat list" where
  "arrange order n = filter (\<lambda>k. k < n) (remdups order) @ filter (\<lambda>k. k \<notin> set order) [0..<n]"

text \<open>The failure the code throws: the first one in the order of the calls.\<close>

fun first_failure :: "unit res list \<Rightarrow> unit res" where
  "first_failure [] = Inr ()"
| "first_failure (Inl e # rs) = Inl e"
| "first_failure (Inr u # rs) = first_failure rs"

definition await_all :: "environment \<Rightarrow> nat list \<Rightarrow> jstring list \<Rightarrow> unit res list act" where
  "await_all ev order ids =
     bindA (settledA (\<lambda>k. awaitTerminal ev (ids ! k)) (arrange order (length ids))) (\<lambda>rs.
       doneA (List.map_filter (map_of rs) [0..<length ids]))"

definition drive_wave :: "environment \<Rightarrow> nat list \<Rightarrow> nat list \<Rightarrow> jstring list \<Rightarrow> unit act" where
  "drive_wave ev schedule order ids =
     bindA (launch_all ev schedule ids) (\<lambda>launches.
     bindA (askA (\<lambda>w. filter (\<lambda>i. external_job i w \<noteq> None) ids)) (\<lambda>launched.
     bindA (await_all ev order launched) (\<lambda>terminals.
     liftA (\<lambda>_. bindR (first_failure launches) (\<lambda>_. first_failure terminals)))))"

definition runEvaluationWave ::
  "environment \<Rightarrow> nat list \<Rightarrow> nat list \<Rightarrow> evaluation_input list \<Rightarrow> jsval list act" where
  "runEvaluationWave ev schedule order inputs =
     (let ids = map in_actionId inputs in
      bindA (liftA (\<lambda>_. ensure (inputs \<noteq> []) (c_err ''evaluation wave must not be empty'')
        (ensure (distinct ids) (c_err ''evaluation wave repeats action'') (Inr ())))) (\<lambda>_.
      bindA (eachA (reserve_evaluation ev) inputs) (\<lambda>_.
      bindA (drive_wave ev schedule order ids) (\<lambda>_.
      mapA (collectAndCommit ev) ids))))"

definition runEvaluation :: "environment \<Rightarrow> evaluation_input \<Rightarrow> jsval act" where
  "runEvaluation ev i =
     bindA (askA (\<lambda>w. case rget (rs_actions (ct_state w)) (in_actionId i) of
        Own a \<Rightarrow> act_status a = COMMITTED | _ \<Rightarrow> False)) (\<lambda>committed.
     if committed then observation_of (in_actionId i)
     else bindA (runEvaluationWave ev [] [] [i]) (\<lambda>obs.
       case obs of
         [] \<Rightarrow> liftA (\<lambda>_. Inl (c_err ''evaluation wave returned no observation''))
       | v # _ \<Rightarrow> doneA v))"

definition resumeEvaluation :: "environment \<Rightarrow> jstring \<Rightarrow> jsval act" where
  "resumeEvaluation ev actionId =
     bindA (action_of actionId) (\<lambda>a.
     if act_kind a \<noteq> js ''evaluation'' then liftA (\<lambda>_. Inl (c_err ''is not an evaluation action''))
     else if act_status a = COMMITTED then observation_of actionId
     else if act_status a \<in> set TERMINAL_ACTIONS then liftA (\<lambda>_. Inl (c_err ''is already terminal''))
     else
       bindA (launch_action ev actionId) (\<lambda>_.
       bindA (awaitTerminal ev actionId) (\<lambda>_.
       collectAndCommit ev actionId)))"

definition resumeEvaluationWave ::
  "environment \<Rightarrow> nat list \<Rightarrow> nat list \<Rightarrow> jstring list \<Rightarrow> jsval list act" where
  "resumeEvaluationWave ev schedule order ids =
     bindA (mapA action_of ids) (\<lambda>acts.
     bindA (liftA (\<lambda>_. ensure (list_all (\<lambda>a. act_kind a = js ''evaluation'') acts)
       (c_err ''resumeEvaluationWave accepts evaluation actions only'') (Inr ()))) (\<lambda>_.
     bindA (drive_wave ev schedule order (map act_actionId (filter (\<lambda>a. act_status a \<notin> set TERMINAL_ACTIONS) acts))) (\<lambda>_.
     mapA (collectAndCommit ev) (map act_actionId acts))))"

definition wave_members_terminal :: "wave_state \<Rightarrow> controller \<Rightarrow> bool" where
  "wave_members_terminal wave w \<longleftrightarrow> list_all (member_terminal (ct_state w)) (wv_members wave)"

definition commitWave :: "environment \<Rightarrow> jstring \<Rightarrow> unit act" where
  "commitWave ev waveId =
     bindA (liftA (\<lambda>w. case rget (rs_waves (ct_state w)) waveId of
         Own v \<Rightarrow> Inr v
       | Absent \<Rightarrow> Inl (c_err ''unknown wave'')
       | Inherited \<Rightarrow> Inl (Unmodelled, ''wave of an inherited name''))) (\<lambda>wave.
     if wv_status wave = WaveCommitted then doneA ()
     else
       bindA (liftA (\<lambda>w. ensure (wave_members_terminal wave w) (c_err ''wave still has nonterminal members'')
         (waveDecisionSnapshot (ev_sha ev) (ct_state w) wave))) (\<lambda>snapshot.
       emit ev ''wave.committed''
         [(js ''waveId'', JStr waveId), (js ''decisionSnapshotHash'', JStr snapshot)]))"

end
