(* ===== verification/ControllerRecovery.thy ===== *)
theory ControllerRecovery
  imports ControllerSaga
begin

text \<open>
  The rest of the controller of \<^verbatim>\<open>packages/dsh-evolve-le/src/controller/controller.ts\<close>: the
  attribution call, published evidence, and the recovery that opening a run does. The state is
  replayed from the journal; the snapshot that may shorten the replay is not in the model.
\<close>

section \<open>One attribution call\<close>

record attribution_input =
  ai_actionId :: jstring
  ai_request :: jsval
  ai_estimate :: "(budget_dimension \<times> int) list"

record attribution_result =
  ar_actionId :: jstring
  ar_status :: action_status
  ar_receipt :: "jsval option"
  ar_attribution :: "jsval option"
  ar_failureReason :: "jstring option"

definition ATTRIBUTION_RECEIPT_MEDIA_TYPE :: jstring where
  "ATTRIBUTION_RECEIPT_MEDIA_TYPE = js ''application/vnd.dsh-evolve-le.attribution-receipt+json''"

definition ATTRIBUTION_RESULT_MEDIA_TYPE :: jstring where
  "ATTRIBUTION_RESULT_MEDIA_TYPE = js ''application/vnd.dsh-evolve-le.failure-attribution+json''"

definition find_media :: "jstring \<Rightarrow> jsval list \<Rightarrow> jsval option" where
  "find_media t refs = find (\<lambda>r. fget (obj_of r) (js ''mediaType'') = JStr t) refs"

definition attributionResultOf :: "jstring \<Rightarrow> attribution_result act" where
  "attributionResultOf actionId =
     bindA (action_of actionId) (\<lambda>a. doneA
       \<lparr>ar_actionId = actionId, ar_status = act_status a,
        ar_receipt = find_media ATTRIBUTION_RECEIPT_MEDIA_TYPE (act_artifacts a),
        ar_attribution = find_media ATTRIBUTION_RESULT_MEDIA_TYPE (act_artifacts a),
        ar_failureReason = act_failure a\<rparr>)"

text \<open>The receipt written when the call threw or its outcome is not known names no usage.\<close>

definition unattributable :: "jsval \<Rightarrow> jstring \<Rightarrow> attribution_attempt" where
  "unattributable receipt reason =
     \<lparr>at_ok = False, at_error = Some reason, at_promptTokens = None, at_completionTokens = None,
      at_costUsdMicros = None, at_receiptRef = receipt, at_artifactRef = JNull\<rparr>"

definition artifact_event :: "environment \<Rightarrow> jstring \<Rightarrow> jsval \<Rightarrow> unit act" where
  "artifact_event ev actionId ref =
     emit ev ''artifact.collected'' [(js ''actionId'', JStr actionId), (js ''artifact'', ref)]"

definition putAttributionReceipt :: "environment \<Rightarrow> jstring \<Rightarrow> attribution_attempt \<Rightarrow> jsval act" where
  "putAttributionReceipt ev actionId attempt =
     bindA (action_of actionId) (\<lambda>a.
     case find_media ATTRIBUTION_RECEIPT_MEDIA_TYPE (act_artifacts a) of
       Some ref \<Rightarrow> doneA ref
     | None \<Rightarrow> bindA (artifact_event ev actionId (at_receiptRef attempt)) (\<lambda>_. doneA (at_receiptRef attempt)))"

text \<open>
  \<open>settleAttributionBudget\<close>: what is not known to be unspent is spent. \<open>caps\<close> are the reservations
  the action holds before the first entry.
\<close>

definition known_usage :: "attribution_attempt \<Rightarrow> bool" where
  "known_usage attempt \<longleftrightarrow>
     at_promptTokens attempt \<noteq> None \<and> at_completionTokens attempt \<noteq> None \<and> at_costUsdMicros attempt \<noteq> None"

definition int_or_zero :: "int option \<Rightarrow> int" where
  "int_or_zero v = (case v of None \<Rightarrow> 0 | Some n \<Rightarrow> n)"

definition reserved_cap :: "(budget_dimension \<times> action_balance) list \<Rightarrow> budget_dimension \<Rightarrow> int" where
  "reserved_cap caps d = (case map_of caps d of None \<Rightarrow> 0 | Some b \<Rightarrow> a_reserved b)"

definition budget_of_action :: "jstring \<Rightarrow> controller \<Rightarrow> (budget_dimension \<times> action_balance) list" where
  "budget_of_action actionId w = (case rget (rs_budgetByAction (ct_state w)) actionId of Own m \<Rightarrow> m | _ \<Rightarrow> [])"

definition settle_capped ::
  "environment \<Rightarrow> jstring \<Rightarrow> attribution_attempt \<Rightarrow> (budget_dimension \<times> action_balance) list
     \<Rightarrow> budget_dimension \<Rightarrow> int \<Rightarrow> unit act" where
  "settle_capped ev actionId attempt caps d actual =
     settleIfAccountable ev d actionId
       (if known_usage attempt then min actual (reserved_cap caps d) else reserved_cap caps d)
       (if known_usage attempt then 0 else 1)"

definition settleAttributionBudget :: "environment \<Rightarrow> jstring \<Rightarrow> attribution_attempt \<Rightarrow> unit act" where
  "settleAttributionBudget ev actionId attempt =
     bindA (askA (budget_of_action actionId)) (\<lambda>caps.
     bindA (settle_capped ev actionId attempt caps AttributionCalls 1) (\<lambda>_.
     bindA (if 0 < reserved_cap caps WallClockSeconds
            then settle_capped ev actionId attempt caps WallClockSeconds (reserved_cap caps WallClockSeconds)
            else doneA ()) (\<lambda>_.
     bindA (settle_capped ev actionId attempt caps AttributionTokens
              (js_add (int_or_zero (at_promptTokens attempt)) (int_or_zero (at_completionTokens attempt)))) (\<lambda>_.
     bindA (settle_capped ev actionId attempt caps Usd (int_or_zero (at_costUsdMicros attempt))) (\<lambda>_.
     if known_usage attempt then releaseRemainder ev actionId else doneA ())))))"

definition terminal_event :: "environment \<Rightarrow> jstring \<Rightarrow> jstring \<Rightarrow> unit act" where
  "terminal_event ev actionId reason =
     emit ev ''action.terminal''
       [(js ''actionId'', JStr actionId), (js ''status'', JStr (js ''FAILED'')), (js ''reason'', JStr reason)]"

definition debugger_fact :: "string \<Rightarrow> fields" where
  "debugger_fact outcome = [(js ''kind'', JStr (js ''agent-debugger'')), (js ''outcome'', JStr (js outcome))]"

definition failUncertainAttribution :: "environment \<Rightarrow> jstring \<Rightarrow> jstring \<Rightarrow> unit act" where
  "failUncertainAttribution ev actionId reason =
     bindA (action_of actionId) (\<lambda>a.
     if act_status a \<in> set TERMINAL_ACTIONS then doneA ()
     else
       (let attempt = unattributable (ev_uncertainRef ev reason) reason in
        bindA (if act_status a = RUNNING then observeExternalTerminal ev actionId (debugger_fact ''unknown'')
               else doneA ()) (\<lambda>_.
        bindA (putAttributionReceipt ev actionId attempt) (\<lambda>_.
        bindA (terminal_event ev actionId reason) (\<lambda>_.
        settleAttributionBudget ev actionId attempt)))))"

text \<open>The request to the agent debugger. It has no idempotency key: every request is a new one.\<close>

definition attribution_request :: "environment \<Rightarrow> jstring \<Rightarrow> attribution_attempt act" where
  "attribution_request ev actionId =
     durable (\<lambda>w. (w\<lparr>ct_requests := ct_requests w @ [actionId]\<rparr>,
       Inr (case ev_attribution ev actionId of
              Inr attempt \<Rightarrow> attempt
            | Inl reason \<Rightarrow> unattributable (ev_uncertainRef ev reason) reason)))"

definition attribution_launched :: "environment \<Rightarrow> jstring \<Rightarrow> unit act" where
  "attribution_launched ev actionId =
     emit ev ''action.launched''
       [(js ''actionId'', JStr actionId), (js ''externalJobId'', JStr (js ''attribution:'' @ actionId)),
        (js ''provider'', JStr (js ''agent-debugger''))]"

definition reserve_attribution :: "environment \<Rightarrow> attribution_input \<Rightarrow> unit act" where
  "reserve_attribution ev i =
     bindA (emit ev ''action.reserved''
       [(js ''actionId'', JStr (ai_actionId i)), (js ''kind'', JStr (js ''attribution'')),
        (js ''idempotencyKey'', JStr (js ''attribution-'' @ ai_actionId i)), (js ''request'', ai_request i),
        (js ''waveId'', JNull), (js ''budget'', estimate_value (ai_estimate i))]) (\<lambda>_.
     eachA (\<lambda>(d, n). mirror_budget ev Reserve d (ai_actionId i) n 0) (ai_estimate i))"

definition failure_reason :: "attribution_attempt \<Rightarrow> jstring" where
  "failure_reason attempt =
     js ''agent-debugger: '' @ (case at_error attempt of None \<Rightarrow> js ''unknown failure'' | Some e \<Rightarrow> e)"

definition conclude_attribution :: "environment \<Rightarrow> jstring \<Rightarrow> attribution_attempt \<Rightarrow> attribution_result act" where
  "conclude_attribution ev actionId attempt =
     bindA (observeExternalTerminal ev actionId (debugger_fact (if at_ok attempt then ''ok'' else ''error''))) (\<lambda>_.
     bindA (putAttributionReceipt ev actionId attempt) (\<lambda>receipt.
     if at_ok attempt
     then
       bindA (artifact_event ev actionId (at_artifactRef attempt)) (\<lambda>_.
       bindA (settleAttributionBudget ev actionId attempt) (\<lambda>_.
       bindA (commit_event ev actionId JNull) (\<lambda>_.
       doneA \<lparr>ar_actionId = actionId, ar_status = COMMITTED, ar_receipt = Some receipt,
              ar_attribution = Some (at_artifactRef attempt), ar_failureReason = None\<rparr>)))
     else
       bindA (terminal_event ev actionId (failure_reason attempt)) (\<lambda>_.
       bindA (settleAttributionBudget ev actionId attempt) (\<lambda>_.
       attributionResultOf actionId))))"

text \<open>\<open>action.launched\<close> is recorded before the request, so that no restart can send a second one.\<close>

definition send_attribution :: "environment \<Rightarrow> jstring \<Rightarrow> attribution_result act" where
  "send_attribution ev actionId =
     bindA (attribution_launched ev actionId) (\<lambda>_.
     bindA (attribution_request ev actionId) (\<lambda>attempt.
     conclude_attribution ev actionId attempt))"

definition runAttribution :: "environment \<Rightarrow> attribution_input \<Rightarrow> attribution_result act" where
  "runAttribution ev i =
     bindA (askA (\<lambda>w. rget (rs_actions (ct_state w)) (ai_actionId i))) (\<lambda>existing.
     case existing of
       Own a \<Rightarrow>
         if act_status a \<in> set TERMINAL_ACTIONS then attributionResultOf (ai_actionId i)
         else if act_externalJobId a \<noteq> None
         then bindA (failUncertainAttribution ev (ai_actionId i) (js ''recovered after an in-flight attribution call''))
                (\<lambda>_. attributionResultOf (ai_actionId i))
         else send_attribution ev (ai_actionId i)
     | Absent \<Rightarrow> bindA (reserve_attribution ev i) (\<lambda>_. send_attribution ev (ai_actionId i))
     | Inherited \<Rightarrow> liftA (\<lambda>_. Inl (Unmodelled, ''action of an inherited name'')))"

section \<open>Published evidence\<close>

definition publishEvidence :: "environment \<Rightarrow> jstring \<Rightarrow> jsval \<Rightarrow> unit act" where
  "publishEvidence ev key artifact =
     bindA (askA (\<lambda>w. case rs_evidence (ct_state w) of None \<Rightarrow> Absent | Some m \<Rightarrow> rget m key)) (\<lambda>existing.
     case existing of
       Own old \<Rightarrow>
         liftA (\<lambda>_. bindR (canonicalJson old) (\<lambda>a. bindR (canonicalJson artifact) (\<lambda>b.
           ensure (a = b) (PlainError, ''conflicting evidence publication'') (Inr ()))))
     | Inherited \<Rightarrow> liftA (\<lambda>_. Inl (Unmodelled, ''evidence of an inherited name''))
     | Absent \<Rightarrow>
         bindA (liftA (\<lambda>_. ev_scrub ev [artifact])) (\<lambda>_.
         emit ev ''evidence.published'' [(js ''key'', JStr key), (js ''artifact'', artifact)]))"

section \<open>Recovery\<close>

text \<open>
  The order in which \<open>Object.values\<close> lists a dictionary: the keys that are array indices in
  ascending order, then the others as they were added.
\<close>

definition array_index :: "jstring \<Rightarrow> int option" where
  "array_index k =
     (if k \<noteq> [] \<and> list_all (\<lambda>u. 48 \<le> uint u \<and> uint u \<le> 57) k \<and> (hd k = digit 0 \<longrightarrow> k = [digit 0])
      then (let n = value_of_digits 0 k in
            if n < 2 ^ 32 - 1 then Some n else None)
      else None)"

definition object_entries :: "'v dict \<Rightarrow> 'v dict" where
  "object_entries d =
     sort_key (\<lambda>p. the (array_index (fst p))) (filter (\<lambda>p. array_index (fst p) \<noteq> None) d)
       @ filter (\<lambda>p. array_index (fst p) = None) d"

definition object_values :: "'v dict \<Rightarrow> 'v list" where
  "object_values d = map snd (object_entries d)"

definition missing_value :: "jstring \<Rightarrow> evaluation_request \<Rightarrow> jsval" where
  "missing_value actionId rq = JObj
     [(js ''actionId'', JStr actionId), (js ''candidateId'', JStr (rq_candidateId rq)),
      (js ''opaqueTaskId'', JStr (rq_opaqueTaskId rq)), (js ''split'', JStr (rq_split rq)),
      (js ''attempt'', rq_attempt rq), (js ''outcome'', JStr (js ''missing'')), (js ''reward'', JNum 0),
      (js ''costUsdMicros'', JNull), (js ''durationMs'', JNull)]"

definition settleMissing :: "environment \<Rightarrow> jstring \<Rightarrow> jstring \<Rightarrow> unit act" where
  "settleMissing ev actionId reason =
     bindA (observeExternalTerminal ev actionId (status_fact JobLost @ [(js ''reason'', JStr reason)])) (\<lambda>_.
     bindA (action_of actionId) (\<lambda>a.
     if act_status a \<in> set TERMINAL_ACTIONS then doneA ()
     else
       bindA (request_of actionId) (\<lambda>rq.
       bindA (commit_event ev actionId (missing_value actionId rq)) (\<lambda>_.
       bindA (settleIfAccountable ev Usd actionId 0 1) (\<lambda>_.
       bindA (settleIfAccountable ev TaskTrials actionId 1 0) (\<lambda>_.
       bindA (askA (\<lambda>w. rc_budgetLimits (ct_config w) SolverTokens \<noteq> None)) (\<lambda>live.
       bindA (if live then settleIfAccountable ev SolverTokens actionId 0 1 else doneA ()) (\<lambda>_.
       releaseRemainder ev actionId))))))))"

definition observeAndCollect :: "environment \<Rightarrow> jstring \<Rightarrow> jstring \<Rightarrow> unit act" where
  "observeAndCollect ev actionId job =
     bindA (observeExternalTerminal ev actionId (status_fact (ev_status ev job 1))) (\<lambda>_.
     bindA (collectAndCommit ev actionId) (\<lambda>_. doneA ()))"

text \<open>
  What recovery does with one pending action. Proposal sandboxes are only looked at. The provider is
  asked once, and once more before a finished job is collected.
\<close>

definition reconcile_action :: "environment \<Rightarrow> action_state \<Rightarrow> unit act" where
  "reconcile_action ev a =
     (case act_externalJobId a of
        None \<Rightarrow> doneA ()
      | Some job \<Rightarrow>
          if act_kind a = js ''proposal'' then doneA ()
          else if act_kind a = js ''attribution''
          then failUncertainAttribution ev (act_actionId a)
                 (js ''controller resumed after an in-flight agent-debugger request'')
          else (case ev_status ev job 0 of
              JobRunning \<Rightarrow> doneA ()
            | JobLost \<Rightarrow> settleMissing ev (act_actionId a) (js ''provider-lost'')
            | JobUnknown \<Rightarrow> settleMissing ev (act_actionId a) (js ''provider-unknown'')
            | _ \<Rightarrow> observeAndCollect ev (act_actionId a) job))"

definition reconcile_wave :: "environment \<Rightarrow> wave_state \<Rightarrow> unit act" where
  "reconcile_wave ev wave =
     bindA (askA (\<lambda>w. wv_status wave = WaveOpen \<and> wave_members_terminal wave w)) (\<lambda>ready.
       if ready then commitWave ev (wv_waveId wave) else doneA ())"

definition reconcile :: "environment \<Rightarrow> jstring act" where
  "reconcile ev =
     bindA (askA (\<lambda>w. filter (\<lambda>a. act_status a \<notin> set TERMINAL_ACTIONS) (object_values (rs_actions (ct_state w))))) (\<lambda>pending.
     bindA (eachA (reconcile_action ev) pending) (\<lambda>_.
     bindA (askA (\<lambda>w. object_values (rs_waves (ct_state w)))) (\<lambda>waves.
     bindA (eachA (reconcile_wave ev) waves) (\<lambda>_.
     bindA (liftA (\<lambda>w. assertMatches (ct_ledger w) (by_name (rs_budget (ct_state w))))) (\<lambda>_.
     liftA (\<lambda>w. stateHashOf (ev_sha ev) (ct_state w)))))))"

section \<open>Opening a run\<close>

text \<open>What a new process reads back: the state, the position in the journal and the ledger.\<close>

definition journal_end :: "fields list \<Rightarrow> journal \<Rightarrow> journal" where
  "journal_end es j =
     (if es = [] then j\<lparr>jw_lastSeq := 0, jw_lastHash := GENESIS_PREVIOUS_HASH\<rparr>
      else j\<lparr>jw_lastSeq := event_seq (last es), jw_lastHash := event_hash (last es)\<rparr>)"

definition load_run :: "environment \<Rightarrow> controller \<Rightarrow> controller res" where
  "load_run ev w =
     bindR (replayEvents (ev_sha ev) (ct_config w) (ct_committed w)) (\<lambda>s.
     bindR (open_ledger (ev_sha ev) (ct_ledgerFile w) (rc_runId (ct_config w)) (rc_budgetLimits (ct_config w))) (\<lambda>l.
     bindR (assertMatches l (by_name (rs_budget s))) (\<lambda>_.
       Inr (w\<lparr>ct_state := s, ct_journal := journal_end (ct_committed w) (ct_journal w), ct_ledger := l\<rparr>))))"

definition verify_action :: "environment \<Rightarrow> run_state \<Rightarrow> action_state \<Rightarrow> unit res" where
  "verify_action ev s a =
     bindR (eachR (\<lambda>ref. ev_scrub ev [ref]) (act_artifacts a)) (\<lambda>_.
       case map_of (rs_externalJobs s) (act_actionId a) of
         None \<Rightarrow> Inr ()
       | Some job \<Rightarrow> ensure (act_externalJobId a = Some job)
                       (c_err ''external job mapping disagrees with action state'') (Inr ()))"

definition verify_objects :: "environment \<Rightarrow> run_state \<Rightarrow> unit res" where
  "verify_objects ev s =
     bindR (eachR (verify_action ev s) (object_values (rs_actions s))) (\<lambda>_.
       eachR (\<lambda>ref. ev_scrub ev [ref])
         (case rs_evidence s of None \<Rightarrow> [] | Some m \<Rightarrow> object_values m))"

definition open_controller :: "environment \<Rightarrow> jstring act" where
  "open_controller ev w =
     (case load_run ev w of
        Inl e \<Rightarrow> (w, Inl e)
      | Inr w' \<Rightarrow>
          bindA (liftA (\<lambda>v. verify_objects ev (ct_state v))) (\<lambda>_. reconcile ev) w')"

section \<open>The status view\<close>

record run_status =
  st_runId :: jstring
  st_phase :: phase
  st_seq :: int
  st_stateHash :: jstring
  st_reservationCounter :: int
  st_observationCount :: int
  st_actions :: "(jstring \<times> action_status \<times> jstring option \<times> jstring option) list"
  st_waves :: "(jstring \<times> wave_status \<times> int) list"
  st_budget :: "budget_totals dict"

definition statusOf :: "environment \<Rightarrow> controller \<Rightarrow> run_status res" where
  "statusOf ev w =
     (let s = ct_state w in
      bindR (stateHashOf (ev_sha ev) s) (\<lambda>h. Inr
        \<lparr>st_runId = rc_runId (ct_config w), st_phase = rs_phase s, st_seq = rs_seq s, st_stateHash = h,
         st_reservationCounter = rs_reservationCounter s,
         st_observationCount = int (length (rs_observations s)),
         st_actions = map (\<lambda>a. (act_actionId a, act_status a, act_externalJobId a, act_waveId a))
           (sort_key act_reservationSeq (object_values (rs_actions s))),
         st_waves = map (\<lambda>v. (wv_waveId v, wv_status v, int (length (wv_members v))))
           (object_values (rs_waves s)),
         st_budget = ledger_totals (ct_ledger w)\<rparr>))"

definition controller_status :: "environment \<Rightarrow> controller \<Rightarrow> run_status res" where
  "controller_status ev w =
     bindR (assertMatches (ct_ledger w) (by_name (rs_budget (ct_state w)))) (\<lambda>_. statusOf ev w)"

text \<open>\<open>readRunStatus\<close>: the same view from what is on disk, without the lock.\<close>

definition readRunStatus :: "environment \<Rightarrow> controller \<Rightarrow> run_status res" where
  "readRunStatus ev w = bindR (load_run ev w) (statusOf ev)"

section \<open>Sessions\<close>

text \<open>
  What a run goes through: calls of the controller by its process, and restarts. \<open>Restart n\<close> kills the
  process, whatever it was doing, and starts one that dies after \<open>n\<close> durable steps (never for
  \<open>None\<close>). A process that could not open the run does nothing more.
\<close>

datatype command =
    RunWave "nat list" "nat list" "evaluation_input list"
  | RunOne evaluation_input
  | ResumeOne jstring
  | ResumeWave "nat list" "nat list" "jstring list"
  | RunAttribution attribution_input
  | CommitWave jstring
  | ChangePhase phase jstring
  | PlanWave jstring jsval "jstring list"
  | RegisterCandidate jstring jstring jsval jsval
  | ChangeStatus jstring candidate_status jstring
  | RecordDraw jsval
  | LockCandidate jstring jstring
  | RevealSealed jstring jstring
  | PublishEvidence jstring jsval
  | Restart "nat option"

definition restart :: "environment \<Rightarrow> nat option \<Rightarrow> controller \<Rightarrow> controller" where
  "restart ev fuel w =
     (case open_controller ev (w\<lparr>ct_fuel := fuel\<rparr>) of
        (w', Inr _) \<Rightarrow> w'
      | (w', Inl _) \<Rightarrow> w'\<lparr>ct_fuel := Some 0\<rparr>)"

fun run_command :: "environment \<Rightarrow> command \<Rightarrow> controller \<Rightarrow> controller" where
  "run_command ev (RunWave schedule order inputs) w = fst (runEvaluationWave ev schedule order inputs w)"
| "run_command ev (RunOne i) w = fst (runEvaluation ev i w)"
| "run_command ev (ResumeOne i) w = fst (resumeEvaluation ev i w)"
| "run_command ev (ResumeWave schedule order ids) w = fst (resumeEvaluationWave ev schedule order ids w)"
| "run_command ev (RunAttribution i) w = fst (runAttribution ev i w)"
| "run_command ev (CommitWave i) w = fst (commitWave ev i w)"
| "run_command ev (ChangePhase to reason) w = fst (changePhase ev to reason w)"
| "run_command ev (PlanWave i split members) w = fst (planWave ev i split members w)"
| "run_command ev (RegisterCandidate i h p q) w = fst (registerCandidate ev i h p q w)"
| "run_command ev (ChangeStatus i to reason) w = fst (changeCandidateStatus ev i to reason w)"
| "run_command ev (RecordDraw r) w = fst (recordRngDraw ev r w)"
| "run_command ev (LockCandidate i h) w = fst (lockCandidate ev i h w)"
| "run_command ev (RevealSealed i h) w = fst (revealSealed ev i h w)"
| "run_command ev (PublishEvidence k r) w = fst (publishEvidence ev k r w)"
| "run_command ev (Restart n) w = restart ev n w"

text \<open>The environment may answer differently at every call; the digest is the same one.\<close>

definition run_session ::
  "(jstring \<Rightarrow> jstring) \<Rightarrow> (environment \<times> command) list \<Rightarrow> controller \<Rightarrow> controller" where
  "run_session sha cs w = foldl (\<lambda>w (ev, c). run_command (ev\<lparr>ev_sha := sha\<rparr>) c w) w cs"

text \<open>A run before its first event.\<close>

definition new_controller :: "reducer_config \<Rightarrow> journal_config \<Rightarrow> controller" where
  "new_controller c jc =
     \<lparr>ct_config = c, ct_state = initialState c,
      ct_journal = \<lparr>jw_config = jc, jw_head = None, jw_lastSeq = 0, jw_lastHash = GENESIS_PREVIOUS_HASH,
        jw_activeSegment = [], jw_activeSize = 0, jw_activeEvents = [], jw_handleOpen = False\<rparr>,
      ct_committed = [],
      ct_ledger = \<lparr>bl_runId = rc_runId c, bl_limits = rc_budgetLimits c, bl_accounting = emptyAccounting,
        bl_lastSeq = 0, bl_lastHash = BUDGET_GENESIS_HASH\<rparr>,
      ct_ledgerFile = None, ct_jobs = [], ct_effects = [], ct_requests = [], ct_fuel = None\<rparr>"

end
