(* ===== verification/ControllerLaws.thy ===== *)
theory ControllerLaws
  imports ControllerRecovery
begin

text \<open>
  A calculus for the controller's calls. \<open>keeps P m\<close> says that \<open>m\<close> keeps \<open>P\<close> whether it returns, fails
  or the process dies in it. The interface \<open>controller_invariant\<close> lists what an invariant has to be
  checked against, the steps that change the state, and derives that every call, every recovery
  and every session keeps it. The theories that follow interpret it.
\<close>

section \<open>Keeping an invariant\<close>

definition keeps :: "(controller \<Rightarrow> bool) \<Rightarrow> 'a act \<Rightarrow> bool" where
  "keeps P m \<longleftrightarrow> (\<forall>w. P w \<longrightarrow> P (fst (m w)))"

named_theorems keep

lemma keepsI [intro]: "(\<And>w. P w \<Longrightarrow> P (fst (m w))) \<Longrightarrow> keeps P m"
  by (simp add: keeps_def)

lemma keepsD: "keeps P m \<Longrightarrow> P w \<Longrightarrow> m w = (w', r) \<Longrightarrow> P w'"
  by (metis fst_conv keeps_def)

lemma keeps_done [keep]: "keeps P (doneA a)"
  by (simp add: keeps_def doneA_def)

lemma keeps_lift [keep]: "keeps P (liftA f)"
  by (simp add: keeps_def liftA_def)

lemma keeps_ask [keep]: "keeps P (askA f)"
  by (simp add: keeps_def askA_def)

text \<open>What a first part is known to give when it returns may be used for the second one.\<close>

lemma keeps_bind_known:
  assumes "keeps P m" "\<And>w w' a. P w \<Longrightarrow> m w = (w', Inr a) \<Longrightarrow> keeps P (f a)"
  shows "keeps P (bindA m f)"
proof
  fix w assume "P w"
  with assms show "P (fst (bindA m f w))"
    by (auto simp: bindA_def keeps_def split: prod.splits sum.splits)
qed

lemma keeps_bind [keep]: "keeps P m \<Longrightarrow> (\<And>a. keeps P (f a)) \<Longrightarrow> keeps P (bindA m f)"
  by (rule keeps_bind_known)

lemma keeps_if [keep]: "(c \<Longrightarrow> keeps P m) \<Longrightarrow> (\<not> c \<Longrightarrow> keeps P m') \<Longrightarrow> keeps P (if c then m else m')"
  by simp

lemma keeps_option [keep]:
  "keeps P m \<Longrightarrow> (\<And>x. v = Some x \<Longrightarrow> keeps P (f x)) \<Longrightarrow> keeps P (case v of None \<Rightarrow> m | Some x \<Rightarrow> f x)"
  by (simp split: option.splits)

lemma keeps_found [keep]:
  "(\<And>x. v = Own x \<Longrightarrow> keeps P (f x)) \<Longrightarrow> keeps P m \<Longrightarrow> keeps P m'
     \<Longrightarrow> keeps P (case v of Own x \<Rightarrow> f x | Absent \<Rightarrow> m | Inherited \<Rightarrow> m')"
  by (simp split: found.splits)

lemma keeps_list [keep]:
  "keeps P m \<Longrightarrow> (\<And>x xs. keeps P (f x xs)) \<Longrightarrow> keeps P (case v of [] \<Rightarrow> m | x # xs \<Rightarrow> f x xs)"
  by (simp split: list.splits)

lemma keeps_pair [keep]: "(\<And>x y. v = (x, y) \<Longrightarrow> keeps P (f x y)) \<Longrightarrow> keeps P (case v of (x, y) \<Rightarrow> f x y)"
  by (simp split: prod.splits)

lemma keeps_let [keep]: "keeps P (f v) \<Longrightarrow> keeps P (let x = v in f x)"
  by simp

lemma keeps_each: "(\<And>x. x \<in> set xs \<Longrightarrow> keeps P (f x)) \<Longrightarrow> keeps P (eachA f xs)"
  by (induction xs) (auto intro: keep)

lemma keeps_map: "(\<And>x. x \<in> set xs \<Longrightarrow> keeps P (f x)) \<Longrightarrow> keeps P (mapA f xs)"
  by (induction xs) (auto intro: keep)

lemma keeps_settled:
  assumes "\<And>x. x \<in> set xs \<Longrightarrow> keeps P (f x)"
  shows "keeps P (settledA f xs)"
  using assms
proof (induction xs)
  case Nil
  then show ?case by (simp add: keeps_done)
next
  case (Cons x xs)
  show ?case
  proof
    fix w assume "P w"
    obtain w' r where f: "f x w = (w', r)" by force
    from Cons.prems \<open>P w\<close> f have "P w'" by (metis keepsD list.set_intros(1))
    moreover have "keeps P (bindA (settledA f xs) (\<lambda>rs. doneA ((x, r) # rs)))"
      by (intro keeps_bind keeps_done Cons.IH Cons.prems) simp
    ultimately show "P (fst (settledA f (x # xs) w))" by (simp add: f keeps_def)
  qed
qed

text \<open>Simplification of a call that returned.\<close>

lemma bindA_Inr: "bindA m f w = (w', Inr b) \<longleftrightarrow> (\<exists>v a. m w = (v, Inr a) \<and> f a v = (w', Inr b))"
  by (auto simp: bindA_def split: prod.splits sum.splits)

lemma doneA_Inr [simp]: "doneA a w = (w', Inr b) \<longleftrightarrow> w' = w \<and> b = a"
  by (auto simp: doneA_def)

lemma askA_Inr [simp]: "askA f w = (w', Inr b) \<longleftrightarrow> w' = w \<and> b = f w"
  by (auto simp: askA_def)

lemma liftA_Inr: "liftA f w = (w', Inr b) \<longleftrightarrow> w' = w \<and> f w = Inr b"
  by (auto simp: liftA_def)

lemma action_of_Inr: "action_of i w = (w', Inr a) \<longleftrightarrow> w' = w \<and> map_of (rs_actions (ct_state w)) i = Some a"
  by (auto simp: action_of_def liftA_Inr rget_Own_iff rget_Absent_iff rget_Inherited_iff split: found.splits)

lemma bindA_ask [simp]: "bindA (askA f) g w = g (f w) w"
  by (simp add: bindA_def askA_def)

lemma bindA_assoc: "bindA (bindA m f) g = bindA m (\<lambda>a. bindA (f a) g)"
  by (auto simp: bindA_def fun_eq_iff split: prod.splits sum.splits)

section \<open>The interface\<close>

text \<open>
  The digest is the same for every call; everything else of the environment may change. An action has
  a non-empty name, which is what lets the ledger be read again.
\<close>

definition env_of :: "(jstring \<Rightarrow> jstring) \<Rightarrow> environment \<Rightarrow> bool" where
  "env_of sha ev \<longleftrightarrow> ev_sha ev = sha"

lemma env_of_update [simp]: "env_of sha (ev\<lparr>ev_sha := sha\<rparr>)"
  by (simp add: env_of_def)

lemma reserved_names:
  assumes "emit ev ''action.reserved'' p w = (w', Inr u)"
  shows "fget p (js ''actionId'') \<noteq> JStr []"
proof -
  from assms have "validatePayload (js ''action.reserved'') p = Inr ()"
    by (auto simp: emit_def bindA_Inr liftA_Inr)
  then show ?thesis
    by (auto simp: validatePayload_def payload_validators_def validate_reserved_def expect_fields_def
        need_str_def ensure_Inr_iff bindR_Inr_iff)
qed

locale controller_invariant =
  fixes sha :: "jstring \<Rightarrow> jstring" and P :: "controller \<Rightarrow> bool"
  assumes emit_keeps: "env_of sha ev \<Longrightarrow> ty \<noteq> ''budget.entry'' \<Longrightarrow> keeps P (emit ev ty p)"
    and mirror_keeps: "env_of sha ev \<Longrightarrow> i \<noteq> [] \<Longrightarrow> keeps P (mirror_budget ev k d i n u)"
    and effect_keeps: "env_of sha ev \<Longrightarrow> keeps P (provider_launch ev key)"
    and request_keeps:
      "env_of sha ev \<Longrightarrow> keeps P (bindA (attribution_launched ev i) (\<lambda>_. attribution_request ev i))"
    and named: "P w \<Longrightarrow> map_of (rs_actions (ct_state w)) i = Some a \<Longrightarrow> i \<noteq> []"
    and fuel_keeps: "P w \<Longrightarrow> P (w\<lparr>ct_fuel := f\<rparr>)"
    and load_keeps: "P w \<Longrightarrow> env_of sha ev \<Longrightarrow> load_run ev w = Inr w' \<Longrightarrow> P w'"
begin

lemma action_of_keeps [keep]: "keeps P (action_of i)"
  by (simp add: action_of_def keeps_lift)

lemma keeps_action_bind:
  assumes "\<And>a. i \<noteq> [] \<Longrightarrow> keeps P (f a)"
  shows "keeps P (bindA (action_of i) f)"
  by (rule keeps_bind_known) (auto simp: action_of_Inr intro: action_of_keeps dest: named intro!: assms)

lemma settleIfAccountable_keeps: "env_of sha ev \<Longrightarrow> i \<noteq> [] \<Longrightarrow> keeps P (settleIfAccountable ev d i n u)"
  by (simp add: settleIfAccountable_def keeps_done mirror_keeps)

lemma releaseRemainder_keeps: "env_of sha ev \<Longrightarrow> i \<noteq> [] \<Longrightarrow> keeps P (releaseRemainder ev i)"
  unfolding releaseRemainder_def by (intro keep keeps_each mirror_keeps) auto

lemma request_of_keeps [keep]: "keeps P (request_of i)"
  unfolding request_of_def by (intro keep)

lemma observation_of_keeps [keep]: "keeps P (observation_of i)"
  unfolding observation_of_def by (intro keep)

lemma reserve_keeps: "env_of sha ev \<Longrightarrow> keeps P (reserve_evaluation ev i)"
  unfolding reserve_evaluation_def
  by (intro keep keeps_bind_known [OF emit_keeps] keeps_each mirror_keeps)
     (auto dest!: reserved_names simp: fget_def)

lemma launch_effect_keeps: "env_of sha ev \<Longrightarrow> keeps P (launch_effect ev i)"
  unfolding launch_effect_def by (intro keep effect_keeps)

lemma launch_receipt_keeps: "env_of sha ev \<Longrightarrow> keeps P (launch_receipt ev i j)"
  unfolding launch_receipt_def by (intro emit_keeps) auto

lemma launch_action_keeps: "env_of sha ev \<Longrightarrow> keeps P (launch_action ev i)"
  unfolding launch_action_def by (intro keep launch_effect_keeps launch_receipt_keeps)

lemma observe_keeps: "env_of sha ev \<Longrightarrow> keeps P (observeExternalTerminal ev i t)"
  unfolding observeExternalTerminal_def by (intro keep emit_keeps) auto

lemma awaitTerminal_keeps: "env_of sha ev \<Longrightarrow> keeps P (awaitTerminal ev i)"
  unfolding awaitTerminal_def by (intro keep observe_keeps)

lemma commit_event_keeps: "env_of sha ev \<Longrightarrow> keeps P (commit_event ev i v)"
  unfolding commit_event_def by (intro emit_keeps) auto

lemma commitObservation_keeps: "env_of sha ev \<Longrightarrow> keeps P (commitObservation ev i rq t)"
  unfolding commitObservation_def settle_solver_tokens_def
  by (intro keeps_action_bind keep commit_event_keeps settleIfAccountable_keeps releaseRemainder_keeps)

lemma collect_artifacts_keeps: "env_of sha ev \<Longrightarrow> keeps P (collect_artifacts ev i refs)"
  unfolding collect_artifacts_def by (intro keeps_each emit_keeps) auto

lemma collectAndCommit_keeps: "env_of sha ev \<Longrightarrow> keeps P (collectAndCommit ev i)"
  unfolding collectAndCommit_def by (intro keep collect_artifacts_keeps commitObservation_keeps)

lemma launch_step_keeps: "env_of sha ev \<Longrightarrow> keeps P (launch_step ev i t)"
  using launch_effect_keeps [of ev i] launch_receipt_keeps [of ev i]
  by (cases t) (auto simp: keeps_def split: prod.splits sum.splits option.splits; metis fst_conv)+

lemma run_launches_keeps: "env_of sha ev \<Longrightarrow> keeps P (run_launches ev tasks schedule)"
  by (induction schedule arbitrary: tasks) (auto intro!: keep launch_step_keeps)

lemma drive_wave_keeps: "env_of sha ev \<Longrightarrow> keeps P (drive_wave ev schedule order ids)"
  unfolding drive_wave_def launch_all_def await_all_def
  by (intro keep run_launches_keeps keeps_settled awaitTerminal_keeps)

lemma runEvaluationWave_keeps: "env_of sha ev \<Longrightarrow> keeps P (runEvaluationWave ev schedule order inputs)"
  unfolding runEvaluationWave_def
  by (intro keep keeps_each keeps_map reserve_keeps drive_wave_keeps collectAndCommit_keeps)

lemma runEvaluation_keeps: "env_of sha ev \<Longrightarrow> keeps P (runEvaluation ev i)"
  unfolding runEvaluation_def by (intro keep runEvaluationWave_keeps)

lemma resumeEvaluation_keeps: "env_of sha ev \<Longrightarrow> keeps P (resumeEvaluation ev i)"
  unfolding resumeEvaluation_def
  by (intro keep launch_action_keeps awaitTerminal_keeps collectAndCommit_keeps)

lemma resumeEvaluationWave_keeps: "env_of sha ev \<Longrightarrow> keeps P (resumeEvaluationWave ev schedule order ids)"
  unfolding resumeEvaluationWave_def
  by (intro keep keeps_map drive_wave_keeps collectAndCommit_keeps)

lemma commitWave_keeps: "env_of sha ev \<Longrightarrow> keeps P (commitWave ev i)"
  unfolding commitWave_def by (intro keep emit_keeps) auto

lemma publishEvidence_keeps: "env_of sha ev \<Longrightarrow> keeps P (publishEvidence ev key v)"
  unfolding publishEvidence_def by (intro keep emit_keeps) auto

text \<open>Attribution.\<close>

lemma artifact_event_keeps: "env_of sha ev \<Longrightarrow> keeps P (artifact_event ev i r)"
  unfolding artifact_event_def by (intro emit_keeps) auto

lemma terminal_event_keeps: "env_of sha ev \<Longrightarrow> keeps P (terminal_event ev i r)"
  unfolding terminal_event_def by (intro emit_keeps) auto

lemma putAttributionReceipt_keeps: "env_of sha ev \<Longrightarrow> keeps P (putAttributionReceipt ev i r)"
  unfolding putAttributionReceipt_def by (intro keep artifact_event_keeps)

lemma settleAttributionBudget_keeps:
  "env_of sha ev \<Longrightarrow> i \<noteq> [] \<Longrightarrow> keeps P (settleAttributionBudget ev i t)"
  unfolding settleAttributionBudget_def settle_capped_def
  by (intro keep settleIfAccountable_keeps releaseRemainder_keeps)

lemma failUncertainAttribution_keeps: "env_of sha ev \<Longrightarrow> keeps P (failUncertainAttribution ev i reason)"
  unfolding failUncertainAttribution_def
  by (intro keeps_action_bind keep observe_keeps putAttributionReceipt_keeps terminal_event_keeps
      settleAttributionBudget_keeps)

lemma attributionResultOf_keeps [keep]: "keeps P (attributionResultOf i)"
  unfolding attributionResultOf_def by (intro keep)

lemma conclude_keeps: "env_of sha ev \<Longrightarrow> i \<noteq> [] \<Longrightarrow> keeps P (conclude_attribution ev i t)"
  unfolding conclude_attribution_def
  by (intro keep observe_keeps putAttributionReceipt_keeps artifact_event_keeps terminal_event_keeps
      settleAttributionBudget_keeps commit_event_keeps)

lemma send_keeps: "env_of sha ev \<Longrightarrow> i \<noteq> [] \<Longrightarrow> keeps P (send_attribution ev i)"
  using keeps_bind [OF request_keeps conclude_keeps] by (simp add: send_attribution_def bindA_assoc)

lemma reserve_attribution_keeps: "env_of sha ev \<Longrightarrow> keeps P (reserve_attribution ev i)"
  unfolding reserve_attribution_def
  by (intro keep keeps_bind_known [OF emit_keeps] keeps_each mirror_keeps)
     (auto dest!: reserved_names simp: fget_def)

lemma reserve_attribution_names: "reserve_attribution ev i w = (w', Inr u) \<Longrightarrow> ai_actionId i \<noteq> []"
  by (auto simp: reserve_attribution_def bindA_Inr fget_def dest!: reserved_names)

lemma runAttribution_keeps:
  assumes "env_of sha ev"
  shows "keeps P (runAttribution ev i)"
proof
  fix w assume w: "P w"
  show "P (fst (runAttribution ev i w))"
  proof (cases "rget (rs_actions (ct_state w)) (ai_actionId i)")
    case (Own a)
    then have ne: "ai_actionId i \<noteq> []" using named [OF w] by (simp add: rget_Own_iff)
    have "keeps P (if act_status a \<in> set TERMINAL_ACTIONS then attributionResultOf (ai_actionId i)
         else if act_externalJobId a \<noteq> None
         then bindA (failUncertainAttribution ev (ai_actionId i) (js ''recovered after an in-flight attribution call''))
                (\<lambda>_. attributionResultOf (ai_actionId i))
         else send_attribution ev (ai_actionId i))"
      by (intro keep failUncertainAttribution_keeps send_keeps assms ne)
    with w show ?thesis unfolding runAttribution_def bindA_ask Own keeps_def by simp
  next
    case Absent
    have "keeps P (bindA (reserve_attribution ev i) (\<lambda>_. send_attribution ev (ai_actionId i)))"
      by (rule keeps_bind_known [OF reserve_attribution_keeps [OF assms]])
         (auto dest: reserve_attribution_names intro: send_keeps [OF assms])
    with w show ?thesis by (simp add: runAttribution_def Absent keeps_def)
  next
    case Inherited
    with w show ?thesis by (simp add: runAttribution_def Inherited liftA_def)
  qed
qed

text \<open>Recovery and sessions.\<close>

lemma settleMissing_keeps: "env_of sha ev \<Longrightarrow> keeps P (settleMissing ev i r)"
  unfolding settleMissing_def
  by (intro keeps_bind [OF observe_keeps] keeps_action_bind keep commit_event_keeps
      settleIfAccountable_keeps releaseRemainder_keeps)

lemma reconcile_action_keeps: "env_of sha ev \<Longrightarrow> keeps P (reconcile_action ev a)"
  unfolding reconcile_action_def observeAndCollect_def
  by (auto intro!: keep failUncertainAttribution_keeps settleMissing_keeps observe_keeps collectAndCommit_keeps
      split: job_status.splits)

lemma reconcile_keeps: "env_of sha ev \<Longrightarrow> keeps P (reconcile ev)"
  unfolding reconcile_def reconcile_wave_def
  by (intro keep keeps_each reconcile_action_keeps commitWave_keeps)

lemma open_controller_keeps:
  assumes "env_of sha ev"
  shows "keeps P (open_controller ev)"
proof
  fix w assume w: "P w"
  have "keeps P (bindA (liftA (\<lambda>v. verify_objects ev (ct_state v))) (\<lambda>_. reconcile ev))"
    by (intro keep reconcile_keeps assms)
  with w load_keeps [OF w assms] show "P (fst (open_controller ev w))"
    by (auto simp: open_controller_def keeps_def split: sum.splits)
qed

lemma restart_keeps: "env_of sha ev \<Longrightarrow> P w \<Longrightarrow> P (restart ev n w)"
  using open_controller_keeps [of ev] fuel_keeps
  by (auto simp: restart_def keeps_def split: prod.splits sum.splits; metis fst_conv)

lemma run_command_keeps: "env_of sha ev \<Longrightarrow> P w \<Longrightarrow> P (run_command ev c w)"
  using runEvaluationWave_keeps runEvaluation_keeps resumeEvaluation_keeps resumeEvaluationWave_keeps
    runAttribution_keeps commitWave_keeps publishEvidence_keeps emit_keeps
  by (cases c) (simp_all add: restart_keeps keeps_def changePhase_def planWave_def registerCandidate_def
      changeCandidateStatus_def recordRngDraw_def lockCandidate_def revealSealed_def)

lemma run_session_keeps: "P w \<Longrightarrow> P (run_session sha cs w)"
  by (induction cs arbitrary: w) (auto simp: run_session_def run_command_keeps)

end

end
