(* ===== verification/ControllerSpec.thy ===== *)
theory ControllerSpec
  imports ControllerLaws "HOL-Library.Sublist"
begin

text \<open>
  What every session of the controller keeps, whatever fails and wherever the process dies: the state
  follows the journal, the attribution request of an action is sent at most once, and the ledger is
  never behind the journal. The invariants interpret \<open>controller_invariant\<close>.
\<close>

section \<open>One recorded event\<close>

lemma durable_cases:
  assumes "durable f w = (w', r)"
  shows "w' = w \<and> r = Inl stopped \<or> (\<exists>n. f (w\<lparr>ct_fuel := n\<rparr>) = (w', r))"
proof (cases "ct_fuel w")
  case None
  then have "w\<lparr>ct_fuel := None\<rparr> = w" by (cases w) simp
  moreover have "f w = (w', r)" using None assms by (simp add: durable_def)
  ultimately show ?thesis by metis
next
  case (Some n)
  then show ?thesis using assms by (cases n) (auto simp: durable_def)
qed

text \<open>\<open>emit\<close> either changes nothing but the fuel, or the event is in the journal for good.\<close>

lemma emit_cases:
  assumes "emit ev ty p w = (w', r)"
  obtains (unchanged) err where "w' = w" "r = Inl err"
  | (recorded) e n where
      "draft_event (ev_sha ev) (ev_fresh ev (jw_lastSeq (ct_journal w))) (ct_journal w)
         \<lparr>ed_type = js ty, ed_actor = js ''controller'', ed_payload = p,
          ed_occurredAt = ev_clock ev (jw_lastSeq (ct_journal w)), ed_causationId = None,
          ed_correlationId = None, ed_eventId = None\<rparr> = Inr e"
      "case reduceEvent (ev_sha ev) (ct_config w) (ct_state w) e of
         Inl err \<Rightarrow> w' = push_event e (w\<lparr>ct_fuel := n\<rparr>) \<and> r = Inl err
       | Inr s \<Rightarrow> w' = (push_event e (w\<lparr>ct_fuel := n\<rparr>))\<lparr>ct_state := s\<rparr> \<and> r = Inr ()"
proof -
  let ?d = "draft_event (ev_sha ev) (ev_fresh ev (jw_lastSeq (ct_journal w))) (ct_journal w)
         \<lparr>ed_type = js ty, ed_actor = js ''controller'', ed_payload = p,
          ed_occurredAt = ev_clock ev (jw_lastSeq (ct_journal w)), ed_causationId = None,
          ed_correlationId = None, ed_eventId = None\<rparr>"
  show thesis
  proof (cases "validatePayload (js ty) p")
    case (Inl err)
    show thesis by (rule unchanged [of err]) (use assms Inl in \<open>auto simp: emit_def bindA_def liftA_def\<close>)
  next
    case valid: (Inr u)
    show thesis
    proof (cases ?d)
      case (Inl err)
      show thesis
        by (rule unchanged [of err]) (use assms valid Inl in \<open>auto simp: emit_def bindA_def liftA_def\<close>)
    next
      case (Inr e)
      obtain v q where d: "durable (\<lambda>w. (push_event e w, Inr ())) w = (v, q)" by force
      from durable_cases [OF this] show thesis
      proof
        assume "v = w \<and> q = Inl stopped"
        then show thesis
          by (intro unchanged [of stopped]) (use assms valid Inr d in \<open>auto simp: emit_def bindA_def liftA_def\<close>)
      next
        assume "\<exists>n. (push_event e (w\<lparr>ct_fuel := n\<rparr>), Inr ()) = (v, q)"
        then obtain n where "v = push_event e (w\<lparr>ct_fuel := n\<rparr>)" "q = Inr ()" by auto
        then show thesis
          by (intro recorded [OF Inr, of n])
             (use assms valid Inr d in \<open>auto simp: emit_def bindA_def liftA_def push_event_def split: sum.splits\<close>)
      qed
    qed
  qed
qed

lemma drafted_fields:
  assumes "draft_event sha fresh j d = Inr e"
  shows "fget e (js ''type'') = JStr (ed_type d)" "fget e (js ''payload'') = JObj (ed_payload d)"
    "fget e (js ''seq'') = JNum (jw_lastSeq j + 1)"
  using assms by (auto simp: draft_event_def bindR_Inr_iff event_envelope_def fget_def)

section \<open>The state follows the journal\<close>

lemma replay_seq:
  assumes "replayEvents sha c es = Inr s"
  shows "rs_seq s = int (length es)"
proof -
  have "rs_seq s' = rs_seq s + int (length es)" if "foldR (reduceEvent sha c) s es = Inr s'" for s s' es
    using that
  proof (induction es arbitrary: s)
    case (Cons e es)
    then obtain m where m: "reduceEvent sha c s e = Inr m" "foldR (reduceEvent sha c) m es = Inr s'"
      by (auto simp: bindR_Inr_iff)
    have "rs_seq m = rs_seq s + 1"
      using event_frame [OF reduceEvent_apply(1) [OF m(1)]] by (simp add: frame_def)
    with Cons.IH [OF m(2)] show ?case by simp
  qed simp
  from this [OF assms [unfolded replayEvents_def]] show ?thesis by (simp add: initialState_def)
qed

lemma replay_snoc:
  "replayEvents sha c (es @ [e]) = bindR (replayEvents sha c es) (\<lambda>s. reduceEvent sha c s e)"
  by (simp add: replayEvents_def foldR_snoc)

lemma replay_stuck: "replayEvents sha c es = Inl err \<Longrightarrow> replayEvents sha c (es @ fs) = Inl err"
  by (simp add: replayEvents_def foldR_append)

text \<open>
  The state is the replay of the journal, or of a part of it at whose end stands an event that
  no replay accepts.
\<close>

definition follows_journal :: "(jstring \<Rightarrow> jstring) \<Rightarrow> controller \<Rightarrow> bool" where
  "follows_journal sha w \<longleftrightarrow>
     jw_lastSeq (ct_journal w) = int (length (ct_committed w))
     \<and> (\<exists>es fs. ct_committed w = es @ fs \<and> replayEvents sha (ct_config w) es = Inr (ct_state w)
          \<and> (fs = [] \<or> (\<exists>err. replayEvents sha (ct_config w) (ct_committed w) = Inl err)))"

lemma follows_other [simp]:
  "follows_journal sha (w\<lparr>ct_fuel := a\<rparr>) = follows_journal sha w"
  "follows_journal sha (w\<lparr>ct_ledger := l, ct_ledgerFile := f\<rparr>) = follows_journal sha w"
  "follows_journal sha (w\<lparr>ct_jobs := jobs, ct_effects := k\<rparr>) = follows_journal sha w"
  "follows_journal sha (w\<lparr>ct_requests := rq\<rparr>) = follows_journal sha w"
  by (simp_all add: follows_journal_def)

lemma emit_follows:
  assumes "env_of sha ev" "follows_journal sha w" "emit ev ty p w = (w', r)"
  shows "follows_journal sha w'"
  using assms(3)
proof (cases rule: emit_cases)
  case unchanged
  with assms(2) show ?thesis by simp
next
  case (recorded e n)
  from assms(2) obtain es fs where es: "ct_committed w = es @ fs" "replayEvents sha (ct_config w) es = Inr (ct_state w)"
    "fs = [] \<or> (\<exists>err. replayEvents sha (ct_config w) (ct_committed w) = Inl err)"
    and seq: "jw_lastSeq (ct_journal w) = int (length (ct_committed w))"
    by (auto simp: follows_journal_def)
  note f = drafted_fields [OF recorded(1)]
  have sha: "ev_sha ev = sha" using assms(1) by (simp add: env_of_def)
  have num: "event_seq e = int (length (ct_committed w @ [e]))" using f(3) seq by (simp add: event_seq_def)
  show ?thesis
  proof (cases "fs = []")
    case True
    with es have all: "replayEvents sha (ct_config w) (ct_committed w @ [e]) = reduceEvent sha (ct_config w) (ct_state w) e"
      by (simp add: replay_snoc)
    show ?thesis
    proof (cases "reduceEvent sha (ct_config w) (ct_state w) e")
      case (Inl err)
      with recorded(2) sha have "w' = push_event e (w\<lparr>ct_fuel := n\<rparr>)" by simp
      then show ?thesis
        using num all Inl es True unfolding follows_journal_def
        by (intro conjI exI [of _ "ct_committed w"] exI [of _ "[e]"]) (auto simp: push_event_def)
    next
      case (Inr s)
      with recorded(2) sha have "w' = (push_event e (w\<lparr>ct_fuel := n\<rparr>))\<lparr>ct_state := s\<rparr>" by simp
      then show ?thesis
        using num all Inr es True unfolding follows_journal_def
        by (intro conjI exI [of _ "ct_committed w @ [e]"] exI [of _ "[]"]) (auto simp: push_event_def)
    qed
  next
    case False
    with es obtain err where bad: "replayEvents sha (ct_config w) (ct_committed w) = Inl err" by blast
    have "rs_seq (ct_state w) < int (length (ct_committed w))"
      using replay_seq [OF es(2)] es(1) False by simp
    then have "\<exists>err. reduceEvent sha (ct_config w) (ct_state w) e = Inl err"
      using f(3) seq reduceEvent_apply(3) [of sha "ct_config w" "ct_state w" e]
      by (cases "reduceEvent sha (ct_config w) (ct_state w) e") (auto simp: eq_num_def)
    with recorded(2) sha have "w' = push_event e (w\<lparr>ct_fuel := n\<rparr>)" by auto
    then show ?thesis
      using num es replay_stuck [OF bad] unfolding follows_journal_def
      by (intro conjI exI [of _ es] exI [of _ "fs @ [e]"]) (auto simp: push_event_def)
  qed
qed

section \<open>One request per action\<close>

text \<open>
  What the state keeps of its actions: their names are not empty, and one whose request was sent has
  left the statuses in which a request can be sent.
\<close>

definition actions_named :: "run_state \<Rightarrow> bool" where
  "actions_named s \<longleftrightarrow> map_of (rs_actions s) [] = None"

lemma actions_named_update: "actions_named s \<Longrightarrow> i \<noteq> [] \<Longrightarrow> actions_named (store_action i a s)"
  by (simp add: actions_named_def)

lemma replay_names:
  assumes "replayEvents sha c es = Inr s"
  shows "actions_named s"
proof (rule fold_relation [OF assms [unfolded replayEvents_def], of actions_named])
  fix s ty p s'
  assume "apply_payload sha c s ty p = Inr s'" "actions_named s"
  then show "actions_named s'"
    by (cases rule: event_cases)
       (auto simp: actions_named_def store_action_def with_balance_def split: option.splits if_splits)
qed (simp_all add: actions_named_def initialState_def)

definition sent_ok :: "jstring list \<Rightarrow> run_state \<Rightarrow> bool" where
  "sent_ok rq s \<longleftrightarrow>
     distinct rq \<and> list_all (\<lambda>i. case map_of (rs_actions s) i of Some a \<Rightarrow> RUNNING \<le> act_status a | None \<Rightarrow> False) rq"

lemma sent_ok_reduce:
  assumes "reduceEvent sha c s e = Inr s'" "sent_ok rq s"
  shows "sent_ok rq s'"
proof -
  have "actions_advance s s'"
    using event_advances [OF reduceEvent_apply(1) [OF assms(1)]] by (simp add: actions_advance_def)
  moreover have "act_status a \<le> act_status b" if "action_moved a b" for a b
    using that act.forward by (auto simp: action_moved_def less_imp_le)
  ultimately show ?thesis
    using assms(2) by (fastforce simp: sent_ok_def list_all_iff actions_advance_def split: option.splits)
qed

lemma launched_reduce:
  assumes "reduceEvent sha c s e = Inr s'" "fget e (js ''type'') = JStr (js ''action.launched'')"
    and "fget e (js ''payload'') = JObj p" "fget p (js ''actionId'') = JStr i"
  shows "\<exists>a b. map_of (rs_actions s) i = Some a \<and> act_status a < RUNNING
    \<and> map_of (rs_actions s') i = Some b \<and> act_status b = RUNNING"
proof -
  have "apply_payload sha c (s\<lparr>rs_seq := rs_seq s + 1, rs_lastEventHash := fget e (js ''eventHash'')\<rparr>)
      (js ''action.launched'') p = Inr s'"
    using reduceEvent_apply(1) [OF assms(1)] assms(2,3) by (simp add: pstr_def)
  then show ?thesis
  proof (cases rule: apply_payload_cases)
    case launched
    from on_launchedD [OF launched(3)] assms(4) show ?thesis
      by (auto simp: transitionAction_iff pstr_def intro: act.forward)
  qed simp_all
qed

definition run_inv :: "(jstring \<Rightarrow> jstring) \<Rightarrow> controller \<Rightarrow> bool" where
  "run_inv sha w \<longleftrightarrow> follows_journal sha w \<and> sent_ok (ct_requests w) (ct_state w)"

lemma run_inv_named: "run_inv sha w \<Longrightarrow> map_of (rs_actions (ct_state w)) i = Some a \<Longrightarrow> i \<noteq> []"
  by (auto simp: run_inv_def follows_journal_def actions_named_def dest!: replay_names)

lemma run_inv_other [simp]:
  "run_inv sha (w\<lparr>ct_fuel := a\<rparr>) = run_inv sha w"
  "run_inv sha (w\<lparr>ct_ledger := l, ct_ledgerFile := f\<rparr>) = run_inv sha w"
  "run_inv sha (w\<lparr>ct_jobs := jobs, ct_effects := k\<rparr>) = run_inv sha w"
  by (simp_all add: run_inv_def)

lemma emit_run_inv:
  assumes "env_of sha ev"
  shows "keeps (run_inv sha) (emit ev ty p)"
proof
  fix w assume w: "run_inv sha w"
  obtain w' r where e: "emit ev ty p w = (w', r)" by force
  from e have "sent_ok (ct_requests w') (ct_state w')"
    by (cases rule: emit_cases)
       (use w sent_ok_reduce in \<open>auto simp: run_inv_def push_event_def split: sum.splits\<close>)
  with w emit_follows [OF assms _ e] show "run_inv sha (fst (emit ev ty p w))"
    by (simp add: e run_inv_def)
qed

lemma durable_keeps:
  assumes "\<And>w n. P w \<Longrightarrow> P (w\<lparr>ct_fuel := n\<rparr>)" "\<And>w. P w \<Longrightarrow> P (fst (f w))"
  shows "keeps P (durable f)"
proof
  fix w assume w: "P w"
  obtain w' r where d: "durable f w = (w', r)" by force
  from durable_cases [OF d] assms(1) [OF w] assms(2) w have "P w'" by (metis fst_conv)
  then show "P (fst (durable f w))" by (simp add: d)
qed

lemma ledger_append_run_inv: "keeps (run_inv sha) (ledger_append ev x)"
  unfolding ledger_append_def by (auto intro!: durable_keeps split: prod.splits)

lemma request_run_inv:
  assumes "env_of sha ev"
  shows "keeps (run_inv sha) (bindA (attribution_launched ev i) (\<lambda>_. attribution_request ev i))"
proof
  fix w assume w: "run_inv sha w"
  obtain v r where e: "attribution_launched ev i w = (v, r)" by force
  have v: "run_inv sha v"
    using keepsD [OF emit_run_inv [OF assms] w e [unfolded attribution_launched_def]] .
  show "run_inv sha (fst (bindA (attribution_launched ev i) (\<lambda>_. attribution_request ev i) w))"
  proof (cases r)
    case (Inl err)
    with v e show ?thesis by (simp add: bindA_def)
  next
    case (Inr u)
    from e [unfolded attribution_launched_def] have "\<exists>a b. map_of (rs_actions (ct_state w)) i = Some a \<and> act_status a < RUNNING
        \<and> ct_requests v = ct_requests w \<and> map_of (rs_actions (ct_state v)) i = Some b \<and> act_status b = RUNNING"
    proof (cases rule: emit_cases)
      case unchanged
      with Inr show ?thesis by simp
    next
      case (recorded x n)
      with Inr obtain s where s: "reduceEvent (ev_sha ev) (ct_config w) (ct_state w) x = Inr s"
        "v = (push_event x (w\<lparr>ct_fuel := n\<rparr>))\<lparr>ct_state := s\<rparr>" by (auto split: sum.splits)
      from launched_reduce [OF s(1)] drafted_fields [OF recorded(1)] s(2) show ?thesis
        by (simp add: push_event_def fget_def)
    qed
    then have "sent_ok (ct_requests v @ [i]) (ct_state v)"
      using v w by (fastforce simp: run_inv_def sent_ok_def list_all_iff dest: leD)
    moreover have "run_inv sha (fst (attribution_request ev i v))"
      unfolding attribution_request_def
    proof -
      let ?f = "\<lambda>w. (w\<lparr>ct_requests := ct_requests w @ [i]\<rparr>, Inr (case ev_attribution ev i of Inr a \<Rightarrow> a
            | Inl m \<Rightarrow> unattributable (ev_uncertainRef ev m) m) :: attribution_attempt res)"
      obtain w' q where d: "durable ?f v = (w', q)" by force
      from durable_cases [OF d] v \<open>sent_ok (ct_requests v @ [i]) (ct_state v)\<close>
      show "run_inv sha (fst (durable ?f v))" by (auto simp: d run_inv_def)
    qed
    ultimately show ?thesis by (simp add: bindA_def e Inr)
  qed
qed

lemma journal_end_seq:
  assumes "replayEvents sha c es = Inr s"
  shows "jw_lastSeq (journal_end es j) = int (length es)"
proof (cases es rule: rev_cases)
  case (snoc fs e)
  with assms obtain m where m: "replayEvents sha c fs = Inr m" "reduceEvent sha c m e = Inr s"
    by (auto simp: replay_snoc bindR_Inr_iff)
  from reduceEvent_apply(3) [OF m(2)] replay_seq [OF m(1)] show ?thesis
    by (auto simp: snoc journal_end_def event_seq_def eq_num_def)
qed (simp add: journal_end_def)

lemma load_run_inv:
  assumes "run_inv sha w" "env_of sha ev" "load_run ev w = Inr w'"
  shows "run_inv sha w'"
proof -
  from assms(2,3) obtain s l where s: "replayEvents sha (ct_config w) (ct_committed w) = Inr s"
    and w': "w' = w\<lparr>ct_state := s, ct_journal := journal_end (ct_committed w) (ct_journal w), ct_ledger := l\<rparr>"
    by (auto simp: load_run_def bindR_Inr_iff env_of_def)
  from assms(1) s have "s = ct_state w" by (auto simp: run_inv_def follows_journal_def)
  with assms(1) s journal_end_seq [OF s] show ?thesis
    by (auto simp: w' run_inv_def follows_journal_def intro!: exI [of _ "ct_committed w"])
qed

interpretation ri: controller_invariant sha "run_inv sha" for sha
proof
  fix ev :: environment assume ev: "env_of sha ev"
  show "keeps (run_inv sha) (emit ev ty p)" for ty p by (rule emit_run_inv [OF ev])
  show "keeps (run_inv sha) (mirror_budget ev k d i n u)" for k d i n u
    unfolding mirror_budget_def by (intro keep ledger_append_run_inv emit_run_inv ev)
  show "keeps (run_inv sha) (provider_launch ev key)" for key
    unfolding provider_launch_def by (auto intro!: durable_keeps split: option.splits)
next
  fix ev :: environment and i assume "env_of sha ev"
  then show "keeps (run_inv sha) (bindA (attribution_launched ev i) (\<lambda>_. attribution_request ev i))"
    by (rule request_run_inv)
next
  fix w i a assume "run_inv sha w" "map_of (rs_actions (ct_state w)) i = Some a"
  then show "i \<noteq> []" by (rule run_inv_named)
next
  fix w ev w' assume "run_inv sha w" "env_of sha ev" "load_run ev w = Inr w'"
  then show "run_inv sha w'" by (rule load_run_inv)
qed simp

lemma new_run_inv: "run_inv sha (new_controller c jc)"
  by (simp add: run_inv_def follows_journal_def new_controller_def sent_ok_def replayEvents_def)

section \<open>The ledger is never behind\<close>

text \<open>
  The ledger file reads back as the ledger the process holds, and its entries are the ones the journal
  mirrors, in their order, with others in between where an entry reached the ledger and its event
  did not reach the journal.
\<close>

definition ledger_ahead :: "(jstring \<Rightarrow> jstring) \<Rightarrow> controller \<Rightarrow> bool" where
  "ledger_ahead sha w \<longleftrightarrow>
     (\<exists>es. ledger_synced sha (ct_ledger w) (ct_ledgerFile w) es
        \<and> bl_runId (ct_ledger w) = rc_runId (ct_config w) \<and> bl_limits (ct_ledger w) = rc_budgetLimits (ct_config w)
        \<and> subseq (List.map_filter budget_facts (ct_committed w)) (map entry_facts es))"

definition books_inv :: "(jstring \<Rightarrow> jstring) \<Rightarrow> controller \<Rightarrow> bool" where
  "books_inv sha w \<longleftrightarrow> run_inv sha w \<and> ((\<forall>t. hex64 (sha t)) \<longrightarrow> ledger_ahead sha w)"


lemma ledger_ahead_other [simp]:
  "ledger_ahead sha (w\<lparr>ct_fuel := a\<rparr>) = ledger_ahead sha w"
  "ledger_ahead sha (w\<lparr>ct_jobs := jobs, ct_effects := k\<rparr>) = ledger_ahead sha w"
  "ledger_ahead sha (w\<lparr>ct_requests := rq\<rparr>) = ledger_ahead sha w"
  by (simp_all add: ledger_ahead_def)

lemma books_other [simp]:
  "books_inv sha (w\<lparr>ct_fuel := a\<rparr>) = books_inv sha w"
  "books_inv sha (w\<lparr>ct_jobs := jobs, ct_effects := k\<rparr>) = books_inv sha w"
  by (simp_all add: books_inv_def)











section \<open>What a restart finds\<close>

text \<open>
  C28: a paid attribution request is never repeated. In every session, with any
  calls, failures, crash points and restarts, the request of an action is sent at most once, and an
  action whose request was sent is past the statuses from which a call could send it.
\<close>

theorem attribution_sent_once:
  "let w = run_session sha cs (new_controller c jc) in
    distinct (ct_requests w)
    \<and> list_all (\<lambda>i. case map_of (rs_actions (ct_state w)) i of
        Some a \<Rightarrow> RUNNING \<le> act_status a | None \<Rightarrow> False) (ct_requests w)"
  using ri.run_session_keeps [OF new_run_inv, of sha cs c jc]
  by (simp add: run_inv_def sent_ok_def)

text \<open>
  C29: the state a controller works with is the replay of what it has recorded,
  or of the part before an event that no replay accepts; a restart that opens the run finds the
  same state and the same journal.
\<close>

theorem session_state_is_replay:
  "let w = run_session sha cs (new_controller c jc) in
    (\<exists>es fs. ct_committed w = es @ fs \<and> replayEvents sha (ct_config w) es = Inr (ct_state w)
        \<and> (fs = [] \<or> (\<exists>err. replayEvents sha (ct_config w) (ct_committed w) = Inl err)))
    \<and> (case load_run (ev\<lparr>ev_sha := sha\<rparr>) w of
         Inl err \<Rightarrow> True | Inr w' \<Rightarrow> ct_state w' = ct_state w \<and> ct_committed w' = ct_committed w)"
proof -
  have "follows_journal sha (run_session sha cs (new_controller c jc))"
    using ri.run_session_keeps [OF new_run_inv, of sha cs c jc] by (simp add: run_inv_def)
  then show ?thesis
    by (auto simp: Let_def follows_journal_def load_run_def bindR_Inr_iff split: sum.splits)
qed




section \<open>Where a run gets stuck\<close>

text \<open>
  An event is recorded before it is reduced. A call the reducer refuses, such as a second lock, leaves
  an event behind which no replay accepts, and no restart opens the run again.
\<close>

lemma refused_event_poisons:
  assumes "env_of sha ev" "follows_journal sha w" "emit ev ty p w = (w', Inl err)"
    and "ct_committed w' \<noteq> ct_committed w"
  shows "\<exists>e. replayEvents sha (ct_config w') (ct_committed w') = Inl e" "\<exists>e. load_run ev w' = Inl e"
proof -
  from assms(3) show stuck: "\<exists>e. replayEvents sha (ct_config w') (ct_committed w') = Inl e"
  proof (cases rule: emit_cases)
    case unchanged
    with assms(4) show ?thesis by simp
  next
    case (recorded e n)
    then obtain x where x: "reduceEvent (ev_sha ev) (ct_config w) (ct_state w) e = Inl x"
      "w' = push_event e (w\<lparr>ct_fuel := n\<rparr>)" by (auto split: sum.splits)
    from assms(2) obtain es fs where es: "ct_committed w = es @ fs" "replayEvents sha (ct_config w) es = Inr (ct_state w)"
      "fs = [] \<or> (\<exists>err. replayEvents sha (ct_config w) (ct_committed w) = Inl err)"
      by (auto simp: follows_journal_def)
    from es(3) show ?thesis
    proof
      assume "fs = []"
      with es x assms(1) show ?thesis by (simp add: push_event_def replay_snoc env_of_def)
    next
      assume "\<exists>err. replayEvents sha (ct_config w) (ct_committed w) = Inl err"
      then show ?thesis by (auto simp: x(2) push_event_def dest: replay_stuck)
    qed
  qed
  with assms(1) show "\<exists>e. load_run ev w' = Inl e" by (auto simp: load_run_def env_of_def)
qed

text \<open>A second lock is refused, and if it was recorded the run is stuck.\<close>

lemma second_lock_refused:
  assumes "rs_candidateLock (ct_state w) \<noteq> None"
  shows "\<exists>err. snd (lockCandidate ev i h w) = Inl err"
proof -
  obtain w' r where e: "lockCandidate ev i h w = (w', r)" by force
  have refused: "\<exists>err. reduceEvent sha c (ct_state w) x = Inl err"
    if x: "fget x (js ''type'') = JStr (js ''candidate.locked'')" for sha c x
  proof (cases "reduceEvent sha c (ct_state w) x")
    case (Inr s)
    from reduceEvent_apply(1) [OF Inr] x have "apply_payload sha c
       ((ct_state w)\<lparr>rs_seq := rs_seq (ct_state w) + 1, rs_lastEventHash := fget x (js ''eventHash'')\<rparr>)
       (js ''candidate.locked'') (obj_of (fget x (js ''payload''))) = Inr s" by (simp add: pstr_def)
    then show ?thesis
      by (cases rule: apply_payload_cases) (use assms in \<open>auto simp: on_locked_def ensure_Inr_iff\<close>)
  qed blast
  from e [unfolded lockCandidate_def] have "\<exists>err. r = Inl err"
  proof (cases rule: emit_cases)
    case (recorded x n)
    from refused [of x "ev_sha ev" "ct_config w"] drafted_fields(1) [OF recorded(1)] recorded(2)
    show ?thesis by auto
  qed auto
  with e show ?thesis by simp
qed

text \<open>
  The guards by which a repeated call returns early look at the last event of a step only: a
  reservation without its budget entries counts as made, a commit without its settlement as done.
\<close>

lemma reserve_early:
  assumes "rget (rs_actions (ct_state w)) (in_actionId i) \<noteq> Absent"
  shows "reserve_evaluation ev i w = (w, Inr ())"
  using assms by (simp add: reserve_evaluation_def doneA_def)

lemma collect_early:
  assumes "map_of (rs_actions (ct_state w)) i = Some a" "act_status a = COMMITTED"
  shows "collectAndCommit ev i w = observation_of i w"
  using assms by (simp add: collectAndCommit_def bindA_def action_of_def liftA_def rget_def)

text \<open>\<open>requestOf\<close> drops the canary of the recorded request, so no observation carries it.\<close>

lemma request_without_canary:
  "request_of i w = (w', Inr rq) \<Longrightarrow> rq_infoFlowGuardCanary rq = None"
  by (auto simp: request_of_def bindA_Inr liftA_Inr ensure_Inr_iff Let_def split: option.splits)

lemma observation_without_canary:
  assumes "request_of i w = (w', Inr rq)"
  shows "fget (obj_of (observation_value i rq t)) (js ''infoFlowGuardCanary'') = JUndef"
  using request_without_canary [OF assms] by (simp add: observation_value_def fget_def)

end
