(* ===== verification/ControllerWave.thy ===== *)
theory ControllerWave
  imports ControllerSpec
begin

text \<open>
  What a wave of evaluations records and in which order: every intent before the first launch, then the
  launches, the observed ends, and the commits in the order of the reservations, whatever the
  order in which the launches and the jobs finish, and wherever the wave stops.
\<close>

section \<open>The events a call adds\<close>










section \<open>One reservation after the other\<close>
















section \<open>The later parts of a wave\<close>







section \<open>The order of the commits\<close>

















section \<open>A whole wave\<close>









end
