(* ===== verification/InfoFlow.thy ===== *)
theory InfoFlow
  imports ControllerRecovery
begin

text \<open>
  Model of \<^verbatim>\<open>packages/dsh-evolve-le/src/proposer/canary.ts\<close> and
  \<^verbatim>\<open>packages/dsh-evolve-le/src/iteration/info-flow-monitor.ts\<close>: the canary tokens of guard and sealed
  tasks, the scans of untrusted values and of the journal, and the durable receipt. The keyed
  digest, the plain digest and the random bytes are parameters, as hexadecimal texts.
\<close>

section \<open>Canary tokens\<close>

record canary_hit =
  ch_tokenFingerprint :: jstring
  ch_field :: jstring

definition canary_prefix :: jstring where
  "canary_prefix = js ''DSHCANARY_''"


definition generateCanaryTokens :: "(nat \<Rightarrow> jstring) \<Rightarrow> jsval \<Rightarrow> jstring list res" where
  "generateCanaryTokens random howMany =
     ensure (is_safe_number howMany \<and> 1 \<le> num_of howMany \<and> num_of howMany \<le> 10000)
       (PlainError, ''canary count must be 1..10000'')
       (Inr (map (\<lambda>index. canary_prefix @ random index) [0..<nat (num_of howMany)]))"

definition isValidCanaryToken :: "jstring \<Rightarrow> bool" where
  "isValidCanaryToken token \<longleftrightarrow> canary_pattern token"

definition scanForCanary :: "(jstring \<Rightarrow> jstring) \<Rightarrow> jstring \<Rightarrow> jstring list \<Rightarrow> canary_hit list" where
  "scanForCanary sha t tokens =
     map (\<lambda>token. \<lparr>ch_tokenFingerprint = sha token, ch_field = js ''text''\<rparr>) (filter (\<lambda>token. js_includes token t) tokens)"

text \<open>The scan of nested fields looks at strings in values; keys are only part of the reported path.\<close>

lemma size_nth: "i < length vs \<Longrightarrow> size (vs ! i) \<le> size_list size vs"
  by (rule size_list_estimation' [OF nth_mem order_refl])

function (sequential) scanFieldsForCanary ::
  "(jstring \<Rightarrow> jstring) \<Rightarrow> jsval \<Rightarrow> jstring list \<Rightarrow> jstring \<Rightarrow> canary_hit list" where
  "scanFieldsForCanary sha (JStr s) tokens path =
     map (\<lambda>token. \<lparr>ch_tokenFingerprint = sha token, ch_field = (if path = [] then js ''text'' else path)\<rparr>)
       (filter (\<lambda>token. js_includes token s) tokens)"
| "scanFieldsForCanary sha (JArr vs) tokens path =
     concat (map (\<lambda>(index, item). scanFieldsForCanary sha item tokens (path @ js ''['' @ dec (int index) @ js '']''))
       (enumerate 0 vs))"
| "scanFieldsForCanary sha (JObj kvs) tokens path =
     concat (map snd (object_entries (map (\<lambda>(k, v).
       (k, scanFieldsForCanary sha v tokens (if path = [] then k else path @ js ''.'' @ k))) kvs)))"
| "scanFieldsForCanary sha _ tokens path = []"
  by pat_completeness auto
termination
  by (relation "measure (\<lambda>(_, v, _, _). size v)")
     (auto simp: in_set_enumerate_eq less_Suc_eq_le size_nth dest!: size_member)

section \<open>The monitor\<close>

record info_flow_monitor =
  im_runId :: jstring
  im_families :: "(jstring \<times> jstring list) list"
  im_sealed :: "jstring list"

definition monitor_tokens :: "info_flow_monitor \<Rightarrow> jstring list" where
  "monitor_tokens m = concat (map snd (im_families m)) @ im_sealed m"



definition guardToken :: "info_flow_monitor \<Rightarrow> jstring \<Rightarrow> jstring res" where
  "guardToken m opaqueId =
     (case find (\<lambda>(i, _). i = opaqueId) (im_families m) of
        None \<Rightarrow> Inl (PlainError, ''is not a registered guard opaque id'')
      | Some (_, ts) \<Rightarrow> Inr (hd ts))"

definition monitor_scan :: "(jstring \<Rightarrow> jstring) \<Rightarrow> info_flow_monitor \<Rightarrow> jsval \<Rightarrow> canary_hit list" where
  "monitor_scan sha m v = scanFieldsForCanary sha v (monitor_tokens m) []"







section \<open>The receipt\<close>

record monitor_hit =
  mh_surface :: jstring
  mh_fingerprints :: "jstring list"
  mh_at :: jstring

record monitor_doc =
  md_runId :: jstring
  md_aborted :: bool
  md_tokenFingerprints :: "jstring list"
  md_checkedEvents :: "int option"
  md_hits :: "monitor_hit list"

text \<open>
  The file: absent, cut short by a process that died while it was written, or a document. A read that
  fails is taken for an absent file, whatever the file holds; a text that does not parse throws.
\<close>

datatype monitor_file = NoFile | Torn | Written monitor_doc

fun readDoc :: "bool \<Rightarrow> monitor_file \<Rightarrow> monitor_doc option res" where
  "readDoc False _ = Inr None"
| "readDoc True NoFile = Inr None"
| "readDoc True Torn = Inl (PlainError, ''SyntaxError'')"
| "readDoc True (Written d) = Inr (Some d)"

definition writeDoc :: "bool \<Rightarrow> monitor_doc \<Rightarrow> monitor_file \<times> unit res" where
  "writeDoc interrupted d =
     (if interrupted then (Torn, Inl (PlainError, ''interrupted'')) else (Written d, Inr ()))"




definition writeCleanReceipt ::
  "(jstring \<Rightarrow> jstring) \<Rightarrow> info_flow_monitor \<Rightarrow> bool \<Rightarrow> bool \<Rightarrow> int \<Rightarrow> monitor_file \<Rightarrow> monitor_file \<times> unit res" where
  "writeCleanReceipt sha m opens interrupted checkedEvents f =
     (case readDoc opens f of
        Inl e \<Rightarrow> (f, Inl e)
      | Inr doc \<Rightarrow>
          if (case doc of None \<Rightarrow> False | Some d \<Rightarrow> md_aborted d)
          then (f, Inl (PlainError, ''run is already aborted; the lineage stays invalidated''))
          else writeDoc interrupted
            \<lparr>md_runId = im_runId m, md_aborted = False, md_tokenFingerprints = map sha (monitor_tokens m),
             md_checkedEvents = Some checkedEvents, md_hits = []\<rparr>)"

section \<open>What the sweep finds\<close>










lemma starts_with_code [code]:
  "starts_with [] s = True"
  "starts_with (c # cs) [] = False"
  "starts_with (c # cs) (u # us) = (if c = u then starts_with cs us else False)"
  by (simp_all add: starts_with_def eq_commute)











section \<open>What the receipt keeps\<close>












text \<open>A receipt that cannot be read is taken for an absent one, and an abort is overwritten.\<close>

lemma unreadable_abort_overwritten:
  "writeCleanReceipt sha m False False n (Written d) =
     (Written \<lparr>md_runId = im_runId m, md_aborted = False, md_tokenFingerprints = map sha (monitor_tokens m),
               md_checkedEvents = Some n, md_hits = []\<rparr>, Inr ())"
  by (simp add: writeCleanReceipt_def writeDoc_def)

text \<open>The scan of fields does not look at keys: a token used as a key goes unnoticed.\<close>

lemma token_as_key_unnoticed:
  "monitor_scan sha m (JObj [(token, JNull)]) = []"
  by (simp add: monitor_scan_def object_entries_def)

end
