(* ===== verification/RunLock.thy ===== *)
theory RunLock
  imports Prelude
begin

text \<open>
  Model of \<^verbatim>\<open>packages/dsh-evolve-le/src/controller/lock.ts\<close>: the writer lock of a run directory, as
  the steps that several processes take on one lock file in any order. A process may exit or be killed
  between any two steps, process ids may be used again, and the machine may boot again.
\<close>

section \<open>The lock file and the processes\<close>

record owner_record =
  ow_token :: jstring
  ow_pid :: int
  ow_bootId :: jstring
  ow_acquiredAt :: jstring
  ow_leaseMs :: int

text \<open>
  A file that was created and not written yet (or not completely) does not parse. A file has an
  identity: a process writes through its handle to the file it created, whatever the path names by then.
\<close>

datatype lock_content = Unwritten | Owner owner_record

text \<open>
  Where a process is in \<open>acquireWriterLock\<close>: about to create the file, about to write it, about to read the
  record it found, about to judge the record, about to rename its own record over the path (its
  staging file has a name of its own), owner of the lock, or refused.
\<close>

datatype stage =
    Idle
  | Opening owner_record
  | Writing owner_record nat
  | Reading owner_record
  | HasRead owner_record nat owner_record
  | Stale owner_record nat
  | Holding owner_record nat
  | Refused string

record lock_world =
  lw_boot :: jstring
  lw_path :: "(nat \<times> lock_content) option"
  lw_next :: nat
  lw_procs :: "int \<rightharpoonup> stage"

definition LEASE_DEFAULT_MS :: int where
  "LEASE_DEFAULT_MS = 15 * 60000"

text \<open>\<open>process.kill(pid, 0)\<close> tells whether a process with this id exists, whosever it is.\<close>

definition processAlive :: "(int \<Rightarrow> bool) \<Rightarrow> int \<Rightarrow> jstring \<Rightarrow> jstring \<Rightarrow> bool" where
  "processAlive exists pid bootId myBootId \<longleftrightarrow> bootId = myBootId \<and> exists pid"

definition set_stage :: "int \<Rightarrow> stage \<Rightarrow> lock_world \<Rightarrow> lock_world" where
  "set_stage p s w = w\<lparr>lw_procs := (lw_procs w)(p \<mapsto> s)\<rparr>"

definition tryPublish :: "int \<Rightarrow> owner_record \<Rightarrow> lock_world \<Rightarrow> lock_world" where
  "tryPublish p r w =
     (case lw_path w of
        None \<Rightarrow> set_stage p (Writing r (lw_next w))
          (w\<lparr>lw_path := Some (lw_next w, Unwritten), lw_next := Suc (lw_next w)\<rparr>)
      | Some _ \<Rightarrow> set_stage p (Reading r) w)"

definition write_record :: "int \<Rightarrow> owner_record \<Rightarrow> nat \<Rightarrow> lock_world \<Rightarrow> lock_world" where
  "write_record p r n w =
     set_stage p (Holding r n) (w\<lparr>lw_path := (case lw_path w of
        Some (m, c) \<Rightarrow> Some (m, if m = n then Owner r else c) | None \<Rightarrow> None)\<rparr>)"

definition read_record :: "int \<Rightarrow> owner_record \<Rightarrow> lock_world \<Rightarrow> lock_world" where
  "read_record p r w =
     (case lw_path w of
        Some (n, Owner existing) \<Rightarrow> set_stage p (HasRead r n existing) w
      | _ \<Rightarrow> set_stage p (Refused ''cannot read existing owner.lock.json; refusing blind takeover'') w)"

definition judge_record :: "int \<Rightarrow> owner_record \<Rightarrow> nat \<Rightarrow> owner_record \<Rightarrow> lock_world \<Rightarrow> lock_world" where
  "judge_record p r n existing w =
     (if ow_bootId existing = ow_bootId r \<and> ow_pid existing = p then
        set_stage p (Refused ''this process already holds the lock; open the controller once'') w
      else if processAlive (\<lambda>q. lw_procs w q \<noteq> None) (ow_pid existing) (ow_bootId existing) (ow_bootId r) then
        set_stage p (Refused ''run is owned by live pid'') w
      else set_stage p (Stale r n) w)"

definition take_over :: "int \<Rightarrow> owner_record \<Rightarrow> lock_world \<Rightarrow> lock_world" where
  "take_over p r w =
     set_stage p (Holding r (lw_next w)) (w\<lparr>lw_path := Some (lw_next w, Owner r), lw_next := Suc (lw_next w)\<rparr>)"

definition acquire_step :: "int \<Rightarrow> lock_world \<Rightarrow> lock_world" where
  "acquire_step p w =
     (case lw_procs w p of
        Some (Opening r) \<Rightarrow> tryPublish p r w
      | Some (Writing r n) \<Rightarrow> write_record p r n w
      | Some (Reading r) \<Rightarrow> read_record p r w
      | Some (HasRead r n existing) \<Rightarrow> judge_record p r n existing w
      | Some (Stale r n) \<Rightarrow> take_over p r w
      | _ \<Rightarrow> w)"

text \<open>\<open>release\<close> removes the file at the path, whosever record it holds.\<close>

definition release_lock :: "int \<Rightarrow> lock_world \<Rightarrow> lock_world" where
  "release_lock p w =
     (case lw_procs w p of
        Some (Holding r n) \<Rightarrow> set_stage p Idle (w\<lparr>lw_path := None\<rparr>)
      | _ \<Rightarrow> w)"

definition start_acquire :: "int \<Rightarrow> jstring \<Rightarrow> jstring \<Rightarrow> int option \<Rightarrow> lock_world \<Rightarrow> lock_world" where
  "start_acquire p token now leaseMs w =
     (case lw_procs w p of
        Some Idle \<Rightarrow> set_stage p (Opening \<lparr>ow_token = token, ow_pid = p, ow_bootId = lw_boot w,
          ow_acquiredAt = now, ow_leaseMs = (case leaseMs of None \<Rightarrow> LEASE_DEFAULT_MS | Some ms \<Rightarrow> ms)\<rparr>) w
      | _ \<Rightarrow> w)"

section \<open>Schedules\<close>

datatype lock_event =
    Spawn int
  | Acquire int jstring jstring "int option"
  | Step int
  | Release int
  | Die int
  | Reboot jstring

fun lock_step :: "lock_event \<Rightarrow> lock_world \<Rightarrow> lock_world" where
  "lock_step (Spawn p) w = (if lw_procs w p = None then set_stage p Idle w else w)"
| "lock_step (Acquire p token now leaseMs) w = start_acquire p token now leaseMs w"
| "lock_step (Step p) w = acquire_step p w"
| "lock_step (Release p) w = release_lock p w"
| "lock_step (Die p) w = w\<lparr>lw_procs := (lw_procs w)(p := None)\<rparr>"
| "lock_step (Reboot b) w = w\<lparr>lw_boot := b, lw_procs := Map.empty\<rparr>"

definition lock_run :: "lock_event list \<Rightarrow> lock_world \<Rightarrow> lock_world" where
  "lock_run es w = fold lock_step es w"

definition holds_lock :: "lock_world \<Rightarrow> int \<Rightarrow> bool" where
  "holds_lock w p \<longleftrightarrow> (case lw_procs w p of Some (Holding r n) \<Rightarrow> True | _ \<Rightarrow> False)"

text \<open>No process yet, and a lock file left by earlier ones, or none.\<close>

definition left_over :: "jstring \<Rightarrow> lock_content option \<Rightarrow> lock_world" where
  "left_over boot c = \<lparr>lw_boot = boot, lw_path = map_option (\<lambda>x. (0, x)) c, lw_next = 1, lw_procs = Map.empty\<rparr>"

text \<open>A takeover is undisturbed when the path still names the file whose record was judged.\<close>

definition undisturbed :: "lock_event \<Rightarrow> lock_world \<Rightarrow> bool" where
  "undisturbed e w \<longleftrightarrow>
     (case e of
        Step p \<Rightarrow> (case lw_procs w p of Some (Stale r n) \<Rightarrow> map_option fst (lw_path w) = Some n | _ \<Rightarrow> True)
      | _ \<Rightarrow> True)"


section \<open>The invariant\<close>





lemma set_stage_simps [simp]:
  "lw_boot (set_stage p s w) = lw_boot w" "lw_path (set_stage p s w) = lw_path w"
  "lw_next (set_stage p s w) = lw_next w" "lw_procs (set_stage p s w) = (lw_procs w)(p \<mapsto> s)"
  by (simp_all add: set_stage_def)












section \<open>At most one owner\<close>



lemmas lock_exec = lock_run_def left_over_def set_stage_def start_acquire_def acquire_step_def tryPublish_def
  write_record_def read_record_def judge_record_def processAlive_def take_over_def release_lock_def
  holds_lock_def undisturbed_def












section \<open>What the code does not do\<close>

text \<open>
  Two processes that find the record of a dead owner both take it over. The second rename is not
  refused, and both hold the lock.
\<close>

lemma two_takeovers:
  "let w = lock_run [Spawn 8, Spawn 9, Acquire 8 (js ''a'') (js ''t'') None, Acquire 9 (js ''b'') (js ''t'') None,
       Step 8, Step 9, Step 8, Step 9, Step 8, Step 9, Step 8, Step 9]
     (left_over (js ''boot'') (Some (Owner \<lparr>ow_token = js ''x'', ow_pid = 7, ow_bootId = js ''boot'',
        ow_acquiredAt = js ''t'', ow_leaseMs = 0\<rparr>)))
   in holds_lock w 8 \<and> holds_lock w 9"
  by (simp add: lock_exec)

text \<open>A takeover also displaces a live owner that acquired the lock after the record was read.\<close>

lemma takeover_of_a_live_owner:
  "let w = lock_run [Spawn 7, Spawn 8, Spawn 9, Acquire 7 (js ''a'') (js ''t'') None, Step 7, Step 7,
       Acquire 8 (js ''b'') (js ''t'') None, Step 8, Step 8, Release 7, Die 7,
       Acquire 9 (js ''c'') (js ''t'') None, Step 9, Step 9, Step 8, Step 8] (left_over (js ''boot'') None)
   in holds_lock w 8 \<and> holds_lock w 9"
  by (simp add: lock_exec)

text \<open>
  A process that dies between creating the file and writing its record leaves a file that no process
  takes over any more.
\<close>

lemma unwritten_record_wedges:
  assumes "lw_path w = Some (n, Unwritten)" "lw_procs w p = Some Idle"
  shows "acquire_step p (acquire_step p (start_acquire p token now leaseMs w)) =
    set_stage p (Refused ''cannot read existing owner.lock.json; refusing blind takeover'') w"
  using assms by (simp add: start_acquire_def acquire_step_def tryPublish_def read_record_def set_stage_def)

text \<open>
  A process whose id is the dead owner's, as in a container that is restarted on the same boot, is told that
  it already holds the lock.
\<close>

lemma same_pid_refused:
  assumes "lw_procs w p = Some (HasRead r n e)" "ow_bootId e = ow_bootId r" "ow_pid e = p"
  shows "lw_procs (acquire_step p w) p = Some (Refused ''this process already holds the lock; open the controller once'')"
  using assms by (simp add: acquire_step_def judge_record_def)

end
