(* ===== verification/Spec2Isabelle.thy ===== *)
theory Spec2Isabelle
  imports ReducerSpec JournalOpen JournalAudit Clade AdmissionLedger SealedPlan SplitCeremony Tournament ControllerWave InfoFlow RunLock
begin

text \<open>
  \<^bold>\<open>A model of the durable core of dsh-evolve-le\<close> (\<^verbatim>\<open>packages/dsh-evolve-le/src\<close>; the paths below
  are relative to it).

  An evolution run proposes candidates, evaluates them in waves of paid jobs and crowns a champion. Its
  controller records every fact as an event of a hash-chained journal and rebuilds its state by folding
  the events through a pure reducer; budget is kept in a second hash-chained ledger that the journal
  mirrors; random decisions are drawn from counter streams of one seed, with receipts; artifacts lie in a
  content-addressed store. Everything durable is written and read in one canonical JSON form. The
  development follows this structure from the text of one record up to whole sessions of the
  controller, with processes that die at any durable step.

  \<^bold>\<open>Theories and the code they model\<close>

  \<^item> \<open>Prelude\<close>: JavaScript strings (lists of 16-bit code units), values as they reach a parameter of
    type \<open>unknown\<close>, objects as ordered fields, dictionaries with the inherited names of an ordinary
    object, errors as values of a sum type, the doubles the code uses as integers.
  \<^item> \<open>CanonicalJson\<close>: \<^verbatim>\<open>state/canonical.ts\<close> (serializer, hash, timestamp check, scanner and parser).
  \<^item> \<open>HashChain\<close>, \<open>EventFold\<close>, \<open>TransitionTable\<close>: locales. A log whose records link by digest; a state
    rebuilt by a fold that may refuse an event; a status with a table of allowed edges.
    \<open>Budget\<close> and \<open>JournalAudit\<close> interpret the first, \<open>Budget\<close> and \<open>ReducerLaws\<close> the second,
    \<open>ReducerLaws\<close> the third for phases, actions and candidates.
  \<^item> \<open>Budget\<close>: \<^verbatim>\<open>state/budget.ts\<close> (entry validation, accounting, replay, append, cross-check).
  \<^item> \<open>Rng\<close>: \<^verbatim>\<open>state/rng.ts\<close>. \<open>ObjectStore\<close>: \<^verbatim>\<open>state/object-store.ts\<close>.
  \<^item> \<open>RunState\<close>, \<open>Payload\<close>, \<open>Reducer\<close>: \<^verbatim>\<open>state/reducer.ts\<close>: the state, the validation of the sixteen
    kinds of payload, and the handlers (\<open>reduceEvent\<close>, \<open>replayEvents\<close>, \<open>stateHashOf\<close>).
    \<open>ReducerLaws\<close>, \<open>Interleaving\<close>, \<open>Samples\<close> and \<open>ReducerSpec\<close> hold their invariants and properties.
  \<^item> \<open>Journal\<close>, \<open>JournalNames\<close>, \<open>JournalRead\<close>, \<open>JournalWrite\<close>: \<^verbatim>\<open>state/journal.ts\<close>: segments,
    \<open>HEAD\<close>, close summaries, the scan of a directory, and the append as a plan of file effects that a
    crash may cut anywhere. \<open>JournalSpec\<close>, \<open>JournalOpen\<close>, \<open>JournalAudit\<close>: atomicity and completion of
    appends, recovery and quarantine, what a reader may rely on.
  \<^item> \<open>RunLock\<close>: \<^verbatim>\<open>controller/lock.ts\<close>.
  \<^item> \<open>Controller\<close>, \<open>ControllerSaga\<close>, \<open>ControllerRecovery\<close>: \<^verbatim>\<open>controller/controller.ts\<close>: recording steps,
    waves of evaluations, the attribution saga, published evidence, recovery on open, and sessions of
    calls, failures and restarts (\<open>command\<close>, \<open>run_session\<close>). \<open>ControllerLaws\<close> has the locale
    \<open>controller_invariant\<close> and the rules by which a predicate is kept through the monad;
    \<open>ControllerSpec\<close> interprets it twice and states the session properties, \<open>ControllerWave\<close> the order
    of a wave.
  \<^item> \<open>InfoFlow\<close>: \<^verbatim>\<open>proposer/canary.ts\<close>, \<^verbatim>\<open>iteration/info-flow-monitor.ts\<close>.
  \<^item> \<open>ExecSpec\<close>: \<^verbatim>\<open>execution/types.ts\<close>. \<open>Admission\<close>: \<^verbatim>\<open>execution/resources.ts\<close> (the in-memory pools).
    \<open>AdmissionLedger\<close>: \<^verbatim>\<open>execution/reservation-ledger.ts\<close>.
  \<^item> \<open>Clade\<close>: \<^verbatim>\<open>selection/clade.ts\<close>. \<open>Tournament\<close>: \<^verbatim>\<open>selection/tournament.ts\<close>.
    \<open>SealedPlan\<close>: \<^verbatim>\<open>sealed/plan.ts\<close>. \<open>SplitCeremony\<close>: \<^verbatim>\<open>split/ceremony.ts\<close>.

  \<^bold>\<open>How the parts rest on each other.\<close> The serializer and the parser are inverse to each other, so a line of a
  log determines its record. A log whose last digest is known determines all its lines, up to a collision
  of the digest that the theorem names. The reducer accepts only well-formed histories of actions, phases
  and locks, and its hash forgets the order in which concurrent actions finished. An append leaves a directory
  that reads back as the old or as the new log. The controller composes the two logs: its state is
  the replay of its journal, its ledger is never behind the journal, a paid request is sent once, a wave
  launches nothing before all its intents are durable.

  \<^bold>\<open>Bounds and fuel.\<close> The parser recurses with a fuel of twice the length of the text plus one;
  \<open>parseCanonicalJson_total\<close> shows that it never runs out. The shuffle of \<open>Rng\<close> may reject words for
  ever, so it is a partial function with value \<open>None\<close> there; \<open>permutationOf_returns\<close>, \<open>sealed_plan_roundtrip\<close>
  and \<open>split_ceremony_partitions\<close> say when it returns. The clade walk may not end, and is partial too;
  \<open>clade_members_returns_iff\<close> says exactly when it does. \<open>ct_fuel\<close> is not a bound of the model but the step at
  which the process dies, and every property of a session holds for all its values. A poll of a job stops
  after the thousand tries the code makes. The order in which the launches of a wave proceed is a list of
  positions that the properties quantify over; a list that does not mention a position often enough
  is completed, so that every launch ends. Amounts, counters and sizes are integers with the code's tests for
  safe integers; where the code adds doubles before it tests them, the model does as well.

  \<^bold>\<open>Parameters.\<close> The digests and the keyed digest, the clock, random tokens, the platform's division of
  doubles and the outside world of the controller (launches, job status, collected artifacts, the answer of
  the attribution service) are arguments of the definitions. What a theorem needs of them is a
  hypothesis: a digest yields 64 hexadecimal digits, or nothing at all. Collisions are never excluded by
  a hypothesis; they are a disjunct of the conclusion.

  \<^bold>\<open>Witnesses.\<close> Every property with hypotheses is applied to a concrete run, evaluated from the definitions:
  \<open>Samples\<close> and the \<open>sample_\<close> definitions at the end of the theories.

  \<^bold>\<open>Not modelled.\<close> The proposal saga of \<^verbatim>\<open>controller/controller.ts\<close> (it repeats the reservation,
  launch and commit steps of an evaluation around the storing of a candidate tree); the parts of \<^verbatim>\<open>selection/\<close>
  that compute with logarithms, gamma draws and resampled means of doubles; the driver \<^verbatim>\<open>iteration/driver.ts\<close>,
  the builder, the proposer, the solver gateway, the execution supervisor, the protocol adapters and the command
  line, which move data between processes, containers and the network; \<^verbatim>\<open>config/\<close> and the schema files, which
  a third-party validator compiles; \<^verbatim>\<open>tree-v2/\<close>, \<^verbatim>\<open>candidate/\<close>, \<^verbatim>\<open>attribution/\<close>. Time-outs, sleeps and
  abort signals are not in the model; what can happen at such a point is a choice of the environment.
  Where a JavaScript corner case leaves what the model describes (a write to an inherited property), the
  definitions return an \<open>Unmodelled\<close> error, which no property counts as success.
\<close>

end
